(* ===== verification/Prelude.thy ===== *)
theory Prelude
  imports Complex_Main "HOL-Library.AList" "HOL-Library.Multiset"
begin

text \<open>
  Shared vocabulary of the development: results of fallible Python code, loops that stop at
  the first exception, and Python's containers.

  \<^item> A Python \<open>dict\<close> keeps its insertion order, and the code iterates over dicts, so
    a dict is an association list with distinct keys. \<open>AList.update\<close> overwrites in place
    or appends at the end, exactly as \<open>d[k] = v\<close> does; \<open>AList.delete\<close> is \<open>del d[k]\<close>;
    \<open>map_of\<close> is \<open>d.get(k)\<close>.
  \<^item> A \<open>collections.defaultdict(list)\<close> inserts an empty list when a missing key is read;
    \<open>dd_get\<close> is the value read and \<open>dd_touch\<close> the dict after the read.
  \<^item> A computation that may raise returns \<open>'e + 'a\<close>, with \<open>Inl\<close> for the exception;
    a computation with state returns the state as well, since Python keeps the mutations
    made before an exception.
\<close>

named_theorems py_dict "laws of the Python dict model"
named_theorems py_loop "laws of loops and results"

section \<open>Results\<close>

definition bind_res :: "'e + 'a \<Rightarrow> ('a \<Rightarrow> 'e + 'b) \<Rightarrow> 'e + 'b" where
  "bind_res r f = (case r of Inl e \<Rightarrow> Inl e | Inr x \<Rightarrow> f x)"

lemma bind_res_simps [simp, py_loop]:
  "bind_res (Inl e) f = Inl e"
  "bind_res (Inr x) f = f x"
  by (simp_all add: bind_res_def)

lemma bind_res_Inr [py_loop]: "bind_res r f = Inr y \<longleftrightarrow> (\<exists>x. r = Inr x \<and> f x = Inr y)"
  by (cases r) auto

lemma bind_res_Inl [py_loop]:
  "bind_res r f = Inl e \<longleftrightarrow> r = Inl e \<or> (\<exists>x. r = Inr x \<and> f x = Inl e)"
  by (cases r) auto

definition is_ok :: "'e + 'a \<Rightarrow> bool" where
  "is_ok r = (case r of Inl _ \<Rightarrow> False | Inr _ \<Rightarrow> True)"

lemma is_ok_simps [simp]: "\<not> is_ok (Inl e)" "is_ok (Inr x)"
  by (simp_all add: is_ok_def)

lemma is_ok_iff: "is_ok r \<longleftrightarrow> (\<exists>x. r = Inr x)"
  by (cases r) auto

section \<open>Stateful loops that stop at the first exception\<close>

text \<open>
  \<open>each body xs s\<close> is \<open>for x in xs: body(x)\<close>: the body runs on each element in order, the
  state is threaded, and the first exception ends the loop with the state it left behind.
\<close>

type_synonym ('s, 'e, 'a) outcome = "'s \<times> ('e + 'a)"

fun each :: "('x \<Rightarrow> 's \<Rightarrow> ('s, 'e, unit) outcome) \<Rightarrow> 'x list \<Rightarrow> 's \<Rightarrow> ('s, 'e, unit) outcome" where
  "each body [] s = (s, Inr ())"
| "each body (x # xs) s =
     (case body x s of
        (s', Inl e) \<Rightarrow> (s', Inl e)
      | (s', Inr _) \<Rightarrow> each body xs s')"

definition and_then :: "('s, 'e, 'a) outcome \<Rightarrow> ('a \<Rightarrow> 's \<Rightarrow> ('s, 'e, 'b) outcome) \<Rightarrow> ('s, 'e, 'b) outcome" where
  "and_then m f = (case m of (s, Inl e) \<Rightarrow> (s, Inl e) | (s, Inr x) \<Rightarrow> f x s)"

lemma and_then_simps [simp, py_loop]:
  "and_then (s, Inl e) f = (s, Inl e)"
  "and_then (s, Inr x) f = f x s"
  by (simp_all add: and_then_def)

lemma and_then_Inr:
  "and_then m f = (s', Inr y) \<longleftrightarrow> (\<exists>s x. m = (s, Inr x) \<and> f x s = (s', Inr y))"
  by (cases m; cases "snd m") auto

lemma and_then_Inl:
  "and_then m f = (s', Inl e) \<longleftrightarrow> m = (s', Inl e) \<or> (\<exists>s x. m = (s, Inr x) \<and> f x s = (s', Inl e))"
  by (cases m; cases "snd m") auto

lemma each_append:
  "each body (xs @ ys) s = and_then (each body xs s) (\<lambda>_. each body ys)"
  by (induction xs arbitrary: s) (auto split: prod.split sum.split)

lemma each_snoc:
  "each body (xs @ [x]) s = (t, Inr ()) \<longleftrightarrow> (\<exists>u. each body xs s = (u, Inr ()) \<and> body x u = (t, Inr ()))"
proof -
  have "each body [x] u = (t, Inr ()) \<longleftrightarrow> body x u = (t, Inr ())" for u
    by (cases "body x u"; cases "snd (body x u)") auto
  then show ?thesis by (simp add: each_append and_then_Inr del: each.simps)
qed

text \<open>The Hoare rule for such a loop: an invariant over the elements already processed.\<close>

lemma each_invariant:
  assumes "each body xs s = (s', Inr ())" and "P [] s"
    and "\<And>ys x t t'. \<lbrakk>P ys t; body x t = (t', Inr ()); x \<in> set xs\<rbrakk> \<Longrightarrow> P (ys @ [x]) t'"
  shows "P xs s'"
proof -
  have "P (ys @ xs) s'" if "P ys s" for ys
    using assms(1,3) that
  proof (induction xs arbitrary: s ys)
    case Nil
    then show ?case by simp
  next
    case (Cons x xs)
    from Cons.prems(1) obtain t where t: "body x s = (t, Inr ())" "each body xs t = (s', Inr ())"
      by (auto split: prod.splits sum.splits)
    have "P (ys @ [x]) t" using Cons.prems(2) [OF Cons.prems(3) t(1)] by simp
    from Cons.IH [OF t(2) _ this] Cons.prems(2) show ?case by simp
  qed
  from this [of "[]"] assms(2) show ?thesis by simp
qed

lemma each_preserves:
  assumes "\<And>x t t' r. body x t = (t', r) \<Longrightarrow> f t' = f t" and "each body xs s = (s', r)"
  shows "f s' = f s"
  using assms(2)
proof (induction xs arbitrary: s)
  case Nil
  then show ?case by simp
next
  case (Cons x xs)
  obtain u q where u: "body x s = (u, q)" by fastforce
  from assms(1) [OF this] Cons show ?case by (cases q) (auto simp: u)
qed

section \<open>Dictionaries\<close>

type_synonym ('k, 'v) dict = "('k \<times> 'v) list"

definition has_key :: "('k, 'v) dict \<Rightarrow> 'k \<Rightarrow> bool" where
  "has_key d k \<longleftrightarrow> map_of d k \<noteq> None"

definition dict_ok :: "('k, 'v) dict \<Rightarrow> bool" where
  "dict_ok d \<longleftrightarrow> distinct (map fst d)"

lemma has_key_iff [py_dict]: "has_key d k \<longleftrightarrow> k \<in> fst ` set d"
  by (simp add: has_key_def map_of_eq_None_iff)

lemma has_key_simps [simp]:
  "\<not> has_key [] k"
  "has_key ((k', v) # d) k \<longleftrightarrow> k = k' \<or> has_key d k"
  by (auto simp: has_key_def)

lemma has_key_update [simp, py_dict]: "has_key (AList.update k v d) k' \<longleftrightarrow> k' = k \<or> has_key d k'"
  by (simp add: has_key_def update_conv')

lemma has_key_delete [simp, py_dict]: "has_key (AList.delete k d) k' \<longleftrightarrow> k' \<noteq> k \<and> has_key d k'"
  by (simp add: has_key_def delete_conv')

lemma has_key_Some: "has_key d k \<longleftrightarrow> (\<exists>v. map_of d k = Some v)"
  by (simp add: has_key_def)

lemma not_has_key_None [py_dict]: "\<not> has_key d k \<Longrightarrow> map_of d k = None"
  by (simp add: has_key_def)

lemma dict_ok_Nil [simp]: "dict_ok []"
  by (simp add: dict_ok_def)

lemma dict_ok_update [simp, intro]: "dict_ok d \<Longrightarrow> dict_ok (AList.update k v d)"
  by (simp add: dict_ok_def distinct_update)

lemma dict_ok_delete [simp, intro]: "dict_ok d \<Longrightarrow> dict_ok (AList.delete k d)"
  by (simp add: dict_ok_def distinct_delete)

lemma map_of_update [simp, py_dict]:
  "map_of (AList.update k v d) k' = (if k' = k then Some v else map_of d k')"
  by (simp add: update_conv')

lemma map_of_delete_dict [simp, py_dict]:
  "map_of (AList.delete k d) k' = (if k' = k then None else map_of d k')"
  by (simp add: delete_conv')

text \<open>A new key goes to the end, an old key keeps its position.\<close>

lemma keys_update [py_dict]:
  "map fst (AList.update k v d) = (if has_key d k then map fst d else map fst d @ [k])"
  by (simp add: update_keys has_key_iff)

lemma update_new: "\<not> has_key d k \<Longrightarrow> AList.update k v d = d @ [(k, v)]"
  by (induction d) auto

lemma keys_delete [py_dict]: "map fst (AList.delete k d) = filter (\<lambda>k'. k' \<noteq> k) (map fst d)"
  by (simp add: delete_keys removeAll_filter_not_eq) (metis)

lemma set_keys_delete [simp]: "fst ` set (AList.delete k d) = fst ` set d - {k}"
  by (metis keys_delete list.set_map set_minus_filter_out)

lemma map_of_in_set: "dict_ok d \<Longrightarrow> map_of d k = Some v \<longleftrightarrow> (k, v) \<in> set d"
  by (simp add: dict_ok_def)

lemma length_update:
  "length (AList.update k v d) = (if has_key d k then length d else Suc (length d))"
  by (metis keys_update length_append_singleton length_map)

section \<open>defaultdict(list)\<close>

definition dd_get :: "('k, 'v list) dict \<Rightarrow> 'k \<Rightarrow> 'v list" where
  "dd_get d k = (case map_of d k of None \<Rightarrow> [] | Some vs \<Rightarrow> vs)"

definition dd_touch :: "'k \<Rightarrow> ('k, 'v list) dict \<Rightarrow> ('k, 'v list) dict" where
  "dd_touch k d = (if has_key d k then d else AList.update k [] d)"

definition dd_append :: "'k \<Rightarrow> 'v \<Rightarrow> ('k, 'v list) dict \<Rightarrow> ('k, 'v list) dict" where
  "dd_append k x d = AList.update k (dd_get d k @ [x]) d"

lemma dd_get_Nil [simp]: "dd_get [] k = []"
  by (simp add: dd_get_def)

lemma dd_get_update [simp, py_dict]:
  "dd_get (AList.update k vs d) k' = (if k' = k then vs else dd_get d k')"
  by (simp add: dd_get_def)

lemma dd_get_touch [simp, py_dict]: "dd_get (dd_touch k d) k' = dd_get d k'"
  by (auto simp: dd_touch_def dd_get_def has_key_def)

lemma dd_get_append [simp, py_dict]:
  "dd_get (dd_append k x d) k' = (if k' = k then dd_get d k @ [x] else dd_get d k')"
  by (simp add: dd_append_def)

lemma has_key_touch [simp]: "has_key (dd_touch k d) k' \<longleftrightarrow> k' = k \<or> has_key d k'"
  by (auto simp: dd_touch_def)

lemma has_key_dd_append [simp]: "has_key (dd_append k x d) k' \<longleftrightarrow> k' = k \<or> has_key d k'"
  by (simp add: dd_append_def)

lemma dict_ok_touch [simp, intro]: "dict_ok d \<Longrightarrow> dict_ok (dd_touch k d)"
  by (simp add: dd_touch_def)

lemma dict_ok_dd_append [simp, intro]: "dict_ok d \<Longrightarrow> dict_ok (dd_append k x d)"
  by (simp add: dd_append_def)

lemma dd_get_not_key: "\<not> has_key d k \<Longrightarrow> dd_get d k = []"
  by (simp add: dd_get_def has_key_def)

section \<open>Values of any type\<close>

text \<open>
  Values that the code passes along without looking at their type. \<open>PObject\<close> is an instance of
  a class that \<open>json\<close> cannot serialise. The text \<open>json.dumps(v)\<close> is represented by the value it
  denotes (\<open>JText v\<close>), any other text or bytes by \<open>JOther\<close>; \<open>json.loads\<close> reads the former.
\<close>

datatype pyval =
    PNone | PBool bool | PInt int | PFloat real | PStr string
  | PList "pyval list" | PDict "(string \<times> pyval) list" | PObject nat

fun json_ok :: "pyval \<Rightarrow> bool" where
  "json_ok (PList xs) = list_all json_ok xs"
| "json_ok (PDict d) = list_all (\<lambda>(_, v). json_ok v) d"
| "json_ok (PObject _) = False"
| "json_ok _ = True"

datatype json_text = JText pyval | JOther string

definition json_dumps :: "pyval \<Rightarrow> json_text option" where
  "json_dumps v = (if json_ok v then Some (JText v) else None)"

definition json_loads :: "json_text \<Rightarrow> pyval option" where
  "json_loads t = (case t of JText v \<Rightarrow> Some v | JOther _ \<Rightarrow> None)"

lemma json_roundtrip: "json_dumps v = Some t \<Longrightarrow> json_loads t = Some v"
  by (auto simp: json_dumps_def json_loads_def split: if_splits)

text \<open>\<open>bool(v)\<close>\<close>

fun py_truthy :: "pyval \<Rightarrow> bool" where
  "py_truthy PNone = False"
| "py_truthy (PBool b) = b"
| "py_truthy (PInt i) = (i \<noteq> 0)"
| "py_truthy (PFloat x) = (x \<noteq> 0)"
| "py_truthy (PStr s) = (s \<noteq> [])"
| "py_truthy (PList xs) = (xs \<noteq> [])"
| "py_truthy (PDict d) = (d \<noteq> [])"
| "py_truthy (PObject _) = True"

section \<open>Lists and strings\<close>

text \<open>\<open>sep.join(parts)\<close>, \<open>s.startswith(p)\<close> and \<open>s.endswith(p)\<close>.\<close>

fun join :: "string \<Rightarrow> string list \<Rightarrow> string" where
  "join sep [] = ''''"
| "join sep [x] = x"
| "join sep (x # y # ys) = x @ sep @ join sep (y # ys)"

definition starts_with :: "string \<Rightarrow> string \<Rightarrow> bool" where
  "starts_with s p \<longleftrightarrow> take (length p) s = p"

definition ends_with :: "string \<Rightarrow> string \<Rightarrow> bool" where
  "ends_with s p \<longleftrightarrow> length p \<le> length s \<and> drop (length s - length p) s = p"

lemma starts_with_iff: "starts_with s p \<longleftrightarrow> (\<exists>t. s = p @ t)"
  unfolding starts_with_def by (metis append_eq_conv_conj append_take_drop_id)

lemma ends_with_iff: "ends_with s p \<longleftrightarrow> (\<exists>t. s = t @ p)"
proof
  assume "ends_with s p"
  then have "s = take (length s - length p) s @ p"
    unfolding ends_with_def by (metis append_take_drop_id)
  then show "\<exists>t. s = t @ p" ..
next
  assume "\<exists>t. s = t @ p"
  then show "ends_with s p" by (auto simp: ends_with_def)
qed

text \<open>Whether \<open>t\<close> occurs in \<open>s\<close>.\<close>

fun occurs_in :: "string \<Rightarrow> string \<Rightarrow> bool" where
  "occurs_in t [] \<longleftrightarrow> t = []"
| "occurs_in t (c # s) \<longleftrightarrow> starts_with (c # s) t \<or> occurs_in t s"

lemma find_in:
  assumes "find P xs = Some x" shows "x \<in> set xs \<and> P x"
  using assms by (auto simp: find_Some_iff)

text \<open>\<open>if x not in xs: xs.append(x)\<close>\<close>

definition add_once :: "'a \<Rightarrow> 'a list \<Rightarrow> 'a list" where
  "add_once x xs = (if x \<in> set xs then xs else xs @ [x])"

lemma set_add_once [simp]: "set (add_once x xs) = insert x (set xs)"
  by (auto simp: add_once_def)

lemma distinct_add_once [simp]: "distinct (add_once x xs) \<longleftrightarrow> distinct xs"
  by (simp add: add_once_def)

lemma add_once_not_Nil [simp]: "add_once x xs \<noteq> []"
  by (auto simp: add_once_def)

section \<open>Upper and lower case\<close>

text \<open>\<open>s.lower()\<close> and \<open>s.upper()\<close> of ASCII text, character by character.\<close>

definition is_upper :: "char \<Rightarrow> bool" where
  "is_upper c \<longleftrightarrow> (let n = (of_char c :: nat) in 65 \<le> n \<and> n \<le> 90)"

definition is_lower :: "char \<Rightarrow> bool" where
  "is_lower c \<longleftrightarrow> (let n = (of_char c :: nat) in 97 \<le> n \<and> n \<le> 122)"

definition to_lower :: "char \<Rightarrow> char" where
  "to_lower c = (if is_upper c then char_of (of_char c + 32 :: nat) else c)"

definition to_upper :: "char \<Rightarrow> char" where
  "to_upper c = (if is_lower c then char_of (of_char c - 32 :: nat) else c)"

section \<open>Numbers as text\<close>

text \<open>\<open>str(n)\<close> of an integer.\<close>

fun show_nat :: "nat \<Rightarrow> string" where
  "show_nat n =
     (if n < 10 then [char_of (48 + n)] else show_nat (n div 10) @ [char_of (48 + n mod 10)])"

definition show_int :: "int \<Rightarrow> string" where
  "show_int i = (if i < 0 then ''-'' @ show_nat (nat (- i)) else show_nat (nat i))"

declare show_nat.simps [simp del]

end
