(* ===== verification/Errors.thy ===== *)
theory Errors
  imports Prelude Complex_Main
begin

text \<open>
  The exception classes (\<open>common/errors/exceptions.py\<close>), the handler that turns an exception
  into an HTTP response (\<open>common/errors/handlers.py\<close>) and the retry decorator
  (\<open>common/http/retry.py\<close>).

  An exception value carries its class, the text \<open>str(exc)\<close> and the attributes some classes
  add. The classes are the constructors of \<open>exn_class\<close>, with the Python and FastAPI classes
  the code raises or catches beside the program's own; \<open>base\<close> is the class statement's base.
  Message texts that are Korean in the source are given as an English ASCII gist with the same
  interpolated values in the same places.
\<close>

datatype exn_class =
    BaseException | KeyboardInterrupt | PyException
  | ValueError | TypeError | KeyError | AttributeError | NotImplementedError
  | RuntimeError | RecursionError | TimeoutError | UnicodeError | OtherError
  | HTTPException | JWTError | RequestValidationError | PydanticValidationError | ParseError
  | QMTLError | NodeFaultError | DataConsistencyError | DatabaseError | ValidationError
  | NotFoundError | AuthError | HTTPError | StrategyNotFoundError | PipelineExecutionError
  | StatusServiceError | CyclicDependencyError | RegistryServiceError | RegistryClientError
  | RegistryConnectionError

fun base :: "exn_class \<Rightarrow> exn_class option" where
  "base BaseException = None"
| "base KeyboardInterrupt = Some BaseException"
| "base PyException = Some BaseException"
| "base RecursionError = Some RuntimeError"
| "base NotImplementedError = Some RuntimeError"
| "base UnicodeError = Some ValueError"
| "base PydanticValidationError = Some ValueError"
| "base NodeFaultError = Some QMTLError"
| "base DataConsistencyError = Some QMTLError"
| "base DatabaseError = Some QMTLError"
| "base ValidationError = Some QMTLError"
| "base NotFoundError = Some QMTLError"
| "base AuthError = Some QMTLError"
| "base HTTPError = Some QMTLError"
| "base StrategyNotFoundError = Some NotFoundError"
| "base PipelineExecutionError = Some QMTLError"
| "base StatusServiceError = Some QMTLError"
| "base CyclicDependencyError = Some QMTLError"
| "base RegistryServiceError = Some QMTLError"
| "base RegistryClientError = Some QMTLError"
| "base RegistryConnectionError = Some RegistryClientError"
| "base _ = Some PyException"

text \<open>The distance to \<open>BaseException\<close>, which makes the walk up the bases terminate.\<close>

fun base_depth :: "exn_class \<Rightarrow> nat" where
  "base_depth BaseException = 0"
| "base_depth KeyboardInterrupt = 1"
| "base_depth PyException = 1"
| "base_depth RecursionError = 3"
| "base_depth NotImplementedError = 3"
| "base_depth UnicodeError = 3"
| "base_depth PydanticValidationError = 3"
| "base_depth StrategyNotFoundError = 4"
| "base_depth RegistryConnectionError = 4"
| "base_depth c = (if base c = Some QMTLError then 3 else 2)"

lemma base_depth_decreases: "base c = Some b \<Longrightarrow> base_depth b < base_depth c"
  by (cases c) auto

function mro :: "exn_class \<Rightarrow> exn_class list" where
  "mro c = c # (case base c of None \<Rightarrow> [] | Some b \<Rightarrow> mro b)"
  by pat_completeness auto
termination
  by (relation "measure base_depth") (auto simp: base_depth_decreases)

declare mro.simps [simp del]

definition isinstance_of :: "exn_class \<Rightarrow> exn_class \<Rightarrow> bool" where
  "isinstance_of c k \<longleftrightarrow> k \<in> set (mro c)"

lemma isinstance_of_rec:
  "isinstance_of c k \<longleftrightarrow> k = c \<or> (\<exists>b. base c = Some b \<and> isinstance_of b k)"
  unfolding isinstance_of_def by (subst mro.simps) (auto split: option.splits)

lemma isinstance_of_refl [simp]: "isinstance_of c c"
  by (subst isinstance_of_rec) simp

lemma isinstance_of_trans: "isinstance_of c k \<Longrightarrow> isinstance_of k l \<Longrightarrow> isinstance_of c l"
proof (induction c rule: mro.induct)
  case (1 c)
  then show ?case by (metis isinstance_of_rec)
qed

lemma isinstance_of_depth: "isinstance_of c k \<Longrightarrow> k = c \<or> base_depth k < base_depth c"
proof (induction c rule: mro.induct)
  case (1 c)
  then show ?case using base_depth_decreases by (metis isinstance_of_rec less_trans)
qed

text \<open>Subclassing is a partial order, and every class is below \<open>BaseException\<close>.\<close>

instantiation exn_class :: order_top
begin

definition less_eq_exn_class :: "exn_class \<Rightarrow> exn_class \<Rightarrow> bool" where
  "c \<le> k \<longleftrightarrow> isinstance_of c k"

definition less_exn_class :: "exn_class \<Rightarrow> exn_class \<Rightarrow> bool" where
  "c < k \<longleftrightarrow> isinstance_of c k \<and> c \<noteq> k"

definition top_exn_class :: exn_class where
  "top_exn_class = BaseException"

instance
proof
  fix c k l :: exn_class
  have anti: "isinstance_of c k \<Longrightarrow> isinstance_of k c \<Longrightarrow> c = k"
    using isinstance_of_depth [of c k] isinstance_of_depth [of k c] by auto
  then show "c < k \<longleftrightarrow> c \<le> k \<and> \<not> k \<le> c" by (auto simp: less_eq_exn_class_def less_exn_class_def)
  show "c \<le> k \<Longrightarrow> k \<le> c \<Longrightarrow> c = k" using anti by (simp add: less_eq_exn_class_def)
  show "c \<le> k \<Longrightarrow> k \<le> l \<Longrightarrow> c \<le> l" unfolding less_eq_exn_class_def by (rule isinstance_of_trans)
  show "c \<le> c" by (simp add: less_eq_exn_class_def)
  show "c \<le> top"
    by (cases c) (simp_all add: less_eq_exn_class_def top_exn_class_def isinstance_of_def mro.simps)
qed

end

record exn =
  ex_class :: exn_class
  ex_msg :: string
  ex_status :: "int option"
  ex_node :: "string option"
  ex_code :: "string option"

definition exn_of :: "exn_class \<Rightarrow> string \<Rightarrow> exn" where
  "exn_of c msg = \<lparr>ex_class = c, ex_msg = msg, ex_status = None, ex_node = None, ex_code = None\<rparr>"

lemma exn_of_simps [simp]:
  "ex_class (exn_of c m) = c" "ex_msg (exn_of c m) = m" "ex_status (exn_of c m) = None"
  by (simp_all add: exn_of_def)

lemma exn_of_eq [simp]: "exn_of c m = exn_of c' m' \<longleftrightarrow> c = c' \<and> m = m'"
  by (auto simp: exn_of_def)

type_synonym 'a res = "exn + 'a"

abbreviation raises :: "exn_class \<Rightarrow> string \<Rightarrow> 'a res" where
  "raises c m \<equiv> Inl (exn_of c m)"

text \<open>\<open>except Exception\<close> catches everything but \<open>KeyboardInterrupt\<close> and its like.\<close>

definition caught :: "exn \<Rightarrow> bool" where
  "caught e \<longleftrightarrow> isinstance_of (ex_class e) PyException"

lemma caught_iff: "caught e \<longleftrightarrow> ex_class e \<notin> {BaseException, KeyboardInterrupt}"
  unfolding caught_def by (cases "ex_class e") (auto simp: isinstance_of_def mro.simps)

section \<open>The constructors with attributes\<close>

text \<open>\<open>x or y\<close> on an optional string: the empty string counts as missing.\<close>

definition or_str :: "string option \<Rightarrow> string \<Rightarrow> string" where
  "or_str s d = (case s of None \<Rightarrow> d | Some [] \<Rightarrow> d | Some (c # cs) \<Rightarrow> c # cs)"

definition node_fault_error :: "string \<Rightarrow> string option \<Rightarrow> string option \<Rightarrow> exn" where
  "node_fault_error node_id msg code =
     \<lparr>ex_class = NodeFaultError, ex_msg = or_str msg (''Node fault detected: '' @ node_id),
      ex_status = None, ex_node = Some node_id, ex_code = code\<rparr>"

definition data_consistency_error :: "string option \<Rightarrow> string option \<Rightarrow> exn" where
  "data_consistency_error node_id msg =
     \<lparr>ex_class = DataConsistencyError,
      ex_msg = or_str msg
        (case node_id of
           None \<Rightarrow> ''Data consistency error''
         | Some [] \<Rightarrow> ''Data consistency error''
         | Some n \<Rightarrow> ''Data consistency error on node: '' @ n),
      ex_status = None, ex_node = node_id, ex_code = None\<rparr>"

definition http_error :: "string option \<Rightarrow> int \<Rightarrow> exn" where
  "http_error detail status =
     \<lparr>ex_class = HTTPError, ex_msg = or_str detail ''Internal Server Error'',
      ex_status = Some status, ex_node = None, ex_code = None\<rparr>"

text \<open>FastAPI's \<open>HTTPException(status_code, detail)\<close>.\<close>

definition http_exception :: "int \<Rightarrow> string \<Rightarrow> exn" where
  "http_exception status detail =
     \<lparr>ex_class = HTTPException, ex_msg = detail, ex_status = Some status, ex_node = None,
      ex_code = None\<rparr>"

lemma http_exception_simps [simp]:
  "ex_class (http_exception c d) = HTTPException" "ex_status (http_exception c d) = Some c"
  "ex_msg (http_exception c d) = d"
  by (simp_all add: http_exception_def)

section \<open>The HTTP handler of the program's exceptions\<close>

record json_response =
  status_code :: int
  detail :: string

definition qmtl_exception_handler :: "exn \<Rightarrow> json_response" where
  "qmtl_exception_handler exc =
     (if isinstance_of (ex_class exc) HTTPError then
        \<lparr>status_code = (case ex_status exc of Some c \<Rightarrow> c | None \<Rightarrow> 500), detail = ex_msg exc\<rparr>
      else if isinstance_of (ex_class exc) ValidationError then
        \<lparr>status_code = 422, detail = ex_msg exc\<rparr>
      else if isinstance_of (ex_class exc) NotFoundError then
        \<lparr>status_code = 404, detail = ex_msg exc\<rparr>
      else if isinstance_of (ex_class exc) AuthError then
        \<lparr>status_code = 401, detail = ex_msg exc\<rparr>
      else if isinstance_of (ex_class exc) DatabaseError then
        \<lparr>status_code = 500, detail = ex_msg exc\<rparr>
      else \<lparr>status_code = 500, detail = ex_msg exc\<rparr>)"

text \<open>
  The application with both handlers registered: a response for every exception of the
  program and for \<open>HTTPException\<close>, none for the others, which FastAPI passes on.
\<close>

definition registered_handlers :: "exn \<Rightarrow> json_response option" where
  "registered_handlers exc =
     (if isinstance_of (ex_class exc) QMTLError then Some (qmtl_exception_handler exc)
      else if isinstance_of (ex_class exc) HTTPException then
        Some \<lparr>status_code = (case ex_status exc of Some c \<Rightarrow> c | None \<Rightarrow> 500), detail = ex_msg exc\<rparr>
      else None)"

lemma handler_status:
  "status_code (qmtl_exception_handler exc) =
     (case ex_class exc of
        HTTPError \<Rightarrow> (case ex_status exc of Some c \<Rightarrow> c | None \<Rightarrow> 500)
      | ValidationError \<Rightarrow> 422 | NotFoundError \<Rightarrow> 404 | StrategyNotFoundError \<Rightarrow> 404
      | AuthError \<Rightarrow> 401 | _ \<Rightarrow> 500)"
  by (cases "ex_class exc")
    (simp_all add: qmtl_exception_handler_def isinstance_of_def mro.simps)

lemma handler_detail: "detail (qmtl_exception_handler exc) = ex_msg exc"
  by (simp add: qmtl_exception_handler_def)

section \<open>Retrying a call\<close>

text \<open>
  \<open>with_retry\<close> calls a function of the environment up to \<open>max_retries\<close> times. The result is
  the environment afterwards, the sleeps requested, and the outcome: \<open>Inr (Some x)\<close> for a
  returned value, \<open>Inr None\<close> for the \<open>None\<close> the wrapper returns when the loop body never runs.
\<close>

type_synonym ('s, 'a) call = "'s \<Rightarrow> 's \<times> 'a res"

fun retry_loop :: "('s, 'a) call \<Rightarrow> real \<Rightarrow> nat \<Rightarrow> nat list \<Rightarrow> 's \<Rightarrow> 's \<times> real list \<times> 'a option res" where
  "retry_loop func backoff n [] s = (s, [], Inr None)"
| "retry_loop func backoff n (a # as) s =
     (case func s of
        (s', Inr x) \<Rightarrow> (s', [], Inr (Some x))
      | (s', Inl e) \<Rightarrow>
          (if \<not> caught e then (s', [], Inl e)
           else if a + 1 = n then (s', [], Inl e)
           else (case retry_loop func backoff n as s' of
                   (s'', ts, r) \<Rightarrow> (s'', backoff * 2 ^ a # ts, r))))"

definition with_retry :: "('s, 'a) call \<Rightarrow> nat \<Rightarrow> real \<Rightarrow> 's \<Rightarrow> 's \<times> real list \<times> 'a option res" where
  "with_retry func max_retries backoff s = retry_loop func backoff max_retries [0..<max_retries] s"

text \<open>The number of calls made before the outcome is known is one more than the sleeps.\<close>

fun calls :: "('s, 'a) call \<Rightarrow> nat \<Rightarrow> 's \<Rightarrow> 's" where
  "calls func 0 s = s"
| "calls func (Suc n) s = calls func n (fst (func s))"

lemma retry_loop_spec:
  assumes "retry_loop func backoff n [m..<n] s = (s', ts, r)" "m < n"
  shows "length ts < n - m \<and> s' = calls func (Suc (length ts)) s
    \<and> ts = map (\<lambda>i. backoff * 2 ^ i) [m..<m + length ts]
    \<and> (\<forall>i < length ts. \<exists>e. snd (func (calls func i s)) = Inl e \<and> caught e)
    \<and> (case r of
         Inr (Some x) \<Rightarrow> snd (func (calls func (length ts) s)) = Inr x
       | Inr None \<Rightarrow> False
       | Inl e \<Rightarrow> snd (func (calls func (length ts) s)) = Inl e
           \<and> (\<not> caught e \<or> length ts = n - m - 1))"
  using assms
proof (induction "n - m" arbitrary: m s ts)
  case 0
  then show ?case by simp
next
  case (Suc k)
  then have upt: "[m..<n] = m # [Suc m..<n]" by (simp add: upt_conv_Cons)
  obtain t v where v: "func s = (t, v)" by fastforce
  show ?case
  proof (cases "(\<exists>x. v = Inr x) \<or> (\<exists>e. v = Inl e \<and> (\<not> caught e \<or> Suc m = n))")
    case True
    then consider x where "v = Inr x" | e where "v = Inl e" "\<not> caught e"
      | e where "v = Inl e" "caught e" "Suc m = n" by blast
    then show ?thesis by cases (use Suc.prems upt v in auto)
  next
    case False
    then obtain e where e: "v = Inl e" "caught e" "Suc m \<noteq> n" by (cases v) auto
    then obtain us where us: "retry_loop func backoff n [Suc m..<n] t = (s', us, r)"
      and ts: "ts = backoff * 2 ^ m # us"
      using Suc.prems(1) upt v by (auto split: prod.splits)
    have IH: "length us < n - Suc m \<and> s' = calls func (Suc (length us)) t
      \<and> us = map (\<lambda>i. backoff * 2 ^ i) [Suc m..<Suc m + length us]
      \<and> (\<forall>i < length us. \<exists>e. snd (func (calls func i t)) = Inl e \<and> caught e)
      \<and> (case r of
           Inr (Some x) \<Rightarrow> snd (func (calls func (length us) t)) = Inr x
         | Inr None \<Rightarrow> False
         | Inl e \<Rightarrow> snd (func (calls func (length us) t)) = Inl e
             \<and> (\<not> caught e \<or> length us = n - Suc m - 1))"
      using Suc.hyps(1) [OF _ us] Suc.hyps(2) Suc.prems(2) e(3) by simp
    have first: "\<forall>i < Suc (length us). \<exists>e. snd (func (calls func i s)) = Inl e \<and> caught e"
      using IH e v by (auto simp: less_Suc_eq_0_disj)
    have map_us: "backoff * 2 ^ m # us = map (\<lambda>i. backoff * 2 ^ i) [m..<m + Suc (length us)]"
    proof -
      have "[m..<m + Suc (length us)] = m # [Suc m..<Suc m + length us]"
        using upt_conv_Cons [of m "m + Suc (length us)"] by simp
      then show ?thesis using IH by (simp only: list.map)
    qed
    from IH first map_us ts v show ?thesis
      by (auto split: sum.splits option.splits)
  qed
qed

text \<open>
  Property of the retry decorator, in the order the wrapper decides: with at least one
  attempt allowed it makes between one and \<open>max_retries\<close> calls, every call but the last one
  failed with an \<open>Exception\<close>, the outcome is the last call's (so a success stops the loop and
  the last failure is re-raised, never swallowed), and before attempt \<open>i + 1\<close> it sleeps
  \<open>backoff * 2 ^ i\<close>.
\<close>

theorem with_retry_spec:
  assumes "with_retry func max_retries backoff s = (s', sleeps, r)" "0 < max_retries"
  shows "length sleeps < max_retries \<and> s' = calls func (Suc (length sleeps)) s
    \<and> sleeps = map (\<lambda>i. backoff * 2 ^ i) [0..<length sleeps]
    \<and> (\<forall>i < length sleeps. \<exists>e. snd (func (calls func i s)) = Inl e \<and> caught e)
    \<and> (case r of
         Inr (Some x) \<Rightarrow> snd (func (calls func (length sleeps) s)) = Inr x
       | Inr None \<Rightarrow> False
       | Inl e \<Rightarrow> snd (func (calls func (length sleeps) s)) = Inl e
           \<and> (\<not> caught e \<or> length sleeps = max_retries - 1))"
  using retry_loop_spec [of func backoff max_retries 0 s s' sleeps r] assms
  by (cases r) (auto simp: with_retry_def split: option.splits)

text \<open>A call that fails twice and then returns.\<close>

definition flaky :: "(nat, nat) call" where
  "flaky s = (s + 1, if s < 2 then raises ValueError ''boom'' else Inr s)"

lemma flaky_run: "with_retry flaky 3 (1/2) 0 = (3, [1/2, 1], Inr (Some 2))"
  by (simp add: with_retry_def flaky_def upt_rec caught_iff)

theorem with_retry_spec_witness:
  "(3::nat) = calls flaky 3 0 \<and> [1/2, 1::real] = map (\<lambda>i. (1/2) * 2 ^ i) [0..<2]
    \<and> snd (flaky (calls flaky 2 0)) = Inr 2"
  using with_retry_spec [OF flaky_run] by (simp add: flaky_def upt_rec eval_nat_numeral)

text \<open>Iterating over a value: the items of a list, the characters of a string, the keys of a dict.\<close>

fun elements :: "pyval \<Rightarrow> pyval list res" where
  "elements (PList vs) = Inr vs"
| "elements (PStr s) = Inr (map (\<lambda>c. PStr [c]) s)"
| "elements (PDict d) = Inr (map (PStr \<circ> fst) d)"
| "elements v = raises TypeError ''object is not iterable''"

end
