(* ===== verification/Graphs.thy ===== *)
theory Graphs
  imports Prelude
begin

text \<open>
  Dependency graphs and depth-first search, independent of any one component.

  The program topologically sorts a dependency graph in four places
  (\<open>DAGService.verify_acyclic\<close>, \<open>DAGService.get_topological_order\<close>,
  \<open>GraphBuilder.get_topological_sort_result\<close> and \<open>Pipeline._topological_sort\<close>), three of
  them by a recursive depth-first search with its own bookkeeping. Here are the notion of a
  topological order they are all measured against, and the locales \<open>dfs_search\<close> and
  \<open>dfs_topo\<close>: what a recursive search has to satisfy (how its bookkeeping represents the
  nodes on the current path and the finished nodes), with soundness, cycle detection and
  completeness proved once. The components interpret them on their own definitions.
\<close>

section \<open>Topological orders\<close>

definition dep_edges :: "('a \<Rightarrow> 'a list) \<Rightarrow> 'a set \<Rightarrow> ('a \<times> 'a) set" where
  "dep_edges deps V = {(n, d). n \<in> V \<and> d \<in> set (deps n)}"

lemma dep_edges_iff [simp]: "(n, d) \<in> dep_edges deps V \<longleftrightarrow> n \<in> V \<and> d \<in> set (deps n)"
  by (simp add: dep_edges_def)

lemma dep_edges_mono: "V \<subseteq> W \<Longrightarrow> dep_edges deps V \<subseteq> dep_edges deps W"
  by (auto simp: dep_edges_def)

fun topo_from :: "('a \<Rightarrow> 'a list) \<Rightarrow> 'a set \<Rightarrow> 'a list \<Rightarrow> bool" where
  "topo_from deps seen [] = True"
| "topo_from deps seen (n # ns) =
     (n \<notin> seen \<and> set (deps n) \<subseteq> seen \<and> topo_from deps (insert n seen) ns)"

definition topo_order :: "('a \<Rightarrow> 'a list) \<Rightarrow> 'a list \<Rightarrow> bool" where
  "topo_order deps order = topo_from deps {} order"

lemma topo_from_append:
  "topo_from deps S (xs @ ys) \<longleftrightarrow> topo_from deps S xs \<and> topo_from deps (S \<union> set xs) ys"
  by (induction xs arbitrary: S) auto

lemma topo_from_distinct: "topo_from deps S xs \<Longrightarrow> distinct xs \<and> set xs \<inter> S = {}"
  by (induction xs arbitrary: S) auto

lemma topo_order_Nil [simp]: "topo_order deps []"
  by (simp add: topo_order_def)

lemma topo_order_snoc:
  "topo_order deps (xs @ [n]) \<longleftrightarrow> topo_order deps xs \<and> n \<notin> set xs \<and> set (deps n) \<subseteq> set xs"
  by (simp add: topo_order_def topo_from_append)

lemma topo_order_distinct: "topo_order deps xs \<Longrightarrow> distinct xs"
  by (simp add: topo_order_def topo_from_distinct)

text \<open>In a topological order each node comes after everything it depends on.\<close>

lemma topo_order_before:
  "topo_order deps (xs @ n # ys) \<Longrightarrow> set (deps n) \<subseteq> set xs"
  by (simp add: topo_order_def topo_from_append)

lemma topo_order_closed: "topo_order deps xs \<Longrightarrow> n \<in> set xs \<Longrightarrow> set (deps n) \<subseteq> set xs"
  by (fastforce simp: in_set_conv_decomp [of n] dest: topo_order_before)

lemma topo_orderI:
  assumes "distinct order"
    and "\<And>xs n ys. order = xs @ n # ys \<Longrightarrow> set (deps n) \<subseteq> set xs"
  shows "topo_order deps order"
proof -
  have "topo_order deps (take k order)" if "k \<le> length order" for k
    using that
  proof (induction k)
    case 0
    then show ?case by simp
  next
    case (Suc k)
    then have k: "k < length order" by simp
    have "order = take k order @ order ! k # drop (Suc k) order"
      using k by (simp add: id_take_nth_drop)
    then have "set (deps (order ! k)) \<subseteq> set (take k order)" by (rule assms(2))
    moreover have "order ! k \<notin> set (take k order)"
      using assms(1) k by (auto simp: in_set_conv_nth distinct_conv_nth)
    ultimately show ?case
      using Suc k by (simp add: take_Suc_conv_app_nth topo_order_snoc)
  qed
  from this [of "length order"] show ?thesis by simp
qed

lemma acyclic_by_rank:
  fixes f :: "'a \<Rightarrow> nat"
  assumes "\<And>n d. (n, d) \<in> r \<Longrightarrow> f d < f n"
  shows "acyclic r"
proof -
  have "r\<inverse> \<subseteq> measure f" using assms by auto
  then have "wf (r\<inverse>)" by (rule wf_subset [OF wf_measure])
  then show ?thesis by (metis acyclic_converse wf_acyclic)
qed

lemma length_takeWhile_strict: "x \<in> set xs \<Longrightarrow> \<not> P x \<Longrightarrow> length (takeWhile P xs) < length xs"
  by (induction xs) auto

theorem topo_order_acyclic:
  assumes "topo_order deps order"
  shows "acyclic (dep_edges deps (set order))"
proof (rule acyclic_by_rank)
  fix n d
  assume "(n, d) \<in> dep_edges deps (set order)"
  then obtain xs ys where order: "order = xs @ n # ys" and d: "d \<in> set (deps n)"
    by (auto simp: in_set_conv_decomp)
  have before: "set (deps n) \<subseteq> set xs" and "distinct order"
    using topo_order_before [OF assms [unfolded order]] topo_order_distinct [OF assms] by auto
  then have n: "takeWhile (\<lambda>m. m \<noteq> n) order = xs"
    using order by (auto simp: takeWhile_append2 takeWhile_tail)
  have "length (takeWhile (\<lambda>m. m \<noteq> d) xs) < length xs"
    using before d length_takeWhile_strict [of d xs] by auto
  moreover have "takeWhile (\<lambda>m. m \<noteq> d) order = takeWhile (\<lambda>m. m \<noteq> d) xs"
    using before d order by (auto intro!: takeWhile_append1)
  ultimately show "length (takeWhile (\<lambda>m. m \<noteq> d) order) < length (takeWhile (\<lambda>m. m \<noteq> n) order)"
    using n by simp
qed

lemma acyclic_dep_edges_insert:
  assumes "acyclic (dep_edges deps B)" "n \<notin> B" "set (deps n) \<subseteq> B" "\<forall>m \<in> B. set (deps m) \<subseteq> B"
  shows "acyclic (dep_edges deps (insert n B))"
proof -
  let ?E = "dep_edges deps B" and ?F = "dep_edges deps (insert n B)"
  have inside: "(a, b) \<in> ?E\<^sup>+ \<and> b \<in> B" if "(a, b) \<in> ?F\<^sup>+" "a \<in> B" for a b
    using that
  proof (induction rule: trancl_induct)
    case (base y)
    then have "(a, y) \<in> ?E" using assms(2) by auto
    then show ?case using assms(4) by auto
  next
    case (step y z)
    then have "(y, z) \<in> ?E" "y \<in> B" using assms(2) by auto
    then show ?case using step assms(4) by (auto intro: trancl_into_trancl)
  qed
  show ?thesis
  proof (rule acyclicI, intro allI notI)
    fix x
    assume x: "(x, x) \<in> ?F\<^sup>+"
    then obtain y where "(x, y) \<in> ?F" "(y, x) \<in> ?F\<^sup>*" by (meson tranclD)
    then have "y \<in> B" using assms(3,4) by auto
    then have "x \<in> B" using \<open>(y, x) \<in> ?F\<^sup>*\<close> inside by (metis rtranclD)
    with x inside assms(1) show False by (auto simp: acyclic_def)
  qed
qed

section \<open>The contract of a recursive depth-first search\<close>

text \<open>
  \<open>grey s\<close> are the nodes on the current path and \<open>black s\<close> the finished ones; \<open>inv\<close> is the
  representation invariant of the bookkeeping. The first argument of \<open>visit\<close> is the number of
  Python stack frames left: with none left the call raises \<open>RecursionError\<close>. \<open>cyc\<close>
  recognises the exception that reports a cycle, \<open>known\<close> the nodes whose dependencies can be
  looked up at all, and \<open>skip\<close> is the test of the driver loop.
\<close>

locale dfs_search =
  fixes deps :: "'a \<Rightarrow> 'a list"
    and known :: "'a \<Rightarrow> bool"
    and inv :: "'s \<Rightarrow> bool"
    and grey :: "'s \<Rightarrow> 'a set"
    and black :: "'s \<Rightarrow> 'a set"
    and enter :: "'a \<Rightarrow> 's \<Rightarrow> 's"
    and leave :: "'a \<Rightarrow> 's \<Rightarrow> 's"
    and cyc :: "'e \<Rightarrow> bool"
    and skip :: "'a \<Rightarrow> 's \<Rightarrow> bool"
    and visit :: "nat \<Rightarrow> 'a \<Rightarrow> 's \<Rightarrow> ('s, 'e, unit) outcome"
  assumes disjoint: "inv s \<Longrightarrow> grey s \<inter> black s = {}"
    and no_stack: "\<exists>t e. visit 0 n s = (t, Inl e) \<and> \<not> cyc e"
    and on_black: "\<lbrakk>inv s; n \<in> black s\<rbrakk> \<Longrightarrow> visit (Suc k) n s = (s, Inr ())"
    and on_grey: "\<lbrakk>inv s; n \<in> grey s\<rbrakk> \<Longrightarrow> \<exists>t e. visit (Suc k) n s = (t, Inl e) \<and> cyc e"
    and on_unknown: "\<lbrakk>inv s; n \<notin> grey s; n \<notin> black s; \<not> known n\<rbrakk>
      \<Longrightarrow> \<exists>t e. visit (Suc k) n s = (t, Inl e) \<and> \<not> cyc e"
    and on_white: "\<lbrakk>inv s; n \<notin> grey s; n \<notin> black s; known n\<rbrakk>
      \<Longrightarrow> visit (Suc k) n s =
        and_then (each (visit k) (deps n) (enter n s)) (\<lambda>_ t. (leave n t, Inr ()))"
    and enter_inv: "\<lbrakk>inv s; n \<notin> grey s; n \<notin> black s; known n\<rbrakk> \<Longrightarrow>
      inv (enter n s) \<and> grey (enter n s) = insert n (grey s) \<and> black (enter n s) = black s"
    and leave_inv: "\<lbrakk>inv s; n \<in> grey s; known n\<rbrakk> \<Longrightarrow>
      inv (leave n s) \<and> grey (leave n s) = grey s - {n} \<and> black (leave n s) = insert n (black s)"
    and skip_black: "\<lbrakk>inv s; grey s = {}; skip n s\<rbrakk> \<Longrightarrow> n \<in> black s"
begin

text \<open>What a completed call leaves behind.\<close>

definition reach :: "'a set \<Rightarrow> 'a set" where
  "reach N = (dep_edges deps UNIV)\<^sup>* `` N"

definition grown :: "'a set \<Rightarrow> 's \<Rightarrow> 's \<Rightarrow> bool" where
  "grown N s t \<longleftrightarrow> inv t \<and> grey t = grey s \<and> black s \<union> N \<subseteq> black t \<and> black t \<subseteq> black s \<union> reach N \<and>
     (\<forall>m \<in> black t - black s. known m \<and> set (deps m) \<subseteq> black t)"

lemma reach_self: "N \<subseteq> reach N"
  by (auto simp: reach_def)

lemma reach_Un: "reach (M \<union> N) = reach M \<union> reach N"
  by (auto simp: reach_def)

lemma reach_deps: "reach (set (deps n)) \<subseteq> reach {n}"
  by (auto simp: reach_def intro: converse_rtrancl_into_rtrancl)

lemma grown_refl: "inv s \<Longrightarrow> N \<subseteq> black s \<Longrightarrow> grown N s s"
  by (auto simp: grown_def)

lemma grown_trans: "grown M s t \<Longrightarrow> grown N t u \<Longrightarrow> grown (M \<union> N) s u"
  unfolding grown_def reach_Un by blast

lemma each_grown:
  assumes "each f ns s = (t, Inr ())" and "inv s"
    and "\<And>n s t. f n s = (t, Inr ()) \<Longrightarrow> inv s \<Longrightarrow> grown {n} s t"
  shows "grown (set ns) s t"
  using assms(1,2)
proof (induction ns arbitrary: s)
  case Nil
  then show ?case by (simp add: grown_refl)
next
  case (Cons n ns)
  from Cons.prems(1) obtain u where u: "f n s = (u, Inr ())" "each f ns u = (t, Inr ())"
    by (auto split: prod.splits sum.splits)
  have n: "grown {n} s u" using assms(3) [OF u(1) Cons.prems(2)] .
  then have "grown (set ns) u t" using Cons.IH [OF u(2)] by (simp add: grown_def)
  from grown_trans [OF n this] show ?case by simp
qed

lemma visit_grown: "visit k n s = (t, Inr ()) \<Longrightarrow> inv s \<Longrightarrow> grown {n} s t"
proof (induction k arbitrary: n s t)
  case 0
  then show ?case using no_stack [of n s] by auto
next
  case (Suc k)
  consider "n \<in> black s" | "n \<in> grey s" | "n \<notin> black s" "n \<notin> grey s" by blast
  then show ?case
  proof cases
    case 1
    with Suc.prems show ?thesis by (auto simp: on_black intro: grown_refl)
  next
    case 2
    with Suc.prems on_grey [of s n k] show ?thesis by auto
  next
    case 3
    have known: "known n"
      using on_unknown [of s n k] Suc.prems 3 by auto
    note in_s = enter_inv [OF Suc.prems(2) 3(2,1) known]
    from Suc.prems 3 known obtain u where
      u: "each (visit k) (deps n) (enter n s) = (u, Inr ())" and t: "t = leave n u"
      by (auto simp: on_white and_then_Inr)
    have g: "grown (set (deps n)) (enter n s) u"
      using each_grown [OF u] in_s Suc.IH by blast
    then have u': "inv u" "grey u = insert n (grey s)" using in_s by (auto simp: grown_def)
    note out_u = leave_inv [OF u'(1) _ known]
    show ?thesis
      using g in_s u' out_u 3 known t reach_deps [of n] reach_self [of "{n}"] unfolding grown_def by auto
  qed
qed

text \<open>The cycle exception is only raised when there is a cycle.\<close>

abbreviation edges :: "('a \<times> 'a) set" where
  "edges \<equiv> dep_edges deps (Collect known)"

lemma each_cycle:
  assumes "each f ns s = (t, Inl e)" and "inv s"
    and "\<And>n s t. f n s = (t, Inr ()) \<Longrightarrow> inv s \<Longrightarrow> grown {n} s t"
  obtains n u where "n \<in> set ns" "inv u" "grey u = grey s" "black s \<subseteq> black u" "f n u = (t, Inl e)"
  using assms(1,2)
proof (induction ns arbitrary: s thesis)
  case Nil
  then show ?case by simp
next
  case (Cons n ns)
  show ?case
  proof (cases "f n s")
    case (Pair u r)
    show ?thesis
    proof (cases r)
      case (Inl e')
      with Cons.prems Pair show ?thesis by auto
    next
      case (Inr x)
      with Pair Cons.prems have "each f ns u = (t, Inl e)" and g: "grown {n} s u"
        using assms(3) by auto
      with Cons.IH [of u] obtain n' u' where
        "n' \<in> set ns" "inv u'" "grey u' = grey u" "black u \<subseteq> black u'" "f n' u' = (t, Inl e)"
        by (auto simp: grown_def)
      with Cons.prems(1) [of n' u'] g show ?thesis by (auto simp: grown_def)
    qed
  qed
qed

text \<open>The node at which the exception is raised lies on a cycle.\<close>

lemma visit_cycle_at:
  assumes "visit k n s = (t, Inl e)" "cyc e" "inv s" "\<forall>g \<in> grey s. (g, n) \<in> edges\<^sup>+"
  shows "\<exists>j m u. inv u \<and> m \<in> grey u \<and> (m, m) \<in> edges\<^sup>+ \<and> visit (Suc j) m u = (t, Inl e)"
  using assms
proof (induction k arbitrary: n s t)
  case 0
  then show ?case using no_stack [of n s] by auto
next
  case (Suc k)
  consider "n \<in> black s" | "n \<in> grey s" | "n \<notin> black s" "n \<notin> grey s" by blast
  then show ?case
  proof cases
    case 1
    with Suc.prems show ?thesis by (auto simp: on_black)
  next
    case 2
    with Suc.prems show ?thesis by blast
  next
    case 3
    have known: "known n"
      using on_unknown [of s n k] Suc.prems 3 by auto
    note in_s = enter_inv [OF Suc.prems(3) 3(2,1) known]
    from Suc.prems 3 known have "each (visit k) (deps n) (enter n s) = (t, Inl e)"
      by (auto simp: on_white and_then_Inl)
    then obtain d u where d: "d \<in> set (deps n)" "inv u" "grey u = insert n (grey s)"
      "visit k d u = (t, Inl e)"
      using each_cycle [where f = "visit k"] in_s visit_grown by metis
    have "(n, d) \<in> edges" using d known by simp
    then have "\<forall>g \<in> grey u. (g, d) \<in> edges\<^sup>+"
      using Suc.prems(4) d(3) by (auto intro: trancl.trancl_into_trancl)
    then show ?thesis using Suc.IH d Suc.prems(2) by blast
  qed
qed

text \<open>
  With a stack deeper than the number of nodes, all of which can be looked up, a cycle is the
  only reason to fail: each nested call adds a node to the current path.
\<close>

lemma each_enough:
  assumes "each f ns s = (t, Inl e)" and "inv s"
    and "\<And>n s t. f n s = (t, Inr ()) \<Longrightarrow> inv s \<Longrightarrow> grown {n} s t"
    and "\<And>n u t. \<lbrakk>n \<in> set ns; inv u; grey u = grey s; f n u = (t, Inl e)\<rbrakk> \<Longrightarrow> cyc e"
  shows "cyc e"
  using assms(1,2,4)
proof (induction ns arbitrary: s)
  case Nil
  then show ?case by simp
next
  case (Cons n ns)
  show ?case
  proof (cases "f n s")
    case (Pair u r)
    show ?thesis
    proof (cases r)
      case (Inl e')
      with Pair Cons.prems(1) have "f n s = (t, Inl e)" by simp
      from Cons.prems(3) [OF _ Cons.prems(2) refl this] show ?thesis by simp
    next
      case (Inr x)
      with Pair have u: "f n s = (u, Inr ())" by simp
      then have g: "inv u" "grey u = grey s"
        using assms(3) [OF u] Cons.prems(2) by (auto simp: grown_def)
      have "each f ns u = (t, Inl e)" using Cons.prems(1) u by simp
      from this g(1) show ?thesis
      proof (rule Cons.IH)
        fix m v t
        assume "m \<in> set ns" "inv v" "grey v = grey u" "f m v = (t, Inl e)"
        then show "cyc e" using Cons.prems(3) [of m v t] g(2) by simp
      qed
    qed
  qed
qed

lemma visit_enough:
  assumes "finite V" and closed: "\<And>m. m \<in> V \<Longrightarrow> known m \<and> set (deps m) \<subseteq> V"
    and "n \<in> V" "inv s" "grey s \<subseteq> V" "card (V - grey s) < k" "visit k n s = (t, Inl e)"
  shows "cyc e"
  using assms(3-)
proof (induction k arbitrary: n s t)
  case 0
  then show ?case by simp
next
  case (Suc k)
  consider "n \<in> black s" | "n \<in> grey s" | "n \<notin> black s" "n \<notin> grey s" by blast
  then show ?case
  proof cases
    case 1
    with Suc.prems show ?thesis by (auto simp: on_black)
  next
    case 2
    with Suc.prems on_grey [of s n k] show ?thesis by auto
  next
    case 3
    have known: "known n" using closed Suc.prems(1) by blast
    note in_s = enter_inv [OF Suc.prems(2) 3(2,1) known]
    have less: "card (V - insert n (grey s)) < k"
    proof -
      have "V - insert n (grey s) = (V - grey s) - {n}" by auto
      then have "card (V - insert n (grey s)) = card (V - grey s) - 1"
        using Suc.prems(1) 3(2) by (simp add: assms(1))
      moreover have "0 < card (V - grey s)"
        using Suc.prems(1) 3(2) assms(1) by (auto simp: card_gt_0_iff)
      ultimately show ?thesis using Suc.prems(4) by linarith
    qed
    have loop: "each (visit k) (deps n) (enter n s) = (t, Inl e)"
      using Suc.prems(5) on_white [OF Suc.prems(2) 3(2,1) known, of k] by (auto simp: and_then_Inl)
    show ?thesis
    proof (rule each_enough [OF loop])
      show "inv (enter n s)" using in_s by blast
      show "\<And>n s t. visit k n s = (t, Inr ()) \<Longrightarrow> inv s \<Longrightarrow> grown {n} s t" by (rule visit_grown)
      fix d u t
      assume d: "d \<in> set (deps n)" "inv u" "grey u = grey (enter n s)" "visit k d u = (t, Inl e)"
      have g: "grey u = insert n (grey s)" using d(3) in_s by simp
      show "cyc e"
      proof (rule Suc.IH [OF _ d(2) _ _ d(4)])
        show "d \<in> V" using closed [OF Suc.prems(1)] d(1) by blast
        show "grey u \<subseteq> V" using g Suc.prems(1,3) by simp
        show "card (V - grey u) < k" using g less by simp
      qed
    qed
  qed
qed

text \<open>The driver loop: \<open>for n in nodes: if not done: visit(n)\<close>.\<close>

definition drive :: "nat \<Rightarrow> 'a \<Rightarrow> 's \<Rightarrow> ('s, 'e, unit) outcome" where
  "drive k n s = (if skip n s then (s, Inr ()) else visit k n s)"

lemma drive_grown:
  assumes "each (drive k) ns s = (t, Inr ())" "inv s" "grey s = {}"
  shows "grown (set ns) s t"
  using assms
proof (induction ns arbitrary: s)
  case Nil
  then show ?case by (simp add: grown_refl)
next
  case (Cons n ns)
  from Cons.prems(1) obtain u where u: "drive k n s = (u, Inr ())" "each (drive k) ns u = (t, Inr ())"
    by (auto split: prod.splits sum.splits)
  have n: "grown {n} s u"
    using u(1) Cons.prems(2,3) visit_grown [of k n s u] skip_black [of s n]
    by (auto simp: drive_def intro: grown_refl split: if_splits)
  then have "grown (set ns) u t" using Cons.IH [OF u(2)] Cons.prems(3) by (simp add: grown_def)
  from grown_trans [OF n this] show ?case by simp
qed

lemma drive_cycle_at:
  assumes "each (drive k) ns s = (t, Inl e)" "cyc e" "inv s" "grey s = {}"
  shows "\<exists>j m u. inv u \<and> m \<in> grey u \<and> (m, m) \<in> edges\<^sup>+ \<and> visit (Suc j) m u = (t, Inl e)"
  using assms
proof (induction ns arbitrary: s)
  case Nil
  then show ?case by simp
next
  case (Cons n ns)
  show ?case
  proof (cases "drive k n s")
    case (Pair u r)
    show ?thesis
    proof (cases r)
      case (Inl e')
      with Pair Cons.prems show ?thesis
        using visit_cycle_at [of k n s t e] by (auto simp: drive_def split: if_splits)
    next
      case (Inr x)
      with Pair have d: "drive k n s = (u, Inr ())" by simp
      then have "each (drive k) [n] s = (u, Inr ())" by simp
      from drive_grown [OF this] Cons.prems have "inv u" "grey u = {}" by (auto simp: grown_def)
      with Cons d show ?thesis by auto
    qed
  qed
qed

lemma drive_cycle:
  assumes "each (drive k) ns s = (t, Inl e)" "cyc e" "inv s" "grey s = {}"
  shows "\<not> acyclic edges"
  using drive_cycle_at [OF assms] by (auto simp: acyclic_def)

lemma drive_enough:
  assumes "finite V" "\<And>m. m \<in> V \<Longrightarrow> known m \<and> set (deps m) \<subseteq> V"
    and "card V < k" "set ns \<subseteq> V" "inv s" "grey s = {}" "each (drive k) ns s = (t, Inl e)"
  shows "cyc e"
  using assms(4-)
proof (induction ns arbitrary: s)
  case Nil
  then show ?case by simp
next
  case (Cons n ns)
  show ?case
  proof (cases "drive k n s")
    case (Pair u r)
    show ?thesis
    proof (cases r)
      case (Inl e')
      with Pair Cons.prems have "visit k n s = (t, Inl e)"
        by (auto simp: drive_def split: if_splits)
      from visit_enough [OF assms(1,2) _ Cons.prems(2) _ _ this] show ?thesis
        using Cons.prems assms(3) by simp
    next
      case (Inr x)
      with Pair have d: "drive k n s = (u, Inr ())" by simp
      then have "each (drive k) [n] s = (u, Inr ())" by simp
      from drive_grown [OF this] Cons.prems have "inv u" "grey u = {}" by (auto simp: grown_def)
      with Cons d show ?thesis by auto
    qed
  qed
qed

lemma drive_total:
  assumes "acyclic edges" "finite V" "\<And>m. m \<in> V \<Longrightarrow> known m \<and> set (deps m) \<subseteq> V"
    and "card V < k" "set ns \<subseteq> V" "inv s" "grey s = {}"
  shows "\<exists>t. each (drive k) ns s = (t, Inr ())"
proof (cases "each (drive k) ns s")
  case (Pair t r)
  show ?thesis
  proof (cases r)
    case (Inl e)
    with Pair have loop: "each (drive k) ns s = (t, Inl e)" by simp
    have "cyc e" by (rule drive_enough [OF assms(2-7) loop])
    from drive_cycle [OF loop this assms(6,7)] assms(1) show ?thesis by blast
  next
    case (Inr x)
    with Pair show ?thesis by auto
  qed
qed

text \<open>
  Any property of the bookkeeping that entering a node keeps, and that finishing a node keeps
  once its dependencies are finished, survives the search.
\<close>

definition kept :: "('s \<Rightarrow> bool) \<Rightarrow> bool" where
  "kept P \<longleftrightarrow>
     (\<forall>s n. inv s \<longrightarrow> n \<notin> grey s \<longrightarrow> n \<notin> black s \<longrightarrow> known n \<longrightarrow> P s \<longrightarrow> P (enter n s)) \<and>
     (\<forall>s n. inv s \<longrightarrow> n \<in> grey s \<longrightarrow> known n \<longrightarrow> set (deps n) \<subseteq> black s \<longrightarrow> P s \<longrightarrow> P (leave n s))"

lemma each_keeps:
  assumes "each f ns s = (t, Inr ())" "inv s" "P s"
    and "\<And>n s t. f n s = (t, Inr ()) \<Longrightarrow> inv s \<Longrightarrow> grown {n} s t"
    and "\<And>n s t. f n s = (t, Inr ()) \<Longrightarrow> inv s \<Longrightarrow> P s \<Longrightarrow> P t"
  shows "P t"
  using assms(1-3)
proof (induction ns arbitrary: s)
  case Nil
  then show ?case by simp
next
  case (Cons n ns)
  from Cons.prems(1) obtain u where u: "f n s = (u, Inr ())" "each f ns u = (t, Inr ())"
    by (auto split: prod.splits sum.splits)
  with Cons.IH [OF u(2)] assms(4,5) [OF u(1)] Cons.prems show ?case by (auto simp: grown_def)
qed

lemma visit_keeps:
  assumes "kept P"
  shows "visit k n s = (t, Inr ()) \<Longrightarrow> inv s \<Longrightarrow> P s \<Longrightarrow> P t"
proof (induction k arbitrary: n s t)
  case 0
  then show ?case using no_stack [of n s] by auto
next
  case (Suc k)
  consider "n \<in> black s" | "n \<in> grey s" | "n \<notin> black s" "n \<notin> grey s" by blast
  then show ?case
  proof cases
    case 1
    with Suc.prems show ?thesis by (auto simp: on_black)
  next
    case 2
    with Suc.prems on_grey [of s n k] show ?thesis by auto
  next
    case 3
    have known: "known n"
      using on_unknown [of s n k] Suc.prems 3 by auto
    note in_s = enter_inv [OF Suc.prems(2) 3(2,1) known]
    have so: "P (enter n s)"
      using assms Suc.prems 3 known by (auto simp: kept_def)
    from Suc.prems 3 known obtain u where
      u: "each (visit k) (deps n) (enter n s) = (u, Inr ())" and t: "t = leave n u"
      by (auto simp: on_white and_then_Inr)
    have g: "grown (set (deps n)) (enter n s) u"
      using each_grown [OF u] in_s visit_grown by blast
    then have u': "inv u" "grey u = insert n (grey s)" "set (deps n) \<subseteq> black u"
      using in_s by (auto simp: grown_def)
    have "P u" using each_keeps [OF u, of P] in_s so visit_grown Suc.IH by blast
    with t u' known assms show ?thesis by (auto simp: kept_def)
  qed
qed

lemma drive_keeps:
  assumes "kept P" "each (drive k) ns s = (t, Inr ())" "inv s" "grey s = {}" "P s"
  shows "P t"
  using assms(2-)
proof (induction ns arbitrary: s)
  case Nil
  then show ?case by simp
next
  case (Cons n ns)
  from Cons.prems(1) obtain u where u: "drive k n s = (u, Inr ())" "each (drive k) ns u = (t, Inr ())"
    by (auto split: prod.splits sum.splits)
  have "each (drive k) [n] s = (u, Inr ())" using u by simp
  from drive_grown [OF this] Cons.prems have "inv u" "grey u = {}" by (auto simp: grown_def)
  moreover have "P u"
    using u(1) Cons.prems visit_keeps [OF assms(1), of k n s u] by (auto simp: drive_def split: if_splits)
  ultimately show ?case using Cons.IH [OF u(2)] by simp
qed

text \<open>The finished part of the graph is closed and acyclic.\<close>

definition settled :: "'s \<Rightarrow> bool" where
  "settled s \<longleftrightarrow> acyclic (dep_edges deps (black s)) \<and> (\<forall>m \<in> black s. set (deps m) \<subseteq> black s)"

lemma settled_kept: "kept settled"
  unfolding kept_def
proof (intro conjI allI impI)
  fix s n
  assume "inv s" "n \<notin> grey s" "n \<notin> black s" "known n" "settled s"
  then show "settled (enter n s)" using enter_inv by (simp add: settled_def)
next
  fix s n
  assume a: "inv s" "n \<in> grey s" "known n" "set (deps n) \<subseteq> black s" "settled s"
  then have "n \<notin> black s" using disjoint by blast
  then show "settled (leave n s)"
    using a leave_inv [OF a(1-3)] by (auto simp: settled_def intro!: acyclic_dep_edges_insert)
qed

lemma drive_acyclic:
  assumes "each (drive k) ns s = (t, Inr ())" "inv s" "grey s = {}" "black s = {}"
  shows "acyclic (dep_edges deps (black t)) \<and> (\<forall>m \<in> black t. set (deps m) \<subseteq> black t)"
proof -
  have "settled s" using assms(4) by (simp add: settled_def dep_edges_def acyclic_def)
  from drive_keeps [OF settled_kept assms(1-3) this] show ?thesis by (simp add: settled_def)
qed

end

text \<open>A search that also records the finished nodes produces a topological order.\<close>

locale dfs_topo = dfs_search +
  fixes order :: "'b \<Rightarrow> 'a list"
  assumes enter_order: "\<lbrakk>inv s; n \<notin> grey s; n \<notin> black s; known n\<rbrakk> \<Longrightarrow> order (enter n s) = order s"
    and leave_order: "\<lbrakk>inv s; n \<in> grey s; known n\<rbrakk> \<Longrightarrow> order (leave n s) = order s @ [n]"
begin

definition sorted_so_far :: "'b \<Rightarrow> bool" where
  "sorted_so_far s \<longleftrightarrow> set (order s) = black s \<and> topo_order deps (order s)"

lemma sorted_kept: "kept sorted_so_far"
  unfolding kept_def
proof (intro conjI allI impI)
  fix s n
  assume "inv s" "n \<notin> grey s" "n \<notin> black s" "known n" "sorted_so_far s"
  then show "sorted_so_far (enter n s)" using enter_inv enter_order by (simp add: sorted_so_far_def)
next
  fix s n
  assume a: "inv s" "n \<in> grey s" "known n" "set (deps n) \<subseteq> black s" "sorted_so_far s"
  then have "n \<notin> black s" using disjoint by blast
  then show "sorted_so_far (leave n s)"
    using a leave_inv [OF a(1-3)] leave_order [OF a(1-3)]
    by (auto simp: sorted_so_far_def topo_order_snoc)
qed

text \<open>The whole sort: started from nothing, it returns a topological order of what it covered.\<close>

lemma drive_topo_order:
  assumes "each (drive k) ns s = (t, Inr ())" "inv s" "grey s = {}" "black s = {}" "order s = []"
  shows "topo_order deps (order t)" and "set ns \<subseteq> set (order t)"
    and "\<And>m. m \<in> set (order t) \<Longrightarrow> known m"
proof -
  have "sorted_so_far t"
    using drive_keeps [OF sorted_kept assms(1-3)] assms(4,5) by (simp add: sorted_so_far_def)
  moreover have "grown (set ns) s t" by (rule drive_grown [OF assms(1-3)])
  ultimately show "topo_order deps (order t)" and "set ns \<subseteq> set (order t)"
    and "\<And>m. m \<in> set (order t) \<Longrightarrow> known m"
    using assms(4) by (auto simp: sorted_so_far_def grown_def)
qed

end

end
