(* ===== verification/DataNodes.thy ===== *)
theory DataNodes
  imports Errors "HOL-Library.Char_ord"
begin

text \<open>
  The data model (\<open>models/datanode.py\<close>, \<open>IntervalEnum\<close> of \<open>sdk/models.py\<close>): the enums, the
  validated models as records, and the validators that run before a model is built. What a
  caller passes to a model is a \<open>raw\<close> value. Pydantic's own conversion of an optional integer
  field is the parameter \<open>lax_int\<close>; its order of the \<open>mode="before"\<close> validators (last one
  defined first) and its wrapping of \<open>ValueError\<close> are written out.
\<close>

section \<open>Enums\<close>

datatype node_type =
    RAW | CANDLE | FEATURE | ORDERBOOK | RISK | SIGNAL
  | ML_PRED | ANALYZER | CORRELATION | VOLATILITY | TREND | ANOMALY

type_synonym node_tag = node_type

fun type_value :: "node_type \<Rightarrow> string" where
  "type_value RAW = ''RAW''"
| "type_value CANDLE = ''CANDLE''"
| "type_value FEATURE = ''FEATURE''"
| "type_value ORDERBOOK = ''ORDERBOOK''"
| "type_value RISK = ''RISK''"
| "type_value SIGNAL = ''SIGNAL''"
| "type_value ML_PRED = ''ML_PRED''"
| "type_value ANALYZER = ''ANALYZER''"
| "type_value CORRELATION = ''CORRELATION''"
| "type_value VOLATILITY = ''VOLATILITY''"
| "type_value TREND = ''TREND''"
| "type_value ANOMALY = ''ANOMALY''"

lemma type_value_inject: "type_value a = type_value b \<longleftrightarrow> a = b"
  by (cases a; cases b) simp_all

datatype interval_enum = MINUTE | HOUR | DAY

fun interval_value :: "interval_enum \<Rightarrow> string" where
  "interval_value MINUTE = ''1m''"
| "interval_value HOUR = ''1h''"
| "interval_value DAY = ''1d''"

text \<open>\<open>IntervalEnum[s]\<close> looks a member up by name, \<open>IntervalEnum(s)\<close> by value.\<close>

definition interval_by_name :: "string \<Rightarrow> interval_enum option" where
  "interval_by_name s =
     (if s = ''MINUTE'' then Some MINUTE else if s = ''HOUR'' then Some HOUR
      else if s = ''DAY'' then Some DAY else None)"

definition interval_by_value :: "string \<Rightarrow> interval_enum option" where
  "interval_by_value s =
     (if s = ''1m'' then Some MINUTE else if s = ''1h'' then Some HOUR
      else if s = ''1d'' then Some DAY else None)"

lemma interval_by_value_iff: "interval_by_value s = Some i \<longleftrightarrow> s = interval_value i"
  by (cases i) (auto simp: interval_by_value_def)

section \<open>Validated models\<close>

record node_tags =
  predefined :: "node_tag list option"
  custom :: "string list option"

record interval_settings =
  is_interval :: interval_enum
  is_period :: int
  is_max_history :: "int option"

type_synonym stream_settings = "(interval_enum, interval_settings) dict"

record 'v data_node =
  node_id :: string
  ntype :: "node_type option"
  data_format :: "(string, 'v) dict"
  dn_params :: "(string, 'v) dict option"
  dependencies :: "string list"
  dn_ttl :: "int option"
  dn_tags :: "node_tags option"
  stream_settings :: "stream_settings option"
  interval_settings :: "interval_settings option"

text \<open>The property \<open>primary_tag\<close>: the first predefined tag, else the type, else the first custom tag.\<close>

definition primary_tag :: "'v data_node \<Rightarrow> string option" where
  "primary_tag n =
     (case dn_tags n of
        Some ts \<Rightarrow>
          (case predefined ts of
             Some (t # _) \<Rightarrow> Some (type_value t)
           | _ \<Rightarrow>
             (case ntype n of
                Some t \<Rightarrow> Some (type_value t)
              | None \<Rightarrow> (case custom ts of Some (c # _) \<Rightarrow> Some c | _ \<Rightarrow> None)))
      | None \<Rightarrow> map_option type_value (ntype n))"

record 'v topo_sort_result =
  tsr_order :: "string list"
  tsr_node_map :: "(string, 'v data_node) dict"

section \<open>Reading an integer from a string\<close>

text \<open>\<open>int(s)\<close> on ASCII text: surrounding white space, a sign, digits with single underscores between them.\<close>

definition is_space :: "char \<Rightarrow> bool" where
  "is_space c \<longleftrightarrow> (let n = (of_char c :: nat) in n = 32 \<or> (9 \<le> n \<and> n \<le> 13) \<or> (28 \<le> n \<and> n \<le> 31))"

definition is_digit :: "char \<Rightarrow> bool" where
  "is_digit c \<longleftrightarrow> (let n = (of_char c :: nat) in 48 \<le> n \<and> n \<le> 57)"

definition digit_value :: "char \<Rightarrow> int" where
  "digit_value c = of_char c - 48"

fun int_digits :: "int \<Rightarrow> string \<Rightarrow> int option" where
  "int_digits acc [] = None"
| "int_digits acc [c] = (if is_digit c then Some (acc * 10 + digit_value c) else None)"
| "int_digits acc (c # d # cs) =
     (if \<not> is_digit c then None
      else if d = CHR ''_'' then int_digits (acc * 10 + digit_value c) cs
      else int_digits (acc * 10 + digit_value c) (d # cs))"

definition strip :: "string \<Rightarrow> string" where
  "strip s = rev (dropWhile is_space (rev (dropWhile is_space s)))"

definition py_int :: "string \<Rightarrow> int option" where
  "py_int s =
     (case strip s of
        [] \<Rightarrow> None
      | c # cs \<Rightarrow>
          if c = CHR ''-'' then map_option uminus (int_digits 0 cs)
          else if c = CHR ''+'' then int_digits 0 cs
          else int_digits 0 (c # cs))"

section \<open>Raw values\<close>

datatype raw =
    RNone | RBool bool | RInt int | RStr string | RInterval interval_enum
  | RSettings interval_settings | RStream stream_settings
  | RList "raw list" | RDict "(raw \<times> raw) list"

type_synonym kwargs = "(string, raw) dict"

fun truthy :: "raw \<Rightarrow> bool" where
  "truthy RNone = False"
| "truthy (RBool b) = b"
| "truthy (RInt i) = (i \<noteq> 0)"
| "truthy (RStr s) = (s \<noteq> [])"
| "truthy (RInterval i) = True"
| "truthy (RSettings s) = True"
| "truthy (RStream s) = True"
| "truthy (RList xs) = (xs \<noteq> [])"
| "truthy (RDict d) = (d \<noteq> [])"

text \<open>\<open>d.get(k)\<close> with a string key, on keyword arguments and on a raw dict.\<close>

definition get :: "(string, raw) dict \<Rightarrow> string \<Rightarrow> raw" where
  "get d k = (case map_of d k of None \<Rightarrow> RNone | Some v \<Rightarrow> v)"

definition rget :: "(raw \<times> raw) list \<Rightarrow> string \<Rightarrow> raw" where
  "rget d k = (case map_of d (RStr k) of None \<Rightarrow> RNone | Some v \<Rightarrow> v)"

text \<open>\<open>Model(**d)\<close>: every key of \<open>d\<close> has to be a string.\<close>

definition kwargs_of :: "(raw \<times> raw) list \<Rightarrow> kwargs option" where
  "kwargs_of d =
     (if list_all (\<lambda>(k, _). case k of RStr _ \<Rightarrow> True | _ \<Rightarrow> False) d
      then Some (map (\<lambda>(k, v). (case k of RStr s \<Rightarrow> s | _ \<Rightarrow> '''', v)) d)
      else None)"

text \<open>Pydantic reports a \<open>ValueError\<close> of a validator as its own \<open>ValidationError\<close>.\<close>

definition wrap :: "'a res \<Rightarrow> 'a res" where
  "wrap r =
     (case r of
        Inl e \<Rightarrow> Inl (if isinstance_of (ex_class e) ValueError
                      then e\<lparr>ex_class := PydanticValidationError\<rparr> else e)
      | Inr x \<Rightarrow> Inr x)"

lemma wrap_Inr [simp]: "wrap r = Inr x \<longleftrightarrow> r = Inr x"
  by (cases r) (simp_all add: wrap_def)

section \<open>IntervalSettings\<close>

text \<open>An \<open>IntervalEnum\<close> member is a \<open>str\<close> as well; looked up by value it is itself.\<close>

definition check_interval :: "kwargs \<Rightarrow> kwargs res" where
  "check_interval values =
     bind_res
       (case get values ''interval'' of
          RStr s \<Rightarrow>
            (case interval_by_name s of
               Some i \<Rightarrow> Inr (AList.update ''interval'' (RInterval i) values)
             | None \<Rightarrow>
               (case interval_by_value s of
                  Some i \<Rightarrow> Inr (AList.update ''interval'' (RInterval i) values)
                | None \<Rightarrow> raises ValueError ''interval must be a value of IntervalEnum''))
        | RInterval i \<Rightarrow> Inr (AList.update ''interval'' (RInterval i) values)
        | _ \<Rightarrow> raises ValueError ''interval must be of type IntervalEnum'')
       (\<lambda>values.
          case get values ''period'' of
            RStr s \<Rightarrow>
              (case py_int s of
                 Some p \<Rightarrow> Inr (AList.update ''period'' (RInt p) values)
               | None \<Rightarrow> raises ValueError ''period must be an int or a string that converts to one'')
          | RInterval _ \<Rightarrow> raises ValueError ''period must be an int or a string that converts to one''
          | RInt _ \<Rightarrow> Inr values
          | RBool _ \<Rightarrow> Inr values
          | _ \<Rightarrow> raises ValueError ''period must be an int'')"

text \<open>The fields after the validator; \<open>extra = "forbid"\<close> rejects any other key.\<close>

definition interval_settings_of :: "(raw \<Rightarrow> int option) \<Rightarrow> kwargs \<Rightarrow> interval_settings res" where
  "interval_settings_of lax_int values =
     wrap (bind_res (check_interval values)
       (\<lambda>values.
          if \<not> set (map fst values) \<subseteq> {''interval'', ''period'', ''max_history''}
          then raises PydanticValidationError ''Extra inputs are not permitted''
          else
            case (get values ''interval'', get values ''period'', get values ''max_history'') of
              (RInterval i, p, mh) \<Rightarrow>
                bind_res
                  (case p of
                     RInt n \<Rightarrow> Inr n
                   | RBool b \<Rightarrow> Inr (if b then 1 else 0)
                   | _ \<Rightarrow> raises PydanticValidationError ''Input should be a valid integer'')
                  (\<lambda>n. case mh of
                     RNone \<Rightarrow> Inr \<lparr>is_interval = i, is_period = n, is_max_history = None\<rparr>
                   | _ \<Rightarrow>
                     (case lax_int mh of
                        Some h \<Rightarrow> Inr \<lparr>is_interval = i, is_period = n, is_max_history = Some h\<rparr>
                      | None \<Rightarrow> raises PydanticValidationError ''Input should be a valid integer''))
            | _ \<Rightarrow> raises PydanticValidationError ''Input should be an IntervalEnum''))"

section \<open>NodeStreamSettings\<close>

text \<open>The loop that converts the keys: \<open>new_intervals[enum_key] = v\<close>.\<close>

fun convert_keys :: "(raw \<times> raw) list \<Rightarrow> (raw, raw) dict \<Rightarrow> (raw, raw) dict res" where
  "convert_keys [] new = Inr new"
| "convert_keys ((k, v) # kvs) new =
     (case k of
        RStr s \<Rightarrow>
          (case interval_by_value s of
             Some i \<Rightarrow> convert_keys kvs (AList.update (RInterval i) v new)
           | None \<Rightarrow> raises ValueError (s @ '' is not a valid IntervalEnum''))
      | _ \<Rightarrow> convert_keys kvs (AList.update k v new))"

definition has_interval_field :: "raw \<Rightarrow> bool" where
  "has_interval_field v =
     (case v of RSettings _ \<Rightarrow> True | RDict d \<Rightarrow> has_key d (RStr ''interval'') | _ \<Rightarrow> False)"

definition check_intervals :: "kwargs \<Rightarrow> kwargs res" where
  "check_intervals values =
     bind_res
       (case map_of values ''intervals'' of
          Some (RDict d) \<Rightarrow> bind_res (convert_keys d []) (\<lambda>new. Inr (Some new))
        | _ \<Rightarrow> Inr None)
       (\<lambda>intervals.
          case intervals of
            Some (kv # kvs) \<Rightarrow>
              (if list_all (\<lambda>(k, v). has_interval_field v) (kv # kvs)
               then Inr (AList.update ''intervals'' (RDict (kv # kvs)) values)
               else raises ValueError ''intervals: an entry has no interval field'')
          | _ \<Rightarrow> raises ValueError ''NodeStreamSettings needs at least one interval'')"

text \<open>The field \<open>intervals: Dict[IntervalEnum, IntervalSettings]\<close>: keys and values converted one by one.\<close>

fun interval_entries ::
    "(raw \<Rightarrow> int option) \<Rightarrow> (raw \<times> raw) list \<Rightarrow> stream_settings \<Rightarrow> stream_settings res" where
  "interval_entries lax_int [] out = Inr out"
| "interval_entries lax_int ((k, v) # kvs) out =
     (case k of
        RInterval i \<Rightarrow>
          bind_res
            (case v of
               RSettings s \<Rightarrow> Inr s
             | RDict d \<Rightarrow>
                 (case kwargs_of d of
                    Some kw \<Rightarrow> interval_settings_of lax_int kw
                  | None \<Rightarrow> raises PydanticValidationError ''Keys should be strings'')
             | _ \<Rightarrow> raises PydanticValidationError ''Input should be an IntervalSettings'')
            (\<lambda>s. interval_entries lax_int kvs (AList.update i s out))
      | _ \<Rightarrow> raises PydanticValidationError ''Input should be an IntervalEnum'')"

definition node_stream_settings_of :: "(raw \<Rightarrow> int option) \<Rightarrow> kwargs \<Rightarrow> stream_settings res" where
  "node_stream_settings_of lax_int values =
     wrap (bind_res (check_intervals values)
       (\<lambda>values.
          if \<not> set (map fst values) \<subseteq> {''intervals''}
          then raises PydanticValidationError ''Extra inputs are not permitted''
          else case get values ''intervals'' of
                 RDict d \<Rightarrow> interval_entries lax_int d []
               | _ \<Rightarrow> raises PydanticValidationError ''Input should be a dict''))"

section \<open>DataNode\<close>

text \<open>
  \<open>getattr(v, "interval", None) or (v.get("interval") if isinstance(v, dict) else None)\<close>
\<close>

definition interval_of :: "raw \<Rightarrow> raw" where
  "interval_of v =
     (case v of RSettings s \<Rightarrow> RInterval (is_interval s) | RDict d \<Rightarrow> rget d ''interval'' | _ \<Rightarrow> RNone)"

text \<open>
  \<open>check_interval_required\<close>. A truthy value of \<open>intervals\<close> that is no dict has no length or
  no \<open>items\<close>: \<open>TypeError\<close> for a number and \<open>AttributeError\<close> for the rest.
\<close>

definition check_interval_required :: "kwargs \<Rightarrow> kwargs res" where
  "check_interval_required values =
     (let stream = get values ''stream_settings''; settings = get values ''interval_settings'' in
      if truthy stream then
        (let intervals =
           (case stream of
              RStream d \<Rightarrow> RDict (map (\<lambda>(k, v). (RInterval k, RSettings v)) d)
            | RDict d \<Rightarrow> rget d ''intervals''
            | _ \<Rightarrow> RNone)
         in if \<not> truthy intervals
            then raises ValueError ''stream_settings needs at least one interval''
            else case intervals of
                   RDict d \<Rightarrow>
                     (if list_all (\<lambda>(k, v). truthy (interval_of v)) d then Inr values
                      else raises ValueError ''stream_settings: an entry has no interval'')
                 | RBool _ \<Rightarrow> raises TypeError ''object has no len()''
                 | RInt _ \<Rightarrow> raises TypeError ''object has no len()''
                 | RSettings _ \<Rightarrow> raises TypeError ''object has no len()''
                 | RStream _ \<Rightarrow> raises TypeError ''object has no len()''
                 | _ \<Rightarrow> raises AttributeError ''object has no attribute items'')
      else if truthy settings then
        (if truthy (interval_of settings) then Inr values
         else raises ValueError ''interval_settings has no interval'')
      else raises ValueError ''DataNode needs stream_settings or interval_settings with an interval'')"

definition check_node_id :: "kwargs \<Rightarrow> kwargs res" where
  "check_node_id values =
     (let node_id = get values ''node_id'' in
      if truthy node_id \<and> (case node_id of RStr _ \<Rightarrow> False | RInterval _ \<Rightarrow> False | _ \<Rightarrow> True)
      then raises ValueError ''node_id must be a string''
      else Inr values)"

definition migrate_interval_settings :: "(raw \<Rightarrow> int option) \<Rightarrow> kwargs \<Rightarrow> kwargs res" where
  "migrate_interval_settings lax_int values =
     (let settings = get values ''interval_settings''; stream = get values ''stream_settings'' in
      if truthy settings \<and> \<not> truthy stream then
        bind_res
          (case settings of
             RDict d \<Rightarrow>
               (case kwargs_of d of
                  Some kw \<Rightarrow> interval_settings_of lax_int kw
                | None \<Rightarrow> raises TypeError ''keywords must be strings'')
           | RSettings s \<Rightarrow> Inr s
           | _ \<Rightarrow> raises ValueError ''interval_settings must be dict or IntervalSettings'')
          (\<lambda>s. bind_res
             (node_stream_settings_of lax_int
                [(''intervals'', RDict [(RInterval (is_interval s), RSettings s)])])
             (\<lambda>st. Inr (AList.update ''stream_settings'' (RStream st) values)))
      else Inr values)"

text \<open>The pattern of \<open>node_id\<close>.\<close>

definition is_hex :: "char \<Rightarrow> bool" where
  "is_hex c \<longleftrightarrow> (let n = (of_char c :: nat) in (48 \<le> n \<and> n \<le> 57) \<or> (97 \<le> n \<and> n \<le> 102))"

definition hex32 :: "string \<Rightarrow> bool" where
  "hex32 s \<longleftrightarrow> length s = 32 \<and> list_all is_hex s"

text \<open>The three fields with rules of their own: \<open>node_id\<close>, \<open>stream_settings\<close>, \<open>interval_settings\<close>.\<close>

definition node_id_field :: "raw \<Rightarrow> string res" where
  "node_id_field v =
     (case v of
        RStr s \<Rightarrow>
          if hex32 s then Inr s
          else raises PydanticValidationError ''String should match pattern''
      | _ \<Rightarrow> raises PydanticValidationError ''Input should be a valid string'')"

definition stream_field :: "(raw \<Rightarrow> int option) \<Rightarrow> raw \<Rightarrow> stream_settings option res" where
  "stream_field lax_int v =
     (case v of
        RNone \<Rightarrow> Inr None
      | RStream d \<Rightarrow> Inr (Some d)
      | RDict d \<Rightarrow>
          (case kwargs_of d of
             Some kw \<Rightarrow> bind_res (node_stream_settings_of lax_int kw) (\<lambda>d. Inr (Some d))
           | None \<Rightarrow> raises PydanticValidationError ''Keys should be strings'')
      | _ \<Rightarrow> raises PydanticValidationError ''Input should be a NodeStreamSettings'')"

definition settings_field :: "(raw \<Rightarrow> int option) \<Rightarrow> raw \<Rightarrow> interval_settings option res" where
  "settings_field lax_int v =
     (case v of
        RNone \<Rightarrow> Inr None
      | RSettings s \<Rightarrow> Inr (Some s)
      | RDict d \<Rightarrow>
          (case kwargs_of d of
             Some kw \<Rightarrow> bind_res (interval_settings_of lax_int kw) (\<lambda>s. Inr (Some s))
           | None \<Rightarrow> raises PydanticValidationError ''Keys should be strings'')
      | _ \<Rightarrow> raises PydanticValidationError ''Input should be an IntervalSettings'')"

text \<open>
  Building a \<open>DataNode\<close>: the validators, the last one defined first, then the fields. The
  fields with no rule of the program's own (\<open>rest\<close>) are taken as already converted.
\<close>

definition data_node_of ::
    "(raw \<Rightarrow> int option) \<Rightarrow> kwargs \<Rightarrow> 'v data_node \<Rightarrow> 'v data_node res" where
  "data_node_of lax_int values rest =
     wrap (bind_res (check_interval_required values) (\<lambda>values.
       bind_res (check_node_id values) (\<lambda>values.
       bind_res (migrate_interval_settings lax_int values) (\<lambda>values.
       bind_res (node_id_field (get values ''node_id'')) (\<lambda>nid.
       bind_res (stream_field lax_int (get values ''stream_settings'')) (\<lambda>st.
       bind_res (settings_field lax_int (get values ''interval_settings'')) (\<lambda>si.
       Inr (rest\<lparr>node_id := nid, stream_settings := st, interval_settings := si\<rparr>))))))))"

section \<open>What validation guarantees\<close>

lemma update_neq_Nil [simp]: "AList.update k v d \<noteq> []"
  by (cases d) auto

lemma interval_entries_nonempty:
  "interval_entries lax_int kvs out = Inr d \<Longrightarrow> kvs \<noteq> [] \<or> out \<noteq> [] \<Longrightarrow> d \<noteq> []"
proof (induction kvs arbitrary: out)
  case Nil
  then show ?case by simp
next
  case (Cons kv kvs)
  obtain k v where kv: "kv = (k, v)" by fastforce
  from Cons.prems obtain i s where
    "interval_entries lax_int kvs (AList.update i s out) = Inr d"
    by (auto simp: kv bind_res_Inr split: raw.splits)
  then show ?case by (rule Cons.IH) simp
qed

lemma get_update [simp]: "get (AList.update k v d) k' = (if k' = k then v else get d k')"
  by (simp add: get_def)

lemma check_intervals_nonempty:
  assumes "check_intervals values = Inr values'"
  shows "\<exists>kv kvs. get values' ''intervals'' = RDict (kv # kvs)"
proof -
  from assms obtain intervals where
    "(case intervals of
        Some (kv # kvs) \<Rightarrow>
          (if list_all (\<lambda>(k, v). has_interval_field v) (kv # kvs)
           then Inr (AList.update ''intervals'' (RDict (kv # kvs)) values)
           else raises ValueError ''intervals: an entry has no interval field'')
      | _ \<Rightarrow> raises ValueError ''NodeStreamSettings needs at least one interval'') = Inr values'"
    unfolding check_intervals_def bind_res_Inr by blast
  then show ?thesis by (auto split: option.splits list.splits if_splits)
qed

lemma node_stream_settings_nonempty:
  assumes "node_stream_settings_of lax_int values = Inr d"
  shows "d \<noteq> []"
proof -
  from assms obtain values' where "check_intervals values = Inr values'"
    and d: "(case get values' ''intervals'' of
               RDict d \<Rightarrow> interval_entries lax_int d []
             | _ \<Rightarrow> raises PydanticValidationError ''Input should be a dict'') = Inr d"
    by (auto simp: node_stream_settings_of_def bind_res_Inr split: if_splits)
  then obtain kv kvs where "get values' ''intervals'' = RDict (kv # kvs)"
    using check_intervals_nonempty by blast
  with d show ?thesis using interval_entries_nonempty by fastforce
qed

text \<open>The migration of one \<open>IntervalSettings\<close> gives a stream with that one interval.\<close>

lemma node_stream_settings_single:
  "node_stream_settings_of lax_int [(''intervals'', RDict [(RInterval i, RSettings s)])] = Inr [(i, s)]"
  by (simp add: node_stream_settings_of_def check_intervals_def has_interval_field_def get_def wrap_def)

lemma migrate_cases:
  assumes "migrate_interval_settings lax_int values = Inr values'"
  shows "values' = values \<and> (truthy (get values ''interval_settings'') \<longrightarrow> truthy (get values ''stream_settings''))
    \<or> \<not> truthy (get values ''stream_settings'') \<and>
      (\<exists>s. values' = AList.update ''stream_settings'' (RStream [(is_interval s, s)]) values \<and>
        (get values ''interval_settings'' = RSettings s \<or>
         (\<exists>d kw. get values ''interval_settings'' = RDict d \<and> kwargs_of d = Some kw \<and>
           interval_settings_of lax_int kw = Inr s)))"
  using assms unfolding migrate_interval_settings_def Let_def
  by (auto simp: bind_res_Inr node_stream_settings_single split: if_splits raw.splits option.splits)

lemma check_interval_required_cases:
  assumes "check_interval_required values = Inr values'"
  shows "values' = values \<and>
    (truthy (get values ''stream_settings'') \<or> truthy (get values ''interval_settings'')) \<and>
    get values ''stream_settings'' \<noteq> RStream []"
  using assms unfolding check_interval_required_def Let_def
  by (cases "get values ''stream_settings''") (auto split: if_splits raw.splits)

lemma check_node_id_same: "check_node_id values = Inr values' \<Longrightarrow> values' = values"
  by (auto simp: check_node_id_def Let_def split: if_splits)

lemma node_id_field_hex: "node_id_field v = Inr s \<Longrightarrow> hex32 s"
  by (auto simp: node_id_field_def split: raw.splits if_splits)

lemma stream_field_nonempty:
  assumes "stream_field lax_int v = Inr st" "truthy v" "v \<noteq> RStream []"
  shows "\<exists>d. st = Some d \<and> d \<noteq> []"
  using assms
  by (cases v) (auto simp: stream_field_def bind_res_Inr dest: node_stream_settings_nonempty split: option.splits)

text \<open>
  C40: A validated data node has a 32 digit hexadecimal id and at least one stream interval,
  whatever the caller passed; when only the old \<open>interval_settings\<close> was given, the stream
  settings are exactly that one setting under its own interval.
\<close>

theorem data_node_of_valid:
  assumes "data_node_of lax_int values rest = Inr n"
  shows "hex32 (node_id n) \<and> (\<exists>d. stream_settings n = Some d \<and> d \<noteq> []) \<and>
    (\<not> truthy (get values ''stream_settings'') \<longrightarrow>
      (\<exists>s. interval_settings n = Some s \<and> stream_settings n = Some [(is_interval s, s)]))"
proof -
  from assms obtain v1 v2 v where
    required: "check_interval_required values = Inr v1" and id: "check_node_id v1 = Inr v2"
    and migrate: "migrate_interval_settings lax_int v2 = Inr v"
    and fields: "bind_res (node_id_field (get v ''node_id'')) (\<lambda>nid.
       bind_res (stream_field lax_int (get v ''stream_settings'')) (\<lambda>st.
       bind_res (settings_field lax_int (get v ''interval_settings'')) (\<lambda>si.
       Inr (rest\<lparr>node_id := nid, stream_settings := st, interval_settings := si\<rparr>)))) = Inr n"
    unfolding data_node_of_def wrap_Inr bind_res_Inr by blast
  from fields obtain nid st si where
    nid: "hex32 nid" and st: "stream_field lax_int (get v ''stream_settings'') = Inr st"
    and si: "settings_field lax_int (get v ''interval_settings'') = Inr si"
    and n: "n = rest\<lparr>node_id := nid, stream_settings := st, interval_settings := si\<rparr>"
    unfolding bind_res_Inr by (auto dest: node_id_field_hex)
  note req = check_interval_required_cases [OF required]
  have v2: "v2 = values" using check_node_id_same [OF id] req by simp
  show ?thesis
    using migrate_cases [OF migrate [unfolded v2]]
  proof (elim disjE conjE exE)
    assume "v = values" and "truthy (get values ''interval_settings'') \<longrightarrow> truthy (get values ''stream_settings'')"
    then have "truthy (get values ''stream_settings'')" "get values ''stream_settings'' \<noteq> RStream []"
      "v = values" using req by auto
    with st nid n stream_field_nonempty show ?thesis by fastforce
  next
    fix s
    assume "v = AList.update ''stream_settings'' (RStream [(is_interval s, s)]) values"
      and "get values ''interval_settings'' = RSettings s"
    then show ?thesis using st si nid n by (auto simp: stream_field_def settings_field_def)
  next
    fix s d kw
    assume "v = AList.update ''stream_settings'' (RStream [(is_interval s, s)]) values"
      and "get values ''interval_settings'' = RDict d" "kwargs_of d = Some kw"
        "interval_settings_of lax_int kw = Inr s"
    then show ?thesis using st si nid n by (auto simp: stream_field_def settings_field_def)
  qed
qed

definition sample_node :: "unit data_node" where
  "sample_node = \<lparr>node_id = '''', ntype = None, data_format = [], dn_params = None, dependencies = [],
     dn_ttl = None, dn_tags = None, stream_settings = None, interval_settings = None\<rparr>"

lemma sample_node_built:
  "data_node_of (\<lambda>_. None)
     [(''node_id'', RStr ''0123456789abcdef0123456789abcdef''),
      (''interval_settings'', RDict [(RStr ''interval'', RStr ''HOUR''), (RStr ''period'', RStr ''7'')])]
     sample_node
   = Inr (sample_node\<lparr>node_id := ''0123456789abcdef0123456789abcdef'',
       stream_settings := Some [(HOUR, \<lparr>is_interval = HOUR, is_period = 7, is_max_history = None\<rparr>)],
       interval_settings := Some \<lparr>is_interval = HOUR, is_period = 7, is_max_history = None\<rparr>\<rparr>)"
  by code_simp

theorem data_node_of_valid_witness:
  "hex32 ''0123456789abcdef0123456789abcdef'' \<and>
   (\<exists>s. Some \<lparr>is_interval = HOUR, is_period = 7, is_max_history = None\<rparr> = Some s \<and> is_interval s = HOUR)"
  using data_node_of_valid [OF sample_node_built] by (simp add: get_def)

end
