(* ===== verification/DagService.thy ===== *)
theory DagService
  imports DataNodes Graphs
begin

text \<open>
  \<open>DAGService\<close> (\<open>dag_manager/strategy/dag_service.py\<close>): building the dependency graph of a list
  of data nodes, the cycle check by depth-first search, the path reported for a cycle, Kahn's
  topological sort, and the queries.

  The two adjacency lists are \<open>defaultdict(list)\<close>: reading a missing key inserts it, so the
  operations that only read still return the graph they leave behind. The recursive search
  takes the number of stack frames Python has left and raises \<open>RecursionError\<close> without any.
\<close>

record 'v dag =
  dag_nodes :: "(string, 'v data_node) dict"
  adjacency_list :: "(string, string list) dict"
  reverse_adjacency_list :: "(string, string list) dict"
  verified :: bool

definition reset :: "'v dag" where
  "reset = \<lparr>dag_nodes = [], adjacency_list = [], reverse_adjacency_list = [], verified = False\<rparr>"

text \<open>The loop of \<open>add_node\<close> over the dependencies.\<close>

fun add_edges :: "string \<Rightarrow> string list \<Rightarrow> 'v dag \<Rightarrow> 'v dag" where
  "add_edges nid [] d = d"
| "add_edges nid (dep # deps) d =
     add_edges nid deps
       (d\<lparr>reverse_adjacency_list := dd_append nid dep (reverse_adjacency_list d),
          adjacency_list := dd_append dep nid (adjacency_list d)\<rparr>)"

definition add_node :: "'v data_node \<Rightarrow> 'v dag \<Rightarrow> 'v dag" where
  "add_node node d =
     (let d1 = d\<lparr>dag_nodes := AList.update (node_id node) node (dag_nodes d)\<rparr>;
          d2 = add_edges (node_id node) (dependencies node) d1;
          d3 = (if dependencies node = []
                then d2\<lparr>reverse_adjacency_list :=
                          AList.update (node_id node) [] (reverse_adjacency_list d2)\<rparr>
                else d2);
          d4 = (if \<not> has_key (adjacency_list d3) (node_id node)
                then d3\<lparr>adjacency_list := AList.update (node_id node) [] (adjacency_list d3)\<rparr>
                else d3)
      in d4\<lparr>verified := False\<rparr>)"

section \<open>The path of a cycle\<close>

type_synonym adjacency = "(string, string list) dict"
type_synonym parents = "(string, string option) dict"

text \<open>
  The inner loop of \<open>_find_cycle_path\<close> over the neighbours of \<open>current\<close>: whether the start
  node was met, and \<open>visited\<close> and \<open>queue\<close> at that point.
\<close>

fun scan :: "string \<Rightarrow> string \<Rightarrow> string list \<Rightarrow> parents \<Rightarrow> (string \<times> string option) list
    \<Rightarrow> bool \<times> parents \<times> (string \<times> string option) list" where
  "scan start current [] visited queue = (False, visited, queue)"
| "scan start current (neighbor # ns) visited queue =
     (if neighbor = start then (True, visited, queue)
      else if \<not> has_key visited neighbor
      then scan start current ns (AList.update neighbor (Some current) visited)
             (queue @ [(neighbor, Some current)])
      else scan start current ns visited queue)"

text \<open>
  The loop that follows the parents back to the start; the first argument bounds its rounds,
  and \<open>None\<close> is a walk that does not end (or looks up a missing node).
\<close>

fun walk_back :: "nat \<Rightarrow> string \<Rightarrow> parents \<Rightarrow> string \<Rightarrow> string list \<Rightarrow> string list option" where
  "walk_back k start visited current path =
     (if current = start then Some (rev (path @ [start]))
      else case k of
             0 \<Rightarrow> None
           | Suc k \<Rightarrow>
             (case map_of visited current of
                Some (Some p) \<Rightarrow> walk_back k start visited p (path @ [current])
              | _ \<Rightarrow> None))"

declare walk_back.simps [simp del]

text \<open>The nodes that can still be found: the universe of the search.\<close>

definition neighbours :: "adjacency \<Rightarrow> string set" where
  "neighbours r = (\<Union>(_, ns) \<in> set r. set ns)"

lemma finite_neighbours [simp]: "finite (neighbours r)"
  by (auto simp: neighbours_def)

lemma dd_get_neighbours: "set (dd_get r n) \<subseteq> neighbours r"
  by (cases "map_of r n") (force simp: dd_get_def neighbours_def dest: map_of_SomeD)+

lemma neighbours_touch [simp]: "neighbours (dd_touch n r) = neighbours r"
proof (cases "has_key r n")
  case False
  then have "AList.update n [] r = r @ [(n, [])]"
    by (induction r) auto
  with False show ?thesis by (auto simp: dd_touch_def neighbours_def)
qed (simp add: dd_touch_def)

definition unseen :: "string set \<Rightarrow> parents \<Rightarrow> nat" where
  "unseen U visited = card (U - {n. has_key visited n})"

lemma unseen_update:
  assumes "n \<in> U" "\<not> has_key visited n" "finite U"
  shows "Suc (unseen U (AList.update n p visited)) = unseen U visited"
proof -
  have "U - {m. has_key (AList.update n p visited) m} = (U - {m. has_key visited m}) - {n}" by auto
  then show ?thesis
    using assms card_Suc_Diff1 [of "U - {m. has_key visited m}" n] by (simp add: unseen_def)
qed

lemma scan_measure:
  assumes "scan start current ns visited queue = (found, visited', queue')" "set ns \<subseteq> U" "finite U"
  shows "unseen U visited' + length queue' = unseen U visited + length queue"
  using assms(1,2)
proof (induction ns arbitrary: visited queue)
  case Nil
  then show ?case by simp
next
  case (Cons n ns)
  then show ?case using unseen_update [of n U visited "Some current"] assms(3)
    by (fastforce split: if_splits)
qed

function bfs :: "string \<Rightarrow> adjacency \<Rightarrow> parents \<Rightarrow> (string \<times> string option) list
    \<Rightarrow> adjacency \<times> string list option" where
  "bfs start r visited [] = (r, Some [])"
| "bfs start r visited ((current, parent) # queue) =
     (let (found, visited', queue') = scan start current (dd_get r current) visited queue in
      if found
      then (dd_touch current r, walk_back (length visited') start visited' current [start])
      else bfs start (dd_touch current r) visited' queue')"
  by pat_completeness auto
termination
proof (relation "measure (\<lambda>(_, r, visited, queue).
    unseen (neighbours r) visited + length queue)", simp)
  fix start :: string and r visited current queue x found y visited' queue'
  fix parent :: "string option"
  assume "x = scan start current (dd_get r current) visited queue" "(found, y) = x"
    "(visited', queue') = y"
  then have "scan start current (dd_get r current) visited queue = (found, visited', queue')" by simp
  from scan_measure [OF this dd_get_neighbours finite_neighbours]
  show "((start, dd_touch current r, visited', queue'), start, r, visited, (current, parent) # queue)
    \<in> measure (\<lambda>(_, r, visited, queue). unseen (neighbours r) visited + length queue)"
    by simp
qed

definition find_cycle_path :: "string \<Rightarrow> adjacency \<Rightarrow> adjacency \<times> string list option" where
  "find_cycle_path start r = bfs start r [(start, None)] [(start, None)]"

lemma dd_get_touch_fun [simp]: "dd_get (dd_touch n r) = dd_get r"
  by (rule ext) simp

text \<open>
  \<open>visited\<close> records a tree: every entry but the first names the parent it was reached from, an
  earlier entry that depends on it.
\<close>

definition parent_tree :: "(string \<Rightarrow> string list) \<Rightarrow> string \<Rightarrow> parents \<Rightarrow> bool" where
  "parent_tree deps start vs \<longleftrightarrow> dict_ok vs \<and> vs \<noteq> [] \<and> vs ! 0 = (start, None) \<and>
     (\<forall>i. 0 < i \<longrightarrow> i < length vs \<longrightarrow>
       (\<exists>j < i. snd (vs ! i) = Some (fst (vs ! j)) \<and> fst (vs ! i) \<in> set (deps (fst (vs ! j)))))"

lemma parent_tree_root: "parent_tree deps start [(start, None)]"
  by (simp add: parent_tree_def dict_ok_def)

lemma parent_tree_entry:
  assumes "parent_tree deps start vs" "0 < i" "i < length vs"
  shows "\<exists>j < i. snd (vs ! i) = Some (fst (vs ! j)) \<and> fst (vs ! i) \<in> set (deps (fst (vs ! j)))"
proof -
  from assms(1) have "\<forall>i. 0 < i \<longrightarrow> i < length vs \<longrightarrow>
       (\<exists>j < i. snd (vs ! i) = Some (fst (vs ! j)) \<and> fst (vs ! i) \<in> set (deps (fst (vs ! j))))"
    unfolding parent_tree_def by (elim conjE)
  from this [rule_format, OF assms(2,3)] show ?thesis .
qed

lemma parent_tree_start: "parent_tree deps start vs \<Longrightarrow> has_key vs start"
  by (cases vs) (auto simp: parent_tree_def)

lemma parent_tree_grow:
  assumes "parent_tree deps start vs" "has_key vs p" "c \<in> set (deps p)" "\<not> has_key vs c"
  shows "parent_tree deps start (AList.update c (Some p) vs)"
proof -
  obtain j where j: "j < length vs" "fst (vs ! j) = p"
    using assms(2) by (auto simp: has_key_iff in_set_conv_nth)
  let ?vs = "vs @ [(c, Some p)]"
  have "\<exists>j < i. snd (?vs ! i) = Some (fst (?vs ! j)) \<and> fst (?vs ! i) \<in> set (deps (fst (?vs ! j)))"
    if i: "0 < i" "i < length ?vs" for i
  proof (cases "i = length vs")
    case True
    with j assms(3) show ?thesis by (intro exI [of _ j]) (simp add: nth_append)
  next
    case False
    then have "i < length vs" using i by simp
    then obtain j where "j < i" "snd (vs ! i) = Some (fst (vs ! j))" "fst (vs ! i) \<in> set (deps (fst (vs ! j)))"
      using parent_tree_entry [OF assms(1) i(1)] by metis
    with \<open>i < length vs\<close> show ?thesis by (intro exI [of _ j]) (simp add: nth_append)
  qed
  moreover have "dict_ok ?vs"
    using assms(1,4) dict_ok_update [of vs c "Some p"] by (simp add: parent_tree_def update_new)
  ultimately show ?thesis
    using assms by (auto simp: update_new parent_tree_def nth_append)
qed

lemma walk_back_path:
  assumes "parent_tree deps start vs" "i < length vs" "fst (vs ! i) = c" "i \<le> k"
  shows "\<exists>ws. walk_back k start vs c path = Some (start # ws @ rev path) \<and>
    last (start # ws) = c \<and> successively (\<lambda>a b. b \<in> set (deps a)) (start # ws)"
  using assms(2-)
proof (induction i arbitrary: c k path rule: less_induct)
  case (less i)
  show ?case
  proof (cases "c = start")
    case True
    then show ?thesis by (auto simp: walk_back.simps [of k])
  next
    case False
    then have "0 < i" using less.prems assms(1) by (cases i) (auto simp: parent_tree_def)
    then obtain j where j: "j < i" "snd (vs ! i) = Some (fst (vs ! j))" "c \<in> set (deps (fst (vs ! j)))"
      using parent_tree_entry [OF assms(1)] less.prems(1,2) by metis
    obtain k' where k: "k = Suc k'" "j \<le> k'" using less.prems(3) j(1) by (cases k) auto
    have "(c, Some (fst (vs ! j))) \<in> set vs"
      using less.prems(1,2) j(2) nth_mem [of i vs] by (cases "vs ! i") auto
    then have "map_of vs c = Some (Some (fst (vs ! j)))"
      using assms(1) by (simp add: parent_tree_def map_of_in_set)
    then have step: "walk_back k start vs c path = walk_back k' start vs (fst (vs ! j)) (path @ [c])"
      using False k by (subst walk_back.simps) simp
    from less.IH [OF j(1) _ refl k(2), of "path @ [c]"] j(1) less.prems(1) obtain ws where
      ws: "walk_back k' start vs (fst (vs ! j)) (path @ [c]) = Some (start # ws @ rev (path @ [c]))"
        "last (start # ws) = fst (vs ! j)" "successively (\<lambda>a b. b \<in> set (deps a)) (start # ws)"
      by auto
    have "successively (\<lambda>a b. b \<in> set (deps a)) ((start # ws) @ [c])"
      using ws(2,3) j(3) by (subst successively_append_iff) simp
    then show ?thesis using step ws(1) by (intro exI [of _ "ws @ [c]"]) simp
  qed
qed

lemma scan_spec:
  assumes "scan start current ns visited queue = (found, visited', queue')"
    and "parent_tree deps start visited" "has_key visited current" "set ns \<subseteq> set (deps current)"
  shows "parent_tree deps start visited' \<and>
    (\<forall>x. has_key visited' x \<longrightarrow> has_key visited x \<or> x \<in> fst ` set queue') \<and>
    (\<forall>x. has_key visited x \<longrightarrow> has_key visited' x) \<and>
    fst ` set queue \<subseteq> fst ` set queue' \<and>
    (\<forall>x \<in> fst ` set queue'. x \<in> fst ` set queue \<or> has_key visited' x) \<and>
    (found \<longrightarrow> start \<in> set ns) \<and>
    (\<not> found \<longrightarrow> start \<notin> set ns \<and> (\<forall>n \<in> set ns. has_key visited' n))"
  using assms
proof (induction ns arbitrary: visited queue)
  case Nil
  then show ?case by auto
next
  case (Cons n ns)
  consider "n = start" | "n \<noteq> start" "has_key visited n" | "n \<noteq> start" "\<not> has_key visited n" by blast
  then show ?case
  proof cases
    case 1
    with Cons.prems show ?thesis by auto
  next
    case 2
    with Cons show ?thesis by auto
  next
    case 3
    let ?v = "AList.update n (Some current) visited"
    have "parent_tree deps start ?v" using parent_tree_grow Cons.prems 3 by simp
    then show ?thesis
      using Cons.IH [of ?v "queue @ [(n, Some current)]"] Cons.prems 3 by auto
  qed
qed

text \<open>A closed walk in the dependency graph from \<open>start\<close> back to itself.\<close>

definition cycle_path :: "(string \<Rightarrow> string list) \<Rightarrow> string \<Rightarrow> string list \<Rightarrow> bool" where
  "cycle_path deps start path \<longleftrightarrow>
     (\<exists>ws. path = start # ws @ [start] \<and> successively (\<lambda>a b. b \<in> set (deps a)) path)"

definition search_inv :: "(string \<Rightarrow> string list) \<Rightarrow> string \<Rightarrow> parents \<Rightarrow> (string \<times> string option) list \<Rightarrow> bool" where
  "search_inv deps start visited queue \<longleftrightarrow> parent_tree deps start visited \<and>
     (\<forall>x \<in> fst ` set queue. has_key visited x) \<and>
     (\<forall>v. has_key visited v \<longrightarrow> v \<notin> fst ` set queue \<longrightarrow>
        start \<notin> set (deps v) \<and> (\<forall>d \<in> set (deps v). has_key visited d))"

text \<open>The search continues: what was looked at is closed, up to the nodes that wait in the queue.\<close>

lemma search_inv_step:
  assumes inv: "search_inv deps start visited ((current, parent) # queue)"
    and spec: "scan start current (deps current) visited queue = (False, visited', queue')"
  shows "search_inv deps start visited' queue'"
proof -
  have pre: "parent_tree deps start visited" "has_key visited current"
    using inv by (auto simp: search_inv_def)
  note spec = scan_spec [OF spec pre order.refl]
  show ?thesis
    unfolding search_inv_def
  proof (intro conjI allI impI)
    show "parent_tree deps start visited'" using spec by blast
    show "\<forall>x \<in> fst ` set queue'. has_key visited' x"
    proof
      fix x
      assume "x \<in> fst ` set queue'"
      then have "x \<in> fst ` set queue \<or> has_key visited' x" using spec by blast
      moreover have "\<forall>x \<in> fst ` set queue. has_key visited x" using inv by (simp add: search_inv_def)
      ultimately show "has_key visited' x" using spec by blast
    qed
    fix v
    assume v: "has_key visited' v" "v \<notin> fst ` set queue'"
    then have "has_key visited v" using spec by blast
    moreover have "v \<notin> fst ` set queue" using v(2) spec by blast
    ultimately have "v = current \<or> start \<notin> set (deps v) \<and> (\<forall>d \<in> set (deps v). has_key visited d)"
      using inv by (auto simp: search_inv_def)
    then have *: "start \<notin> set (deps v) \<and> (\<forall>d \<in> set (deps v). has_key visited' d)"
      using spec by blast
    show "start \<notin> set (deps v)" using * by blast
    show "\<forall>d \<in> set (deps v). has_key visited' d" using * by blast
  qed
qed

lemma bfs_spec:
  assumes "search_inv (dd_get r) start visited queue"
  shows "\<exists>r' path. bfs start r visited queue = (r', Some path) \<and> dd_get r' = dd_get r \<and>
    (cycle_path (dd_get r) start path \<or>
     path = [] \<and> (\<exists>C. start \<in> C \<and> (\<forall>v \<in> C. set (dd_get r v) \<subseteq> C - {start})))"
  using assms
proof (induction start r visited queue rule: bfs.induct)
  case (1 start r visited)
  have "\<exists>C. start \<in> C \<and> (\<forall>v \<in> C. set (dd_get r v) \<subseteq> C - {start})"
  proof (intro exI conjI ballI)
    show "start \<in> Collect (has_key visited)"
      using 1 parent_tree_start by (auto simp: search_inv_def)
    fix v
    assume "v \<in> Collect (has_key visited)"
    then show "set (dd_get r v) \<subseteq> Collect (has_key visited) - {start}"
      using 1 by (auto simp: search_inv_def)
  qed
  then show ?case by simp
next
  case (2 start r visited current parent queue)
  obtain found visited' queue' where
    s: "scan start current (dd_get r current) visited queue = (found, visited', queue')"
    using prod_cases3 by blast
  have inv: "parent_tree (dd_get r) start visited" "has_key visited current"
    using 2(2) by (auto simp: search_inv_def)
  note spec = scan_spec [OF s inv order.refl]
  show ?case
  proof (cases found)
    case True
    have "has_key visited' current" using spec inv by blast
    then obtain i where i: "i < length visited'" "fst (visited' ! i) = current"
      by (auto simp: has_key_iff in_set_conv_nth)
    from walk_back_path [of "dd_get r" start visited' i current "length visited'" "[start]"] i spec
    obtain ws where ws: "walk_back (length visited') start visited' current [start] = Some (start # ws @ [start])"
      "last (start # ws) = current" "successively (\<lambda>a b. b \<in> set (dd_get r a)) (start # ws)"
      by auto
    have "start \<in> set (dd_get r current)" using spec True by blast
    then have "successively (\<lambda>a b. b \<in> set (dd_get r a)) ((start # ws) @ [start])"
      using ws(2,3) by (subst successively_append_iff) simp
    then have "cycle_path (dd_get r) start (start # ws @ [start])" by (simp add: cycle_path_def)
    then show ?thesis using s True ws(1) by simp
  next
    case False
    have "search_inv (dd_get r) start visited' queue'"
      by (rule search_inv_step [OF 2(2)]) (use s False in simp)
    then show ?thesis using 2(1) [OF s [symmetric] refl refl] s False by simp
  qed
qed

text \<open>
  The path always exists, and when the start node is on a cycle it is a cycle through it. So the
  empty list at the end of the function, which \<open>should not\<close> be reached, is not.
\<close>

lemma find_cycle_path_spec:
  obtains r' path where "find_cycle_path start r = (r', Some path)" "dd_get r' = dd_get r"
    "(start, start) \<in> (dep_edges (dd_get r) UNIV)\<^sup>+ \<Longrightarrow> cycle_path (dd_get r) start path"
proof -
  have "search_inv (dd_get r) start [(start, None)] [(start, None)]"
    by (simp add: search_inv_def parent_tree_root)
  from bfs_spec [OF this] obtain r' path where
    b: "find_cycle_path start r = (r', Some path)" "dd_get r' = dd_get r"
    and or: "cycle_path (dd_get r) start path \<or>
      (\<exists>C. start \<in> C \<and> (\<forall>v \<in> C. set (dd_get r v) \<subseteq> C - {start}))"
    by (auto simp: find_cycle_path_def)
  have "cycle_path (dd_get r) start path" if "(start, start) \<in> (dep_edges (dd_get r) UNIV)\<^sup>+"
    using or
  proof (elim disjE exE conjE)
    fix C
    assume C: "start \<in> C" "\<forall>v \<in> C. set (dd_get r v) \<subseteq> C - {start}"
    have "y \<in> C - {start}" if "(start, y) \<in> (dep_edges (dd_get r) UNIV)\<^sup>+" for y
      using that C by (induction rule: trancl_induct) auto
    with that show ?thesis by blast
  qed
  with b show ?thesis using that by blast
qed

section \<open>The cycle check\<close>

record dfs_state =
  rev_list :: adjacency
  visited :: "string set"
  temp_stack :: "string set"

definition enter :: "string \<Rightarrow> dfs_state \<Rightarrow> dfs_state" where
  "enter nid s = s\<lparr>temp_stack := insert nid (temp_stack s), visited := insert nid (visited s),
     rev_list := dd_touch nid (rev_list s)\<rparr>"

definition leave :: "string \<Rightarrow> dfs_state \<Rightarrow> dfs_state" where
  "leave nid s = s\<lparr>temp_stack := temp_stack s - {nid}\<rparr>"

definition cyclic_dependency :: "string list \<Rightarrow> exn" where
  "cyclic_dependency path =
     exn_of CyclicDependencyError (''Cyclic dependency detected: '' @ join '' -> '' path)"

text \<open>A search for the path that never returned would be the last branch of the first test.\<close>

fun dfs_detect_cycle :: "nat \<Rightarrow> string \<Rightarrow> dfs_state \<Rightarrow> (dfs_state, exn, unit) outcome" where
  "dfs_detect_cycle 0 nid s = (s, raises RecursionError ''maximum recursion depth exceeded'')"
| "dfs_detect_cycle (Suc k) nid s =
     (if nid \<in> temp_stack s
      then (case find_cycle_path nid (rev_list s) of
              (r, Some path) \<Rightarrow> (s\<lparr>rev_list := r\<rparr>, Inl (cyclic_dependency path))
            | (r, None) \<Rightarrow> (s\<lparr>rev_list := r\<rparr>, raises OtherError ''no path''))
      else if nid \<in> visited s then (s, Inr ())
      else and_then (each (dfs_detect_cycle k) (dd_get (rev_list s) nid) (enter nid s))
             (\<lambda>_ t. (leave nid t, Inr ())))"

definition visit_unseen :: "nat \<Rightarrow> string \<Rightarrow> dfs_state \<Rightarrow> (dfs_state, exn, unit) outcome" where
  "visit_unseen k nid s = (if nid \<in> visited s then (s, Inr ()) else dfs_detect_cycle k nid s)"

definition verify_acyclic :: "nat \<Rightarrow> 'v dag \<Rightarrow> ('v dag, exn, bool) outcome" where
  "verify_acyclic k d =
     (case each (visit_unseen k) (map fst (dag_nodes d))
        \<lparr>rev_list = reverse_adjacency_list d, visited = {}, temp_stack = {}\<rparr> of
        (s, Inl e) \<Rightarrow> (d\<lparr>reverse_adjacency_list := rev_list s\<rparr>, Inl e)
      | (s, Inr _) \<Rightarrow> (d\<lparr>reverse_adjacency_list := rev_list s, verified := True\<rparr>, Inr True))"

definition build_dag :: "nat \<Rightarrow> 'v data_node list \<Rightarrow> ('v dag, exn, unit) outcome" where
  "build_dag k nodes = and_then (verify_acyclic k (fold add_node nodes reset)) (\<lambda>_ d. (d, Inr ()))"

section \<open>The topological order\<close>

text \<open>The loop over the dependents of a node that was taken from the queue.\<close>

fun relax :: "string list \<Rightarrow> (string, int) dict \<Rightarrow> string list
    \<Rightarrow> ((string, int) dict \<times> string list) res" where
  "relax [] in_degree queue = Inr (in_degree, queue)"
| "relax (n # ns) in_degree queue =
     (case map_of in_degree n of
        None \<Rightarrow> raises KeyError n
      | Some v \<Rightarrow>
          relax ns (AList.update n (v - 1) in_degree)
            (if v - 1 = 0 then queue @ [n] else queue))"

definition positive :: "(string, int) dict \<Rightarrow> nat" where
  "positive d = card {n. \<exists>v. map_of d n = Some v \<and> 0 < v}"

lemma positive_relax:
  assumes "relax ns ind queue = Inr (ind', queue')"
  shows "positive ind' + length queue' \<le> positive ind + length queue"
  using assms
proof (induction ns arbitrary: ind queue)
  case Nil
  then show ?case by simp
next
  case (Cons n ns)
  then obtain v where v: "map_of ind n = Some v" by (auto split: option.splits)
  let ?ind = "AList.update n (v - 1) ind"
  let ?P = "{n. \<exists>v. map_of ind n = Some v \<and> 0 < v}" and ?P' = "{n. \<exists>v. map_of ?ind n = Some v \<and> 0 < v}"
  have fin: "finite ?P" by (rule finite_subset [of _ "dom (map_of ind)"]) (auto simp: finite_dom_map_of)
  have one: "Suc (positive ?ind) = positive ind" if "v = 1"
  proof -
    have P': "?P' = ?P - {n}" and n: "n \<in> ?P" using v that by auto
    show ?thesis unfolding positive_def P' by (rule card_Suc_Diff1 [OF fin n])
  qed
  have rest: "positive ?ind \<le> positive ind"
  proof -
    have "?P' \<subseteq> ?P" using v by (auto split: if_splits)
    from card_mono [OF fin this] show ?thesis unfolding positive_def .
  qed
  show ?case
  proof (cases "v = 1")
    case True
    with Cons.IH [of ?ind "queue @ [n]"] Cons.prems v one show ?thesis by simp
  next
    case False
    with Cons.IH [of ?ind queue] Cons.prems v rest show ?thesis by simp
  qed
qed

function kahn :: "adjacency \<Rightarrow> (string, int) dict \<Rightarrow> string list \<Rightarrow> string list
    \<Rightarrow> adjacency \<times> string list res" where
  "kahn adj ind [] order = (adj, Inr order)"
| "kahn adj ind (current # queue) order =
     (case relax (dd_get adj current) ind queue of
        Inl e \<Rightarrow> (dd_touch current adj, Inl e)
      | Inr (ind', queue') \<Rightarrow> kahn (dd_touch current adj) ind' queue' (order @ [current]))"
  by pat_completeness auto
termination
proof (relation "measure (\<lambda>(_, ind, queue, _). positive ind + length queue)", simp)
  fix adj :: adjacency and ind current queue order x ind' queue'
  assume "relax (dd_get adj current) ind queue = Inr x" "(ind', queue') = x"
  then show "((dd_touch current adj, ind', queue', order @ [current]), adj, ind, current # queue, order)
    \<in> measure (\<lambda>(_, ind, queue, _). positive ind + length queue)"
    using positive_relax [of "dd_get adj current" ind queue ind' queue'] by auto
qed

text \<open>
  The in-degrees: one per dependency of the node. The list of a node is read, and so inserted,
  when it was missing.
\<close>

fun count_deps :: "string \<Rightarrow> string list \<Rightarrow> (string, int) dict \<Rightarrow> (string, int) dict" where
  "count_deps n [] in_degree = in_degree"
| "count_deps n (dep # deps) in_degree =
     count_deps n deps (AList.update n (the (map_of in_degree n) + 1) in_degree)"

definition in_degrees :: "'v dag \<Rightarrow> (string, int) dict" where
  "in_degrees d =
     fold (\<lambda>n. count_deps n (dd_get (reverse_adjacency_list d) n)) (map fst (dag_nodes d))
       (map (\<lambda>n. (n, 0)) (map fst (dag_nodes d)))"

definition kahn_order :: "'v dag \<Rightarrow> ('v dag, exn, string list) outcome" where
  "kahn_order d =
     (let ind = in_degrees d;
          d1 = d\<lparr>reverse_adjacency_list := fold dd_touch (map fst (dag_nodes d)) (reverse_adjacency_list d)\<rparr>
      in case kahn (adjacency_list d) ind (map fst (filter (\<lambda>(_, v). v = 0) ind)) [] of
           (adj, Inl e) \<Rightarrow> (d1\<lparr>adjacency_list := adj\<rparr>, Inl e)
         | (adj, Inr order) \<Rightarrow>
             (d1\<lparr>adjacency_list := adj\<rparr>,
              if length order \<noteq> length (dag_nodes d)
              then raises CyclicDependencyError ''DAG contains a cycle''
              else Inr order))"

definition get_topological_order :: "nat \<Rightarrow> 'v dag \<Rightarrow> ('v dag, exn, string list) outcome" where
  "get_topological_order k d =
     and_then (if \<not> verified d then verify_acyclic k d else (d, Inr True)) (\<lambda>_. kahn_order)"

definition get_topological_sort_result :: "nat \<Rightarrow> 'v dag \<Rightarrow> ('v dag, exn, 'v topo_sort_result) outcome" where
  "get_topological_sort_result k d =
     and_then (get_topological_order k d) (\<lambda>order d.
       case those (map (\<lambda>n. map_option (Pair n) (map_of (dag_nodes d) n)) order) of
         None \<Rightarrow> (d, raises KeyError ''node_id'')
       | Some node_map \<Rightarrow> (d, Inr \<lparr>tsr_order = order, tsr_node_map = node_map\<rparr>))"

section \<open>Queries\<close>

definition get_root_nodes :: "'v dag \<Rightarrow> string list" where
  "get_root_nodes d = map fst (filter (\<lambda>(_, deps). deps = []) (reverse_adjacency_list d))"

definition get_leaf_nodes :: "'v dag \<Rightarrow> string list" where
  "get_leaf_nodes d = map fst (filter (\<lambda>(_, deps). deps = []) (adjacency_list d))"

definition get_node :: "'v dag \<Rightarrow> string \<Rightarrow> 'v data_node option" where
  "get_node d nid = map_of (dag_nodes d) nid"

definition get_all_nodes :: "'v dag \<Rightarrow> 'v data_node list" where
  "get_all_nodes d = map snd (dag_nodes d)"

definition get_dependencies :: "'v dag \<Rightarrow> string \<Rightarrow> 'v data_node list" where
  "get_dependencies d nid =
     (if \<not> has_key (reverse_adjacency_list d) nid then []
      else List.map_filter (map_of (dag_nodes d)) (dd_get (reverse_adjacency_list d) nid))"

definition get_dependents :: "'v dag \<Rightarrow> string \<Rightarrow> 'v data_node list" where
  "get_dependents d nid =
     (if \<not> has_key (adjacency_list d) nid then []
      else List.map_filter (map_of (dag_nodes d)) (dd_get (adjacency_list d) nid))"

section \<open>What building the graph records\<close>

lemma add_edges_frame:
  "dag_nodes (add_edges nid deps d) = dag_nodes d"
  "verified (add_edges nid deps d) = verified d"
  by (induction nid deps d rule: add_edges.induct) simp_all

lemma add_edges_reverse:
  "dd_get (reverse_adjacency_list (add_edges nid deps d)) m =
     dd_get (reverse_adjacency_list d) m @ (if m = nid then deps else [])"
  by (induction nid deps d rule: add_edges.induct) simp_all

lemma add_edges_adjacency:
  "dd_get (adjacency_list (add_edges nid deps d)) m =
     dd_get (adjacency_list d) m @ replicate (count_list deps m) nid"
  by (induction nid deps d rule: add_edges.induct) simp_all

lemma add_edges_keys:
  "has_key (reverse_adjacency_list (add_edges nid deps d)) m \<longleftrightarrow>
     has_key (reverse_adjacency_list d) m \<or> m = nid \<and> deps \<noteq> []"
  "has_key (adjacency_list (add_edges nid deps d)) m \<longleftrightarrow>
     has_key (adjacency_list d) m \<or> m \<in> set deps"
  by (induction nid deps d rule: add_edges.induct) auto

lemma add_edges_dict_ok:
  "dict_ok (reverse_adjacency_list d) \<Longrightarrow> dict_ok (reverse_adjacency_list (add_edges nid deps d))"
  "dict_ok (adjacency_list d) \<Longrightarrow> dict_ok (adjacency_list (add_edges nid deps d))"
  by (induction nid deps d rule: add_edges.induct) simp_all

lemmas add_edges_spec =
  add_edges_frame add_edges_reverse add_edges_adjacency add_edges_keys add_edges_dict_ok

text \<open>The dependencies a list of nodes declares, by node id.\<close>

definition node_deps :: "'v data_node list \<Rightarrow> string \<Rightarrow> string list" where
  "node_deps ns = dd_get (map (\<lambda>n. (node_id n, dependencies n)) ns)"

definition ids :: "'v data_node list \<Rightarrow> string list" where
  "ids ns = map node_id ns"

lemma node_deps_in: "distinct (ids ns) \<Longrightarrow> n \<in> set ns \<Longrightarrow> node_deps ns (node_id n) = dependencies n"
  by (induction ns) (auto simp: node_deps_def ids_def dd_get_def image_iff)

lemma node_deps_out: "n \<notin> set (ids ns) \<Longrightarrow> node_deps ns n = []"
  by (induction ns) (auto simp: node_deps_def ids_def dd_get_def)

lemma node_deps_snoc:
  "node_id n \<notin> set (ids ns) \<Longrightarrow>
    node_deps (ns @ [n]) m = (if m = node_id n then dependencies n else node_deps ns m)"
  by (induction ns) (auto simp: node_deps_def ids_def dd_get_def)

text \<open>The adjacency list in terms of the nodes: one entry per dependency, in the order of the nodes.\<close>

definition node_users :: "'v data_node list \<Rightarrow> string \<Rightarrow> string list" where
  "node_users ns m = concat (map (\<lambda>n. replicate (count_list (dependencies n) m) (node_id n)) ns)"

definition built :: "'v data_node list \<Rightarrow> 'v dag" where
  "built ns = fold add_node ns reset"

lemma built_spec:
  assumes "distinct (ids ns)"
  shows "dag_nodes (built ns) = map (\<lambda>n. (node_id n, n)) ns \<and> \<not> verified (built ns) \<and>
    dd_get (reverse_adjacency_list (built ns)) = node_deps ns \<and>
    dd_get (adjacency_list (built ns)) = node_users ns \<and>
    (\<forall>m. has_key (reverse_adjacency_list (built ns)) m \<longleftrightarrow> m \<in> set (ids ns)) \<and>
    (\<forall>m. has_key (adjacency_list (built ns)) m \<longleftrightarrow>
       m \<in> set (ids ns) \<or> (\<exists>n \<in> set ns. m \<in> set (dependencies n))) \<and>
    dict_ok (reverse_adjacency_list (built ns)) \<and> dict_ok (adjacency_list (built ns))"
  using assms
proof (induction ns rule: rev_induct)
  case Nil
  show ?case
    by (auto simp: built_def reset_def node_deps_def node_users_def ids_def)
next
  case (snoc n ns)
  let ?d = "built ns"
  have new: "node_id n \<notin> set (ids ns)" and dist: "distinct (ids ns)"
    using snoc.prems by (auto simp: ids_def)
  note IH = snoc.IH [OF dist]
  have b: "built (ns @ [n]) = add_node n ?d" by (simp add: built_def)
  have nodes: "AList.update (node_id n) n (dag_nodes ?d) = map (\<lambda>n. (node_id n, n)) (ns @ [n])"
    using IH new by (subst update_new) (auto simp: has_key_iff ids_def)
  have empty: "node_deps ns (node_id n) = []" using new by (rule node_deps_out)
  have r: "dd_get (reverse_adjacency_list (add_node n ?d)) m = node_deps (ns @ [n]) m" for m
    using IH empty by (auto simp: add_node_def Let_def add_edges_spec node_deps_snoc [OF new])
  have a: "dd_get (adjacency_list (add_node n ?d)) m = node_users (ns @ [n]) m" for m
    using IH by (auto simp: add_node_def Let_def add_edges_spec node_users_def dd_get_not_key)
  show ?case
    using IH nodes r a unfolding b
    by (auto simp: add_node_def Let_def add_edges_spec ids_def)
qed

lemma count_node_users:
  assumes "distinct (ids ns)"
  shows "count_list (node_users ns m) n = count_list (node_deps ns n) m"
  using assms
proof (induction ns rule: rev_induct)
  case Nil
  show ?case by (simp add: node_users_def node_deps_def)
next
  case (snoc x ns)
  have new: "node_id x \<notin> set (ids ns)" and dist: "distinct (ids ns)"
    using snoc.prems by (auto simp: ids_def)
  have rep: "count_list (replicate k y) n = (if y = n then k else 0)" for k and y :: string
    by (induction k) auto
  have "count_list (node_users (ns @ [x]) m) n =
      count_list (node_users ns m) n + (if node_id x = n then count_list (dependencies x) m else 0)"
    by (simp add: node_users_def rep)
  moreover have "count_list (node_users ns m) n = 0" if "node_id x = n"
    using snoc.IH [OF dist] node_deps_out [OF new] that by simp
  ultimately show ?case
    using snoc.IH [OF dist] by (cases "n = node_id x") (auto simp: node_deps_snoc [OF new])
qed

lemma set_node_users:
  "distinct (ids ns) \<Longrightarrow> set (node_users ns m) = {n. m \<in> set (node_deps ns n)}"
proof -
  assume "distinct (ids ns)"
  then have "n \<in> set (node_users ns m) \<longleftrightarrow> m \<in> set (node_deps ns n)" for n
    using count_node_users [of ns m n] count_list_0_iff [of "node_users ns m" n]
      count_list_0_iff [of "node_deps ns n" m] by simp
  then show ?thesis by auto
qed

section \<open>The cycle check decides acyclicity\<close>

text \<open>
  The bookkeeping of the search: the lists it reads are the dependencies \<open>deps\<close>, and the keys of
  the reverse adjacency list are the ones it started with and the nodes it entered.
\<close>

definition dfs_inv :: "(string \<Rightarrow> string list) \<Rightarrow> string set \<Rightarrow> dfs_state \<Rightarrow> bool" where
  "dfs_inv deps keys s \<longleftrightarrow> dd_get (rev_list s) = deps \<and> dict_ok (rev_list s) \<and>
     (\<forall>m. has_key (rev_list s) m \<longleftrightarrow> m \<in> keys \<or> m \<in> visited s) \<and> temp_stack s \<subseteq> visited s"

definition finished :: "dfs_state \<Rightarrow> string set" where
  "finished s = visited s - temp_stack s"

definition is_cyclic :: "exn \<Rightarrow> bool" where
  "is_cyclic e \<longleftrightarrow> ex_class e = CyclicDependencyError"

lemma on_stack_raises:
  assumes "nid \<in> temp_stack s"
  obtains t path where "dfs_detect_cycle (Suc k) nid s = (t, Inl (cyclic_dependency path))"
    "(nid, nid) \<in> (dep_edges (dd_get (rev_list s)) UNIV)\<^sup>+ \<Longrightarrow> cycle_path (dd_get (rev_list s)) nid path"
proof -
  obtain r path where r: "find_cycle_path nid (rev_list s) = (r, Some path)"
    and path: "(nid, nid) \<in> (dep_edges (dd_get (rev_list s)) UNIV)\<^sup>+ \<Longrightarrow> cycle_path (dd_get (rev_list s)) nid path"
    using find_cycle_path_spec by metis
  have "dfs_detect_cycle (Suc k) nid s = (s\<lparr>rev_list := r\<rparr>, Inl (cyclic_dependency path))"
    using assms r by simp
  then show ?thesis using that path by blast
qed

interpretation dag_dfs: dfs_search deps "\<lambda>_. True" "dfs_inv deps keys" temp_stack finished enter leave
  is_cyclic "\<lambda>n s. n \<in> visited s" dfs_detect_cycle
  for deps keys
proof (unfold_locales, goal_cases)
  case (2 n s)
  then show ?case by (simp add: is_cyclic_def)
next
  case (4 s n k)
  show ?case
    using on_stack_raises [OF 4(2), of k] by (metis cyclic_dependency_def exn_of_simps(1) is_cyclic_def)
next
  case (9 s n)
  then show ?case by (simp add: finished_def)
qed (auto simp: dfs_inv_def finished_def enter_def leave_def)

lemma visit_unseen_drive: "visit_unseen = dag_dfs.drive"
  by (intro ext) (simp add: visit_unseen_def dag_dfs.drive_def)

definition all_ids :: "'v data_node list \<Rightarrow> string set" where
  "all_ids ns = set (ids ns) \<union> (\<Union>n \<in> set ns. set (dependencies n))"

lemma finite_all_ids [simp]: "finite (all_ids ns)"
  by (simp add: all_ids_def)

lemma node_deps_all_ids: "set (node_deps ns m) \<subseteq> all_ids ns"
proof
  fix d
  assume "d \<in> set (node_deps ns m)"
  then have "\<exists>n \<in> set ns. d \<in> set (dependencies n)"
    by (cases "map_of (map (\<lambda>n. (node_id n, dependencies n)) ns) m")
      (auto simp: node_deps_def dd_get_def dest!: map_of_SomeD)
  then show "d \<in> all_ids ns" by (auto simp: all_ids_def)
qed

definition node_edges :: "'v data_node list \<Rightarrow> (string \<times> string) set" where
  "node_edges ns = dep_edges (node_deps ns) UNIV"

lemma cycle_path_trancl:
  assumes "cycle_path deps start path"
  shows "(start, start) \<in> (dep_edges deps UNIV)\<^sup>+"
proof -
  have chain: "(hd (x # xs), last (x # xs)) \<in> (dep_edges deps UNIV)\<^sup>*"
    if "successively (\<lambda>a b. b \<in> set (deps a)) (x # xs)" for x xs
    using that by (induction xs arbitrary: x) (auto intro: converse_rtrancl_into_rtrancl)
  from assms obtain ws where "successively (\<lambda>a b. b \<in> set (deps a)) (start # ws @ [start])"
    by (auto simp: cycle_path_def)
  moreover obtain y ys where ws: "ws @ [start] = y # ys" by (cases "ws @ [start]") auto
  ultimately have "y \<in> set (deps start)" "successively (\<lambda>a b. b \<in> set (deps a)) (y # ys)" by auto
  moreover have "last (y # ys) = start" using ws by (metis last_snoc)
  ultimately show ?thesis using chain [of y ys] by (auto intro: rtrancl_into_trancl2)
qed

text \<open>A search over all nodes visits them and what they depend on.\<close>

lemma search_visits:
  assumes "set ns \<subseteq> visited t" "\<And>m. m \<in> visited t \<Longrightarrow> set (deps m) \<subseteq> visited t"
    and "visited t \<subseteq> dag_dfs.reach deps (set ns)" "\<forall>m. deps m \<noteq> [] \<longrightarrow> m \<in> set ns"
  shows "visited t = set ns \<union> (\<Union>n \<in> set ns. set (deps n))"
proof
  have "y \<in> set ns \<union> (\<Union>n \<in> set ns. set (deps n))"
    if "(x, y) \<in> (dep_edges deps UNIV)\<^sup>*" "x \<in> set ns" for x y
    using that assms(4) by (induction rule: rtrancl_induct) force+
  then have "dag_dfs.reach deps (set ns) \<subseteq> set ns \<union> (\<Union>n \<in> set ns. set (deps n))"
    by (auto simp: dag_dfs.reach_def)
  then show "visited t \<subseteq> set ns \<union> (\<Union>n \<in> set ns. set (deps n))" using assms(3) by blast
  show "set ns \<union> (\<Union>n \<in> set ns. set (deps n)) \<subseteq> visited t" using assms(1,2) by blast
qed

lemma edges_of_visited:
  assumes "set ns \<subseteq> V" "\<forall>m. deps m \<noteq> [] \<longrightarrow> m \<in> set ns"
  shows "dep_edges deps UNIV \<subseteq> dep_edges deps V"
proof
  fix e assume "e \<in> dep_edges deps UNIV"
  then obtain a b where e: "e = (a, b)" "b \<in> set (deps a)" by (auto simp: dep_edges_def)
  then have "deps a \<noteq> []" by auto
  then have "a \<in> V" using assms by blast
  with e show "e \<in> dep_edges deps V" by (simp add: dep_edges_def)
qed

lemma verify_acyclic_spec:
  assumes "dd_get (reverse_adjacency_list d) = deps" "dict_ok (reverse_adjacency_list d)"
    and "finite V" "\<And>m. m \<in> V \<Longrightarrow> set (deps m) \<subseteq> V" "card V < k"
    and "set (map fst (dag_nodes d)) \<subseteq> V" "\<forall>m. deps m \<noteq> [] \<longrightarrow> m \<in> set (map fst (dag_nodes d))"
  shows "(acyclic (dep_edges deps UNIV) \<and>
      (\<exists>r. verify_acyclic k d = (d\<lparr>reverse_adjacency_list := r, verified := True\<rparr>, Inr True) \<and>
        dd_get r = deps \<and> dict_ok r \<and>
        (\<forall>m. has_key r m \<longleftrightarrow> has_key (reverse_adjacency_list d) m \<or> m \<in> set (map fst (dag_nodes d)) \<or>
           (\<exists>n \<in> set (map fst (dag_nodes d)). m \<in> set (deps n)))))
    \<or> (\<not> acyclic (dep_edges deps UNIV) \<and>
      (\<exists>r start path. verify_acyclic k d = (d\<lparr>reverse_adjacency_list := r\<rparr>, Inl (cyclic_dependency path)) \<and>
        cycle_path deps start path))"
proof -
  let ?keys = "Collect (has_key (reverse_adjacency_list d))"
  let ?s = "\<lparr>rev_list = reverse_adjacency_list d, visited = {}, temp_stack = {}\<rparr>"
  let ?ns = "map fst (dag_nodes d)"
  have inv: "dfs_inv deps ?keys ?s" and grey: "temp_stack ?s = {}" and black: "finished ?s = {}"
    using assms(1,2) by (auto simp: dfs_inv_def finished_def)
  obtain t r where run: "each (visit_unseen k) ?ns ?s = (t, r)" by fastforce
  show ?thesis
  proof (cases r)
    case (Inl e)
    then have loop: "each (dag_dfs.drive k) ?ns ?s = (t, Inl e)" using run visit_unseen_drive by simp
    have cyc: "is_cyclic e"
      by (rule dag_dfs.drive_enough [OF assms(3) _ assms(5,6) inv grey loop]) (use assms(4) in simp)
    from dag_dfs.drive_cycle_at [OF loop cyc inv grey] obtain j m u where
      u: "dfs_inv deps ?keys u" "m \<in> temp_stack u" "(m, m) \<in> (dep_edges deps UNIV)\<^sup>+"
        "dfs_detect_cycle (Suc j) m u = (t, Inl e)" by auto
    from u(1) have "dd_get (rev_list u) = deps" by (simp add: dfs_inv_def)
    with on_stack_raises [OF u(2), of j] u(3,4) obtain path where
      "e = cyclic_dependency path" "cycle_path deps m path" by (metis Inl_inject prod.inject)
    moreover have "\<not> acyclic (dep_edges deps UNIV)" using u(3) by (auto simp: acyclic_def)
    ultimately show ?thesis using run Inl by (auto simp: verify_acyclic_def)
  next
    case (Inr x)
    then have loop: "each (dag_dfs.drive k) ?ns ?s = (t, Inr ())" using run visit_unseen_drive by simp
    note g = dag_dfs.drive_grown [OF loop inv grey, unfolded dag_dfs.grown_def]
    note a = dag_dfs.drive_acyclic [OF loop inv grey black]
    have t: "dfs_inv deps ?keys t" "temp_stack t = {}" "set ?ns \<subseteq> visited t"
      and closed: "\<And>m. m \<in> visited t \<Longrightarrow> set (deps m) \<subseteq> visited t"
      using g grey a by (auto simp: finished_def)
    have "dep_edges deps UNIV \<subseteq> dep_edges deps (visited t)" by (rule edges_of_visited [OF t(3) assms(7)])
    moreover have "acyclic (dep_edges deps (visited t))" using a t(2) by (simp add: finished_def)
    ultimately have "acyclic (dep_edges deps UNIV)" by (rule acyclic_subset [rotated])
    moreover have "visited t = set ?ns \<union> (\<Union>n \<in> set ?ns. set (deps n))"
      by (rule search_visits [OF t(3) closed _ assms(7)]) (use g t(2) black in \<open>auto simp: finished_def\<close>)
    ultimately show ?thesis
      using run Inr t by (auto simp: verify_acyclic_def dfs_inv_def)
  qed
qed

section \<open>Kahn's algorithm\<close>

lemma relax_spec:
  assumes "\<forall>n \<in> set ns. has_key ind n"
  shows "\<exists>ind' new. relax ns ind queue = Inr (ind', queue @ new) \<and>
    (\<forall>n. map_of ind' n = map_option (\<lambda>v. v - int (count_list ns n)) (map_of ind n)) \<and>
    distinct new \<and> set new = {n. \<exists>v. map_of ind n = Some v \<and> 0 < v \<and> v \<le> int (count_list ns n)}"
  using assms
proof (induction ns arbitrary: ind queue)
  case Nil
  then show ?case by (auto simp: option.map_ident)
next
  case (Cons n ns)
  then obtain v where v: "map_of ind n = Some v" by (auto simp: has_key_def)
  let ?ind = "AList.update n (v - 1) ind"
  have keys: "\<forall>n \<in> set ns. has_key ?ind n" using Cons.prems by simp
  have count: "map_option (\<lambda>v. v - int (count_list ns m)) (map_of ?ind m) =
      map_option (\<lambda>v. v - int (count_list (n # ns) m)) (map_of ind m)" for m
    using v by (auto simp: option.map_comp)
  show ?case
  proof (cases "v = 1")
    case True
    from Cons.IH [OF keys, of "queue @ [n]"] obtain ind' new where
      IH: "relax ns ?ind (queue @ [n]) = Inr (ind', (queue @ [n]) @ new)"
        "\<forall>m. map_of ind' m = map_option (\<lambda>v. v - int (count_list ns m)) (map_of ?ind m)"
        "distinct new" "set new = {m. \<exists>v. map_of ?ind m = Some v \<and> 0 < v \<and> v \<le> int (count_list ns m)}"
      by blast
    have "distinct (n # new)" using IH(3,4) True by simp
    moreover have "set (n # new) = {m. \<exists>w. map_of ind m = Some w \<and> 0 < w \<and> w \<le> int (count_list (n # ns) m)}"
      using IH(4) True v by (auto split: if_splits)
    moreover have "relax (n # ns) ind queue = Inr (ind', queue @ (n # new))"
      using IH(1) v True by simp
    moreover have "\<forall>m. map_of ind' m = map_option (\<lambda>v. v - int (count_list (n # ns) m)) (map_of ind m)"
      using IH(2) unfolding count .
    ultimately show ?thesis by (intro exI [of _ ind'] exI [of _ "n # new"] conjI) assumption+
  next
    case False
    from Cons.IH [OF keys, of queue] obtain ind' new where
      IH: "relax ns ?ind queue = Inr (ind', queue @ new)"
        "\<forall>m. map_of ind' m = map_option (\<lambda>v. v - int (count_list ns m)) (map_of ?ind m)"
        "distinct new" "set new = {m. \<exists>v. map_of ?ind m = Some v \<and> 0 < v \<and> v \<le> int (count_list ns m)}"
      by blast
    have "set new = {m. \<exists>w. map_of ind m = Some w \<and> 0 < w \<and> w \<le> int (count_list (n # ns) m)}"
      unfolding IH(4)
    proof (intro Collect_cong)
      fix m
      show "(\<exists>w. map_of ?ind m = Some w \<and> 0 < w \<and> w \<le> int (count_list ns m)) \<longleftrightarrow>
        (\<exists>w. map_of ind m = Some w \<and> 0 < w \<and> w \<le> int (count_list (n # ns) m))"
        using False v by (cases "m = n") auto
    qed
    moreover have "relax (n # ns) ind queue = Inr (ind', queue @ new)"
      using IH(1) v False by simp
    moreover have "\<forall>m. map_of ind' m = map_option (\<lambda>v. v - int (count_list (n # ns) m)) (map_of ind m)"
      using IH(2) unfolding count .
    ultimately show ?thesis using IH(3) by (intro exI [of _ ind'] exI [of _ new] conjI) assumption+
  qed
qed

text \<open>
  Before each round every in-degree counts the dependencies not yet in the order, and the nodes
  with none left are exactly those in the order or in the queue.
\<close>

definition pending :: "(string \<Rightarrow> string list) \<Rightarrow> string list \<Rightarrow> string \<Rightarrow> nat" where
  "pending deps order n = length (filter (\<lambda>d. d \<notin> set order) (deps n))"

definition kahn_inv :: "(string \<Rightarrow> string list) \<Rightarrow> string set \<Rightarrow> (string, int) dict \<Rightarrow> string list \<Rightarrow> string list \<Rightarrow> bool" where
  "kahn_inv deps V ind queue order \<longleftrightarrow>
     (\<forall>n. map_of ind n = (if n \<in> V then Some (int (pending deps order n)) else None)) \<and>
     distinct (order @ queue) \<and> set (order @ queue) = {n \<in> V. pending deps order n = 0} \<and>
     topo_order deps order"

lemma pending_0: "pending deps order n = 0 \<longleftrightarrow> set (deps n) \<subseteq> set order"
  by (auto simp: pending_def filter_empty_conv)

lemma pending_snoc:
  "m \<notin> set order \<Longrightarrow> pending deps order n = pending deps (order @ [m]) n + count_list (deps n) m"
proof -
  assume m: "m \<notin> set order"
  have "length (filter (\<lambda>d. d \<notin> set order) xs) =
      length (filter (\<lambda>d. d \<notin> set (order @ [m])) xs) + count_list xs m" for xs
    using m by (induction xs) auto
  then show ?thesis by (simp add: pending_def)
qed

lemma kahn_spec:
  assumes "\<And>m n. count_list (dd_get adj m) n = count_list (deps n) m"
    and "\<And>m. set (dd_get adj m) \<subseteq> V" and "kahn_inv deps V ind queue order"
  shows "\<exists>adj' order'. kahn adj ind queue order = (adj', Inr order') \<and> dd_get adj' = dd_get adj \<and>
    topo_order deps order' \<and> set order' = {n \<in> V. set (deps n) \<subseteq> set order'}"
  using assms
proof (induction adj ind queue order rule: kahn.induct)
  case (1 adj ind order)
  then show ?case by (auto simp: kahn_inv_def pending_0)
next
  case (2 adj ind current queue order)
  let ?order = "order @ [current]"
  have inv: "map_of ind n = (if n \<in> V then Some (int (pending deps order n)) else None)" for n
    using 2(4) by (auto simp: kahn_inv_def)
  have dist: "distinct (order @ current # queue)"
    and zero: "set (order @ current # queue) = {n \<in> V. pending deps order n = 0}"
    and topo: "topo_order deps order"
    using 2(4) by (auto simp: kahn_inv_def)
  have "\<forall>n \<in> set (dd_get adj current). has_key ind n"
    using 2(3) [of current] inv by (auto simp: has_key_def)
  from relax_spec [OF this, of queue] obtain ind' new where
    r: "relax (dd_get adj current) ind queue = Inr (ind', queue @ new)"
    and ind': "\<And>n. map_of ind' n = map_option (\<lambda>v. v - int (count_list (deps n) current)) (map_of ind n)"
    and new: "distinct new" "set new = {n. \<exists>v. map_of ind n = Some v \<and> 0 < v \<and> v \<le> int (count_list (deps n) current)}"
    by (auto simp: 2(2))
  have fresh: "current \<notin> set order" using dist by simp
  note snoc = pending_snoc [OF fresh, of deps]
  have new_iff: "n \<in> set new \<longleftrightarrow> n \<in> V \<and> pending deps order n \<noteq> 0 \<and> pending deps ?order n = 0" for n
    using snoc [of n] by (auto simp: new(2) inv)
  have keep: "pending deps order n = 0 \<Longrightarrow> pending deps ?order n = 0" for n
    using snoc [of n] by simp
  have all: "set (?order @ queue @ new) = {n \<in> V. pending deps ?order n = 0}"
    using zero new_iff keep by auto
  have old: "n \<in> set (order @ current # queue) \<Longrightarrow> n \<notin> set new" for n
    using zero new_iff by auto
  have "current \<in> {n \<in> V. pending deps order n = 0}" using zero by auto
  then have "topo_order deps ?order"
    using topo fresh by (auto simp: topo_order_snoc pending_0)
  moreover have "distinct (?order @ queue @ new)"
    using dist new(1) old by auto
  moreover have "map_of ind' n = (if n \<in> V then Some (int (pending deps ?order n)) else None)" for n
    using snoc [of n] by (simp add: ind' inv)
  ultimately have "kahn_inv deps V ind' (queue @ new) ?order"
    using all by (simp add: kahn_inv_def)
  from 2(1) [OF r refl _ _ this] 2(2,3) r show ?case by simp
qed

lemma map_of_zeros: "map_of (map (\<lambda>n. (n, 0::int)) ks) n = (if n \<in> set ks then Some 0 else None)"
  by (induction ks) auto

lemma count_deps_spec:
  assumes "has_key ind n"
  shows "map_of (count_deps n deps ind) m =
      (if m = n then Some (the (map_of ind n) + int (length deps)) else map_of ind m)"
    and "map fst (count_deps n deps ind) = map fst ind"
  using assms by (induction n deps ind rule: count_deps.induct) (auto simp: has_key_def keys_update)

lemma count_all_spec:
  assumes "distinct ks" "\<forall>n \<in> set ks. has_key ind n"
  shows "map_of (fold (\<lambda>n. count_deps n (f n)) ks ind) m =
      (if m \<in> set ks then Some (the (map_of ind m) + int (length (f m))) else map_of ind m)
    \<and> map fst (fold (\<lambda>n. count_deps n (f n)) ks ind) = map fst ind"
  using assms
proof (induction ks arbitrary: ind)
  case Nil
  then show ?case by simp
next
  case (Cons k ks)
  then have k: "has_key ind k" by simp
  have "\<forall>n \<in> set ks. has_key (count_deps k (f k) ind) n"
    using Cons.prems k by (auto simp: has_key_def count_deps_spec)
  with Cons show ?case by (auto simp: count_deps_spec [OF k])
qed

lemma in_degrees_spec:
  assumes "distinct (map fst (dag_nodes d))"
  shows "map_of (in_degrees d) n =
      (if n \<in> set (map fst (dag_nodes d))
       then Some (int (length (dd_get (reverse_adjacency_list d) n))) else None)
    \<and> map fst (in_degrees d) = map fst (dag_nodes d)"
proof -
  let ?ks = "map fst (dag_nodes d)" and ?z = "map (\<lambda>n. (n, 0::int)) (map fst (dag_nodes d))"
  have z: "map_of ?z n = (if n \<in> set ?ks then Some 0 else None)" for n by (rule map_of_zeros)
  have "\<forall>n \<in> set ?ks. has_key ?z n" unfolding has_key_def z by simp
  note spec = count_all_spec [OF assms this, of "dd_get (reverse_adjacency_list d)" n]
  moreover have "map fst ?z = ?ks" by (simp add: comp_def)
  ultimately show ?thesis unfolding in_degrees_def z by simp
qed

text \<open>What the graph of a list of nodes looks like from then on, whatever is read.\<close>

definition graph_of :: "'v data_node list \<Rightarrow> 'v dag \<Rightarrow> bool" where
  "graph_of ns d \<longleftrightarrow> distinct (ids ns) \<and> dag_nodes d = map (\<lambda>n. (node_id n, n)) ns \<and>
     dd_get (reverse_adjacency_list d) = node_deps ns \<and> dd_get (adjacency_list d) = node_users ns"

lemma graph_of_keys: "graph_of ns d \<Longrightarrow> map fst (dag_nodes d) = ids ns"
  by (simp add: graph_of_def ids_def comp_def)

lemma dd_get_fold_touch [simp]: "dd_get (fold dd_touch ks r) = dd_get r"
  by (induction ks arbitrary: r) simp_all

lemma kahn_order_spec:
  assumes "graph_of ns d"
  obtains d' order where
    "kahn_order d = (d', if length order \<noteq> length ns
       then raises CyclicDependencyError ''DAG contains a cycle'' else Inr order)"
    "graph_of ns d'" "verified d' = verified d" "topo_order (node_deps ns) order"
    "set order = {n \<in> set (ids ns). set (node_deps ns n) \<subseteq> set order}"
proof -
  have dist: "distinct (ids ns)" using assms by (simp add: graph_of_def)
  note keys = graph_of_keys [OF assms]
  have ind: "map_of (in_degrees d) n =
      (if n \<in> set (ids ns) then Some (int (length (node_deps ns n))) else None)"
    and ind_keys: "map fst (in_degrees d) = ids ns" for n
    using in_degrees_spec [of d n] assms keys dist by (auto simp: graph_of_def)
  let ?queue = "map fst (filter (\<lambda>(_, v). v = 0) (in_degrees d))"
  have d_ind: "dict_ok (in_degrees d)" using ind_keys dist by (simp add: dict_ok_def)
  have queue: "set ?queue = {n \<in> set (ids ns). node_deps ns n = []}"
  proof -
    have "n \<in> set ?queue \<longleftrightarrow> map_of (in_degrees d) n = Some 0" for n
      using map_of_in_set [OF d_ind] by force
    then have "n \<in> set ?queue \<longleftrightarrow> n \<in> set (ids ns) \<and> node_deps ns n = []" for n
      unfolding ind by simp
    then show ?thesis by blast
  qed
  have dq: "distinct ?queue" using d_ind by (simp add: dict_ok_def distinct_map_filter)
  have "kahn_inv (node_deps ns) (set (ids ns)) (in_degrees d) ?queue []"
    using ind queue dq by (auto simp: kahn_inv_def pending_def)
  moreover have "count_list (dd_get (adjacency_list d) m) n = count_list (node_deps ns n) m" for m n
    using assms count_node_users [OF dist] by (simp add: graph_of_def)
  moreover have "set (dd_get (adjacency_list d) m) \<subseteq> set (ids ns)" for m
    using assms by (auto simp: graph_of_def node_users_def ids_def)
  ultimately obtain adj order where k: "kahn (adjacency_list d) (in_degrees d) ?queue [] = (adj, Inr order)"
    "dd_get adj = dd_get (adjacency_list d)" "topo_order (node_deps ns) order"
    "set order = {n \<in> set (ids ns). set (node_deps ns n) \<subseteq> set order}"
    using kahn_spec [of "adjacency_list d" "node_deps ns" "set (ids ns)" "in_degrees d" ?queue "[]"] by blast
  have "length (dag_nodes d) = length ns" using assms by (simp add: graph_of_def)
  then show ?thesis
    using k assms that [of "d\<lparr>reverse_adjacency_list := fold dd_touch (map fst (dag_nodes d)) (reverse_adjacency_list d),
        adjacency_list := adj\<rparr>" order]
    by (simp add: kahn_order_def graph_of_def)
qed

text \<open>Completeness: on an acyclic graph without dangling dependencies nothing is left over.\<close>

lemma acyclic_all_ordered:
  assumes "acyclic (dep_edges deps UNIV)" "finite V" "\<And>n. n \<in> V \<Longrightarrow> set (deps n) \<subseteq> V"
    and "S = {n \<in> V. set (deps n) \<subseteq> S}"
  shows "S = V"
proof -
  let ?r = "dep_edges deps V"
  have "finite ?r"
    by (rule finite_subset [of _ "V \<times> V"]) (use assms(2,3) in \<open>auto simp: dep_edges_def\<close>)
  moreover have "acyclic ?r" by (rule acyclic_subset [OF assms(1)]) (auto simp: dep_edges_def)
  ultimately have "wf (?r\<inverse>)" by (rule finite_acyclic_wf_converse)
  then have "n \<in> V \<longrightarrow> n \<in> S" for n
  proof (induction n rule: wf_induct_rule)
    case (less n)
    show ?case
    proof
      assume n: "n \<in> V"
      then have "set (deps n) \<subseteq> S" using less assms(3) by auto
      with n have "n \<in> {n \<in> V. set (deps n) \<subseteq> S}" by simp
      then show "n \<in> S" using assms(4) by simp
    qed
  qed
  with assms(4) show ?thesis by blast
qed

section \<open>The properties of the service\<close>

lemma node_deps_ids: "node_deps ns m \<noteq> [] \<Longrightarrow> m \<in> set (ids ns)"
  using node_deps_out by blast

lemma built_graph: "distinct (ids ns) \<Longrightarrow> graph_of ns (built ns)"
  using built_spec [of ns] by (auto simp: graph_of_def)

lemma node_deps_set:
  assumes "distinct (ids ns)"
  shows "(\<Union>n \<in> set (ids ns). set (node_deps ns n)) = (\<Union>n \<in> set ns. set (dependencies n))"
  using assms by (auto simp: ids_def node_deps_in)

lemma build_dag_spec:
  assumes "distinct (ids ns)" "card (all_ids ns) < k"
  shows "(acyclic (node_edges ns) \<and>
      (\<exists>d. build_dag k ns = (d, Inr ()) \<and> verified d \<and> graph_of ns d \<and>
        dict_ok (reverse_adjacency_list d) \<and>
        (\<forall>m. has_key (reverse_adjacency_list d) m \<longleftrightarrow> m \<in> all_ids ns) \<and>
        adjacency_list d = adjacency_list (built ns)))
    \<or> (\<not> acyclic (node_edges ns) \<and>
      (\<exists>d start path. build_dag k ns = (d, Inl (cyclic_dependency path)) \<and>
        cycle_path (node_deps ns) start path))"
proof -
  note b = built_spec [OF assms(1)]
  have keys: "set (map fst (dag_nodes (built ns))) = set (ids ns)"
    using graph_of_keys [OF built_graph [OF assms(1)]] by simp
  have b1: "dd_get (reverse_adjacency_list (built ns)) = node_deps ns"
    "dict_ok (reverse_adjacency_list (built ns))"
    "\<And>m. has_key (reverse_adjacency_list (built ns)) m \<longleftrightarrow> m \<in> set (ids ns)"
    using b by auto
  have sub: "set (map fst (dag_nodes (built ns))) \<subseteq> all_ids ns"
    using keys by (simp add: all_ids_def)
  have deps: "\<forall>m. node_deps ns m \<noteq> [] \<longrightarrow> m \<in> set (map fst (dag_nodes (built ns)))"
    using node_deps_ids keys by blast
  have union: "m \<in> set (ids ns) \<or> (\<exists>n \<in> set (ids ns). m \<in> set (node_deps ns n)) \<longleftrightarrow> m \<in> all_ids ns" for m
    using node_deps_set [OF assms(1)] by (auto simp: all_ids_def)
  from verify_acyclic_spec [OF b1(1,2) finite_all_ids node_deps_all_ids assms(2) sub deps]
  show ?thesis
  proof (elim disjE conjE exE)
    fix r
    assume acyc: "acyclic (dep_edges (node_deps ns) UNIV)"
      and run: "verify_acyclic k (built ns) = ((built ns)\<lparr>reverse_adjacency_list := r, verified := True\<rparr>, Inr True)"
      and r: "dd_get r = node_deps ns" "dict_ok r"
      and hk: "\<forall>m. has_key r m \<longleftrightarrow> has_key (reverse_adjacency_list (built ns)) m \<or>
        m \<in> set (map fst (dag_nodes (built ns))) \<or>
        (\<exists>n \<in> set (map fst (dag_nodes (built ns))). m \<in> set (node_deps ns n))"
    have "has_key r m \<longleftrightarrow> m \<in> all_ids ns" for m
      using hk unfolding keys b1(3) using union by blast
    then show ?thesis
      using acyc run r built_graph [OF assms(1)]
      by (intro disjI1) (simp add: build_dag_def built_def [symmetric] node_edges_def graph_of_def)
  next
    fix r start path
    assume "\<not> acyclic (dep_edges (node_deps ns) UNIV)"
      and "verify_acyclic k (built ns) = ((built ns)\<lparr>reverse_adjacency_list := r\<rparr>, Inl (cyclic_dependency path))"
      and "cycle_path (node_deps ns) start path"
    then show ?thesis
      by (intro disjI2) (auto simp: build_dag_def built_def [symmetric] node_edges_def)
  qed
qed

text \<open>
  C1: With enough stack, building the graph of nodes with distinct ids succeeds exactly when the
  dependencies are acyclic; when they are not, \<open>CyclicDependencyError\<close> is raised and the path in
  its message is a closed walk along dependencies, so a real cycle of the graph.
\<close>

theorem build_dag_correct:
  assumes "distinct (ids ns)" "card (all_ids ns) < k"
  shows "if acyclic (node_edges ns)
    then \<exists>d. build_dag k ns = (d, Inr ()) \<and> verified d \<and> graph_of ns d
    else \<exists>d start path. build_dag k ns = (d, Inl (cyclic_dependency path)) \<and>
      cycle_path (node_deps ns) start path"
  using build_dag_spec [OF assms] by (cases "acyclic (node_edges ns)") auto

definition node_with :: "string \<Rightarrow> string list \<Rightarrow> unit data_node" where
  "node_with i deps = sample_node\<lparr>node_id := i, dependencies := deps\<rparr>"

definition looping :: "unit data_node list" where
  "looping = [node_with ''a'' [''b''], node_with ''b'' [''c''], node_with ''c'' [''b'']]"

theorem build_dag_correct_witness:
  "if acyclic (node_edges looping)
   then \<exists>d. build_dag 4 looping = (d, Inr ()) \<and> verified d \<and> graph_of looping d
   else \<exists>d start path. build_dag 4 looping = (d, Inl (cyclic_dependency path)) \<and>
      cycle_path (node_deps looping) start path"
proof (rule build_dag_correct)
  have "all_ids looping = {''a'', ''b'', ''c''}"
    by (auto simp: all_ids_def looping_def ids_def node_with_def)
  then show "card (all_ids looping) < 4" by simp
  show "distinct (ids looping)" by (simp add: looping_def ids_def node_with_def)
qed

text \<open>The message the example gets.\<close>

lemma looping_message:
  "snd (build_dag 4 looping) = raises CyclicDependencyError ''Cyclic dependency detected: b -> c -> b''"
  by code_simp

lemma graph_acyclic:
  assumes "build_dag k ns = (d, Inr ())" "distinct (ids ns)" "card (all_ids ns) < k"
  shows "acyclic (node_edges ns) \<and> verified d \<and> graph_of ns d"
  using build_dag_spec [OF assms(2,3)] assms(1) by auto

lemma order_after_build:
  assumes "build_dag k ns = (d, Inr ())" "distinct (ids ns)" "card (all_ids ns) < k"
  obtains d' order where
    "get_topological_order j d = (d', if length order \<noteq> length ns
       then raises CyclicDependencyError ''DAG contains a cycle'' else Inr order)"
    "topo_order (node_deps ns) order"
    "set order = {n \<in> set (ids ns). set (node_deps ns n) \<subseteq> set order}"
  using graph_acyclic [OF assms] kahn_order_spec [of ns d] that
  by (fastforce simp: get_topological_order_def)

text \<open>
  C2: After a successful build, when every dependency is one of the nodes, the topological sort
  returns each node id once, each after all ids it depends on.
\<close>

theorem topological_order_correct:
  assumes "build_dag k ns = (d, Inr ())" "distinct (ids ns)" "card (all_ids ns) < k"
    and "\<forall>n \<in> set ns. set (dependencies n) \<subseteq> set (ids ns)"
  shows "\<exists>d' order. get_topological_order j d = (d', Inr order) \<and>
    topo_order (node_deps ns) order \<and> mset order = mset (ids ns)"
proof -
  obtain d' order where run: "get_topological_order j d = (d', if length order \<noteq> length ns
       then raises CyclicDependencyError ''DAG contains a cycle'' else Inr order)"
    and topo: "topo_order (node_deps ns) order"
    and ord: "set order = {n \<in> set (ids ns). set (node_deps ns n) \<subseteq> set order}"
    by (rule order_after_build [OF assms(1-3)])
  have "set (node_deps ns n) \<subseteq> set (ids ns)" if "n \<in> set (ids ns)" for n
    using node_deps_set [OF assms(2)] assms(4) that by blast
  then have all: "set order = set (ids ns)"
    using acyclic_all_ordered [of "node_deps ns" "set (ids ns)" "set order"] ord
      graph_acyclic [OF assms(1-3)] by (simp add: node_edges_def)
  have dist: "distinct order" using topo by (rule topo_order_distinct)
  have "length order = length ns"
    using all dist assms(2) by (metis distinct_card ids_def length_map)
  moreover have "mset order = mset (ids ns)"
    using all dist assms(2) set_eq_iff_mset_eq_distinct by blast
  ultimately show ?thesis using run topo by simp
qed

definition diamond :: "unit data_node list" where
  "diamond = [node_with ''d'' [''b'', ''c''], node_with ''b'' [''a''], node_with ''c'' [''a''], node_with ''a'' []]"

lemma diamond_ok:
  "distinct (ids diamond)" "card (all_ids diamond) < 5"
  "\<forall>n \<in> set diamond. set (dependencies n) \<subseteq> set (ids diamond)"
proof -
  show "distinct (ids diamond)" by (simp add: diamond_def ids_def node_with_def)
  have "all_ids diamond = {''a'', ''b'', ''c'', ''d''}"
    by (auto simp: all_ids_def diamond_def ids_def node_with_def)
  then show "card (all_ids diamond) < 5" by simp
  show "\<forall>n \<in> set diamond. set (dependencies n) \<subseteq> set (ids diamond)"
    by (simp add: diamond_def ids_def node_with_def)
qed

lemma diamond_built: "build_dag 5 diamond = (fst (build_dag 5 diamond), Inr ())"
proof -
  have "is_ok (snd (build_dag 5 diamond))" by code_simp
  then show ?thesis by (cases "build_dag 5 diamond"; cases "snd (build_dag 5 diamond)") auto
qed

theorem topological_order_correct_witness:
  "\<exists>d' order. get_topological_order 0 (fst (build_dag 5 diamond)) = (d', Inr order) \<and>
    topo_order (node_deps diamond) order \<and> mset order = mset (ids diamond)"
  by (rule topological_order_correct [OF diamond_built diamond_ok])

text \<open>
  A dependency that is no node of the graph passes the cycle check, which reads its empty list
  of dependencies, and then makes the topological sort fail with "DAG contains a cycle" although
  there is none.
\<close>

theorem dangling_dependency_reported_as_cycle:
  assumes "build_dag k ns = (d, Inr ())" "distinct (ids ns)" "card (all_ids ns) < k"
    and "n \<in> set ns" "m \<in> set (dependencies n)" "m \<notin> set (ids ns)"
  shows "acyclic (node_edges ns) \<and>
    snd (get_topological_order j d) = raises CyclicDependencyError ''DAG contains a cycle''"
proof -
  obtain d' order where run: "get_topological_order j d = (d', if length order \<noteq> length ns
       then raises CyclicDependencyError ''DAG contains a cycle'' else Inr order)"
    and topo: "topo_order (node_deps ns) order"
    and ord: "set order = {n \<in> set (ids ns). set (node_deps ns n) \<subseteq> set order}"
    by (rule order_after_build [OF assms(1-3)])
  have mem: "x \<in> set order \<longleftrightarrow> x \<in> set (ids ns) \<and> set (node_deps ns x) \<subseteq> set order" for x
    by (subst ord) simp
  have "m \<notin> set order" using mem [of m] assms(6) by simp
  then have "node_id n \<notin> set order"
    using mem [of "node_id n"] assms(5) node_deps_in [OF assms(2,4)] by auto
  moreover have "node_id n \<in> set (ids ns)" using assms(4) by (simp add: ids_def)
  moreover have "set order \<subseteq> set (ids ns)" by (subst ord) blast
  ultimately have "set order \<subset> set (ids ns)" by blast
  then have "card (set order) < card (set (ids ns))" by (simp add: psubset_card_mono)
  moreover have "card (set order) = length order" using topo by (simp add: topo_order_distinct distinct_card)
  moreover have "card (set (ids ns)) = length ns"
    using distinct_card [OF assms(2)] by (simp add: ids_def)
  ultimately show ?thesis using run graph_acyclic [OF assms(1-3)] by simp
qed

definition hanging :: "unit data_node list" where
  "hanging = [node_with ''a'' [''gone''], node_with ''b'' [''a'']]"

lemma hanging_built: "build_dag 4 hanging = (fst (build_dag 4 hanging), Inr ())"
proof -
  have "is_ok (snd (build_dag 4 hanging))" by code_simp
  then show ?thesis by (cases "build_dag 4 hanging"; cases "snd (build_dag 4 hanging)") auto
qed

lemma hanging_ids: "distinct (ids hanging)" "card (all_ids hanging) < 4"
proof -
  show "distinct (ids hanging)" by (simp add: hanging_def ids_def node_with_def)
  have "all_ids hanging = {''a'', ''b'', ''gone''}"
    by (auto simp: all_ids_def hanging_def ids_def node_with_def)
  then show "card (all_ids hanging) < 4" by simp
qed

theorem dangling_dependency_reported_as_cycle_witness:
  "acyclic (node_edges hanging) \<and> snd (get_topological_order 9 (fst (build_dag 4 hanging))) =
     raises CyclicDependencyError ''DAG contains a cycle''"
  by (rule dangling_dependency_reported_as_cycle [OF hanging_built hanging_ids,
        of "node_with ''a'' [''gone'']" "''gone''"])
    (simp_all add: hanging_def ids_def node_with_def)

text \<open>
  After a successful build the roots are the nodes without dependencies and, because the cycle
  check inserts the keys it reads, also every dependency that is no node of the graph.
\<close>

theorem root_nodes_after_build:
  assumes "build_dag k ns = (d, Inr ())" "distinct (ids ns)" "card (all_ids ns) < k"
  shows "set (get_root_nodes d) =
    {node_id n | n. n \<in> set ns \<and> dependencies n = []} \<union> (all_ids ns - set (ids ns))"
proof -
  have g: "graph_of ns d" and ok: "dict_ok (reverse_adjacency_list d)"
    and keys: "\<And>m. has_key (reverse_adjacency_list d) m \<longleftrightarrow> m \<in> all_ids ns"
    using build_dag_spec [OF assms(2,3)] assms(1) by auto
  have "m \<in> set (get_root_nodes d) \<longleftrightarrow> m \<in> all_ids ns \<and> node_deps ns m = []" for m
  proof -
    have "m \<in> set (get_root_nodes d) \<longleftrightarrow> map_of (reverse_adjacency_list d) m = Some []"
      using map_of_in_set [OF ok] by (force simp: get_root_nodes_def)
    also have "\<dots> \<longleftrightarrow> has_key (reverse_adjacency_list d) m \<and> dd_get (reverse_adjacency_list d) m = []"
      by (auto simp: has_key_def dd_get_def)
    finally show ?thesis using keys g by (simp add: graph_of_def)
  qed
  moreover have "node_deps ns (node_id n) = dependencies n" if "n \<in> set ns" for n
    using node_deps_in [OF assms(2) that] .
  moreover have "node_deps ns m = []" if "m \<notin> set (ids ns)" for m using node_deps_out [OF that] .
  ultimately show ?thesis by (auto simp: all_ids_def ids_def image_iff)
qed

theorem root_nodes_after_build_witness:
  "set (get_root_nodes (fst (build_dag 4 hanging))) =
    {node_id n | n. n \<in> set hanging \<and> dependencies n = []} \<union> (all_ids hanging - set (ids hanging))"
  by (rule root_nodes_after_build [OF hanging_built hanging_ids])

lemma map_filter_nodes:
  assumes "graph_of ns d" "x \<in> set ns"
  shows "x \<in> set (List.map_filter (map_of (dag_nodes d)) xs) \<longleftrightarrow> node_id x \<in> set xs"
proof -
  have nodes: "dag_nodes d = map (\<lambda>n. (node_id n, n)) ns" and dist: "distinct (map node_id ns)"
    using assms(1) by (auto simp: graph_of_def ids_def)
  have x: "map_of (dag_nodes d) i = Some x \<longleftrightarrow> i = node_id x" for i
    using assms(2) dist unfolding nodes by (subst map_of_eq_Some_iff) (auto simp: comp_def)
  have "x \<in> set (List.map_filter (map_of (dag_nodes d)) xs) \<longleftrightarrow>
      (\<exists>i \<in> set xs. map_of (dag_nodes d) i = Some x)"
    by (induction xs) (auto simp: List.map_filter_simps split: option.splits)
  then show ?thesis by (simp add: x)
qed

text \<open>
  After a successful build the two queries are inverse: a node is among the dependents of
  another exactly when that one is among its dependencies, and these are exactly the declared
  dependencies that are nodes, in their order.
\<close>

theorem dependents_inverse:
  assumes "build_dag k ns = (d, Inr ())" "distinct (ids ns)" "card (all_ids ns) < k"
    and "x \<in> set ns" "y \<in> set ns"
  shows "(x \<in> set (get_dependents d (node_id y)) \<longleftrightarrow> y \<in> set (get_dependencies d (node_id x))) \<and>
    get_dependencies d (node_id x) = List.map_filter (get_node d) (dependencies x)"
proof -
  have g: "graph_of ns d" using graph_acyclic [OF assms(1-3)] by blast
  have r: "dd_get (reverse_adjacency_list d) = node_deps ns" and a: "dd_get (adjacency_list d) = node_users ns"
    using g by (auto simp: graph_of_def)
  have rk: "has_key (reverse_adjacency_list d) (node_id x)" and ak: "has_key (adjacency_list d) (node_id y)"
    using build_dag_spec [OF assms(2,3)] assms(1,4,5) built_spec [OF assms(2)]
    by (auto simp: all_ids_def ids_def)
  have nd: "node_deps ns (node_id x) = dependencies x" by (rule node_deps_in [OF assms(2,4)])
  have "x \<in> set (get_dependents d (node_id y)) \<longleftrightarrow> node_id x \<in> set (node_users ns (node_id y))"
    using ak a map_filter_nodes [OF g assms(4)] by (simp add: get_dependents_def)
  also have "\<dots> \<longleftrightarrow> node_id y \<in> set (dependencies x)"
    using set_node_users [OF assms(2)] nd by simp
  finally have "x \<in> set (get_dependents d (node_id y)) \<longleftrightarrow> node_id y \<in> set (dependencies x)" .
  moreover have "node_id y \<in> set (dependencies x) \<longleftrightarrow> y \<in> set (get_dependencies d (node_id x))"
    using rk r nd map_filter_nodes [OF g assms(5)] by (simp add: get_dependencies_def)
  moreover have "get_node d = map_of (dag_nodes d)" by (rule ext) (simp add: get_node_def)
  ultimately show ?thesis using rk r nd by (simp add: get_dependencies_def)
qed

theorem dependents_inverse_witness:
  "(node_with ''d'' [''b'', ''c''] \<in> set (get_dependents (fst (build_dag 5 diamond)) ''b'') \<longleftrightarrow>
    node_with ''b'' [''a''] \<in> set (get_dependencies (fst (build_dag 5 diamond)) ''d''))"
  using dependents_inverse [OF diamond_built diamond_ok(1,2),
      of "node_with ''d'' [''b'', ''c'']" "node_with ''b'' [''a'']"]
  by (simp add: diamond_def node_with_def)

end
