(* ===== verification/Scheduling.thy ===== *)
theory Scheduling
  imports DataNodes Graphs "HOL-Library.Sublist"
begin

text \<open>
  Choosing the nodes that can run: \<open>GraphBuilder\<close> (\<open>dag_manager/core/graph_builder.py\<close>) and
  \<open>ReadyNodeSelector\<close> (\<open>dag_manager/core/ready_node_selector.py\<close>). The state of the recursive
  \<open>visit\<close> is local to one call of \<open>get_topological_sort_result\<close>, so only its result is kept.
\<close>

section \<open>GraphBuilder\<close>

text \<open>\<open>{n.node_id: n for n in nodes}\<close>: the last node with an id wins.\<close>

definition node_map :: "'v data_node list \<Rightarrow> (string, 'v data_node) dict" where
  "node_map ns = fold (\<lambda>n. AList.update (node_id n) n) ns []"

record sort_state =
  sorted_order :: "string list"
  marked :: "string set"
  temp_mark :: "string set"

definition mark_temp :: "string \<Rightarrow> sort_state \<Rightarrow> sort_state" where
  "mark_temp nid s = s\<lparr>temp_mark := insert nid (temp_mark s)\<rparr>"

definition mark_done :: "string \<Rightarrow> sort_state \<Rightarrow> sort_state" where
  "mark_done nid s = s\<lparr>temp_mark := temp_mark s - {nid}, marked := insert nid (marked s),
     sorted_order := sorted_order s @ [nid]\<rparr>"

fun sort_visit :: "(string, 'v data_node) dict \<Rightarrow> nat \<Rightarrow> string \<Rightarrow> sort_state
    \<Rightarrow> (sort_state, exn, unit) outcome" where
  "sort_visit nm 0 nid s = (s, raises RecursionError ''maximum recursion depth exceeded'')"
| "sort_visit nm (Suc k) nid s =
     (if nid \<in> marked s then (s, Inr ())
      else if nid \<in> temp_mark s then (s, raises ValueError ''Cycle detected'')
      else case map_of nm nid of
             None \<Rightarrow> (mark_temp nid s, raises KeyError nid)
           | Some n \<Rightarrow>
               and_then (each (sort_visit nm k) (dependencies n) (mark_temp nid s))
                 (\<lambda>_ t. (mark_done nid t, Inr ())))"

definition topological_sort_result :: "nat \<Rightarrow> 'v data_node list \<Rightarrow> 'v topo_sort_result res" where
  "topological_sort_result k ns =
     (case each (sort_visit (node_map ns) k) (map node_id ns)
        \<lparr>sorted_order = [], marked = {}, temp_mark = {}\<rparr> of
        (_, Inl e) \<Rightarrow> Inl e
      | (s, Inr _) \<Rightarrow> Inr \<lparr>tsr_order = sorted_order s, tsr_node_map = []\<rparr>)"

definition builder_build_dag ::
    "nat \<Rightarrow> 'v data_node list \<Rightarrow> ((string, 'v data_node) dict \<times> 'v topo_sort_result) res" where
  "builder_build_dag k ns =
     (let nm = node_map ns in bind_res (topological_sort_result k ns) (\<lambda>topo. Inr (nm, topo)))"

record edge =
  edge_source :: string
  edge_target :: string

fun derive_edges :: "'v data_node list \<Rightarrow> edge list" where
  "derive_edges [] = []"
| "derive_edges (n # ns) =
     map (\<lambda>dep. \<lparr>edge_source = dep, edge_target = node_id n\<rparr>) (dependencies n) @ derive_edges ns"

section \<open>ReadyNodeSelector\<close>

definition pending_states :: "string option set" where
  "pending_states = {None, Some ''PENDING'', Some ''READY''}"

definition completed_states :: "string option set" where
  "completed_states = {Some ''COMPLETED''}"

fun add_upstreams :: "'v data_node list \<Rightarrow> (string, string list) dict \<Rightarrow> (string, string list) dict" where
  "add_upstreams [] em = em"
| "add_upstreams (n # ns) em =
     add_upstreams ns (fold (\<lambda>dep. dd_append (node_id n) dep) (dependencies n) em)"

definition edges_map :: "'v data_node list \<Rightarrow> (string, string list) dict" where
  "edges_map ns = add_upstreams ns (fold (\<lambda>n. AList.update (node_id n) []) ns [])"

fun collect_ready :: "(string, string) dict \<Rightarrow> (string, 'v data_node) dict
    \<Rightarrow> (string, string list) dict \<Rightarrow> string list \<Rightarrow> 'v data_node list res" where
  "collect_ready status nm em [] = Inr []"
| "collect_ready status nm em (nid # order) =
     (if map_of status nid \<notin> pending_states then collect_ready status nm em order
      else if list_all (\<lambda>dep. map_of status dep \<in> completed_states) (dd_get em nid)
      then (case map_of nm nid of
              None \<Rightarrow> raises KeyError nid
            | Some n \<Rightarrow> bind_res (collect_ready status nm em order) (\<lambda>rs. Inr (n # rs)))
      else collect_ready status nm em order)"

definition get_ready_nodes ::
    "nat \<Rightarrow> 'v data_node list \<Rightarrow> (string, string) dict \<Rightarrow> 'v data_node list res" where
  "get_ready_nodes k ns status =
     bind_res (builder_build_dag k ns) (\<lambda>(nm, topo).
       collect_ready status nm (edges_map ns) (tsr_order topo))"

section \<open>The sort is correct\<close>

definition map_deps :: "(string, 'v data_node) dict \<Rightarrow> string \<Rightarrow> string list" where
  "map_deps nm nid = (case map_of nm nid of None \<Rightarrow> [] | Some n \<Rightarrow> dependencies n)"

definition is_value_error :: "exn \<Rightarrow> bool" where
  "is_value_error e \<longleftrightarrow> e = exn_of ValueError ''Cycle detected''"

definition sort_inv :: "sort_state \<Rightarrow> bool" where
  "sort_inv s \<longleftrightarrow> temp_mark s \<inter> marked s = {}"

interpretation builder: dfs_topo "map_deps nm" "has_key nm" sort_inv temp_mark marked
  mark_temp mark_done is_value_error "\<lambda>_ _. False" "sort_visit nm" sorted_order
  for nm
proof (unfold_locales, goal_cases)
  case (2 n s)
  then show ?case by (simp add: is_value_error_def)
next
  case (5 s n k)
  then show ?case by (simp add: has_key_def is_value_error_def)
next
  case (6 s n k)
  then show ?case by (auto simp: has_key_def map_deps_def)
qed (auto simp: sort_inv_def is_value_error_def mark_temp_def mark_done_def)

lemma sort_driver: "each (sort_visit nm k) ns s = each (dfs_search.drive (\<lambda>_ _. False) (sort_visit nm) k) ns s"
proof -
  have "sort_visit nm k = dfs_search.drive (\<lambda>_ _. False) (sort_visit nm) k" by (intro ext) (simp add: builder.drive_def)
  then show ?thesis by simp
qed

lemma has_key_fold_update:
  "has_key (fold (\<lambda>n. AList.update (f n) (g n)) ns d) k \<longleftrightarrow> k \<in> f ` set ns \<or> has_key d k"
  by (induction ns arbitrary: d) auto

lemma has_key_node_map: "has_key (node_map ns) k \<longleftrightarrow> k \<in> node_id ` set ns"
  by (simp add: node_map_def has_key_fold_update)

lemma map_of_fold_update:
  assumes "distinct (map f ns)"
  shows "n \<in> set ns \<Longrightarrow> map_of (fold (\<lambda>n. AList.update (f n) (g n)) ns d) (f n) = Some (g n)"
    and "k \<notin> f ` set ns \<Longrightarrow> map_of (fold (\<lambda>n. AList.update (f n) (g n)) ns d) k = map_of d k"
proof -
  show out: "map_of (fold (\<lambda>n. AList.update (f n) (g n)) ns d) k = map_of d k" if "k \<notin> f ` set ns" for k
    using that by (induction ns arbitrary: d) auto
  show "map_of (fold (\<lambda>n. AList.update (f n) (g n)) ns d) (f n) = Some (g n)" if "n \<in> set ns"
    using assms that
  proof (induction ns arbitrary: d)
    case Nil
    then show ?case by simp
  next
    case (Cons x ns)
    have other: "k \<notin> f ` set ns \<Longrightarrow>
        map_of (fold (\<lambda>n. AList.update (f n) (g n)) ns d) k = map_of d k" for k d
      by (induction ns arbitrary: d) auto
    show ?case
    proof (cases "n \<in> set ns")
      case True
      with Cons show ?thesis by simp
    next
      case False
      then have "n = x" using Cons.prems by simp
      moreover have "f x \<notin> f ` set ns" using Cons.prems by simp
      ultimately show ?thesis using other by simp
    qed
  qed
qed

definition sort_start :: sort_state where
  "sort_start = \<lparr>sorted_order = [], marked = {}, temp_mark = {}\<rparr>"

lemma sort_start [simp]:
  "sort_inv sort_start" "temp_mark sort_start = {}" "marked sort_start = {}" "sorted_order sort_start = []"
  by (simp_all add: sort_start_def sort_inv_def)

lemma topological_sort_result_cases:
  "topological_sort_result k ns =
     (case each (dfs_search.drive (\<lambda>_ _. False) (sort_visit (node_map ns)) k) (map node_id ns) sort_start of
        (_, Inl e) \<Rightarrow> Inl e
      | (s, Inr _) \<Rightarrow> Inr \<lparr>tsr_order = sorted_order s, tsr_node_map = []\<rparr>)"
  by (simp add: topological_sort_result_def sort_driver sort_start_def)

lemma sort_ok:
  assumes "topological_sort_result k ns = Inr r"
  shows "topo_order (map_deps (node_map ns)) (tsr_order r) \<and> set (tsr_order r) = node_id ` set ns"
proof -
  from assms obtain s where s: "each (dfs_search.drive (\<lambda>_ _. False) (sort_visit (node_map ns)) k) (map node_id ns) sort_start = (s, Inr ())"
    and r: "tsr_order r = sorted_order s"
    unfolding topological_sort_result_cases by (auto split: prod.splits sum.splits)
  note t = builder.drive_topo_order [OF s sort_start(1,2,3,4)]
  have "set (sorted_order s) = node_id ` set ns" using t(2,3) by (auto simp: has_key_node_map)
  with t(1) r show ?thesis by simp
qed

lemma node_map_values: "map_of (node_map ns) i = Some n \<Longrightarrow> n \<in> set ns \<and> node_id n = i"
proof -
  have "map_of (fold (\<lambda>n. AList.update (node_id n) n) ns d) i = Some n \<Longrightarrow>
      n \<in> set ns \<and> node_id n = i \<or> map_of d i = Some n" for d
  proof (induction ns arbitrary: d)
    case Nil
    then show ?case by simp
  next
    case (Cons x ns)
    from Cons.IH [of "AList.update (node_id x) x d"] Cons.prems show ?case
      by (cases "i = node_id x") auto
  qed
  from this [of "[]"] show "map_of (node_map ns) i = Some n \<Longrightarrow> n \<in> set ns \<and> node_id n = i"
    by (simp add: node_map_def)
qed

lemma builder_sorts:
  assumes "\<forall>n \<in> set ns. set (dependencies n) \<subseteq> node_id ` set ns" "card (node_id ` set ns) < k"
  shows "if acyclic (dep_edges (map_deps (node_map ns)) (node_id ` set ns))
    then \<exists>r. topological_sort_result k ns = Inr r \<and> distinct (tsr_order r) \<and>
      set (tsr_order r) = node_id ` set ns \<and> topo_order (map_deps (node_map ns)) (tsr_order r)
    else topological_sort_result k ns = raises ValueError ''Cycle detected''"
proof -
  let ?nm = "node_map ns" and ?V = "node_id ` set ns"
  obtain s r where run: "each (dfs_search.drive (\<lambda>_ _. False) (sort_visit ?nm) k) (map node_id ns) sort_start = (s, r)"
    by fastforce
  show ?thesis
  proof (cases r)
    case (Inr x)
    then have "topological_sort_result k ns = Inr \<lparr>tsr_order = sorted_order s, tsr_node_map = []\<rparr>"
      using run by (simp add: topological_sort_result_cases)
    moreover from sort_ok [OF this] have topo: "topo_order (map_deps ?nm) (sorted_order s)" "set (sorted_order s) = ?V"
      by auto
    moreover have "acyclic (dep_edges (map_deps ?nm) ?V)" using topo_order_acyclic [OF topo(1)] topo(2) by simp
    ultimately show ?thesis by (auto dest: topo_order_distinct)
  next
    case (Inl e)
    with run have loop: "each (dfs_search.drive (\<lambda>_ _. False) (sort_visit ?nm) k) (map node_id ns) sort_start = (s, Inl e)"
      by simp
    have closed: "has_key ?nm m \<and> set (map_deps ?nm m) \<subseteq> ?V" if m: "m \<in> ?V" for m
    proof -
      have "has_key ?nm m" using m by (simp add: has_key_node_map)
      then obtain n where "map_of ?nm m = Some n" by (auto simp: has_key_def)
      then show ?thesis using node_map_values [of ns m n] assms(1) by (simp add: has_key_def map_deps_def)
    qed
    have cyc: "is_value_error e"
      by (rule builder.drive_enough [OF _ closed assms(2) _ sort_start(1,2) loop]) simp_all
    from builder.drive_cycle [OF loop cyc sort_start(1,2)]
    have "\<not> acyclic (dep_edges (map_deps ?nm) (Collect (has_key ?nm)))" .
    moreover have "Collect (has_key ?nm) = ?V" by (auto simp: has_key_node_map)
    ultimately have "\<not> acyclic (dep_edges (map_deps ?nm) ?V)" by simp
    moreover have "topological_sort_result k ns = Inl e"
      using loop by (simp add: topological_sort_result_cases)
    ultimately show ?thesis using cyc by (simp add: is_value_error_def)
  qed
qed

text \<open>
  C6: With enough stack and every dependency among the nodes, \<open>GraphBuilder\<close> returns each id once
  with dependencies first when the graph is acyclic, and raises \<open>ValueError\<close> "Cycle detected"
  when it is not. Of several nodes with one id the last one counts.
\<close>

theorem graph_builder_sorts:
  assumes "\<forall>n \<in> set ns. set (dependencies n) \<subseteq> node_id ` set ns" "card (node_id ` set ns) < k"
  shows "if acyclic (dep_edges (map_deps (node_map ns)) (node_id ` set ns))
    then \<exists>r. topological_sort_result k ns = Inr r \<and> distinct (tsr_order r) \<and>
      set (tsr_order r) = node_id ` set ns \<and> topo_order (map_deps (node_map ns)) (tsr_order r)
    else topological_sort_result k ns = raises ValueError ''Cycle detected''"
  using assms by (rule builder_sorts)

definition job :: "string \<Rightarrow> string list \<Rightarrow> unit data_node" where
  "job i deps = sample_node\<lparr>node_id := i, dependencies := deps\<rparr>"

definition jobs :: "unit data_node list" where
  "jobs = [job ''d'' [''b'', ''c''], job ''b'' [''a''], job ''c'' [''a''], job ''a'' []]"

lemma jobs_ok:
  "\<forall>n \<in> set jobs. set (dependencies n) \<subseteq> node_id ` set jobs" "card (node_id ` set jobs) < 5"
  by (simp_all add: jobs_def job_def)

theorem graph_builder_sorts_witness:
  "if acyclic (dep_edges (map_deps (node_map jobs)) (node_id ` set jobs))
   then \<exists>r. topological_sort_result 5 jobs = Inr r \<and> distinct (tsr_order r) \<and>
      set (tsr_order r) = node_id ` set jobs \<and> topo_order (map_deps (node_map jobs)) (tsr_order r)
   else topological_sort_result 5 jobs = raises ValueError ''Cycle detected''"
  by (rule graph_builder_sorts [OF jobs_ok])

section \<open>The selection is exact and makes progress\<close>

lemma dd_get_fold_append:
  "dd_get (fold (dd_append i) deps em) j = dd_get em j @ (if j = i then deps else [])"
  by (induction deps arbitrary: em) auto

lemma add_upstreams_spec:
  assumes "distinct (map node_id ns)"
  shows "dd_get (add_upstreams ns em) i =
    dd_get em i @ (case map_of (map (\<lambda>n. (node_id n, dependencies n)) ns) i of None \<Rightarrow> [] | Some ds \<Rightarrow> ds)"
  using assms
proof (induction ns arbitrary: em)
  case Nil
  then show ?case by simp
next
  case (Cons n ns)
  have "map_of (map (\<lambda>n. (node_id n, dependencies n)) ns) (node_id n) = None"
    using Cons.prems by (auto simp: map_of_eq_None_iff)
  with Cons show ?case by (simp add: dd_get_fold_append)
qed

lemma edges_map_deps:
  assumes "distinct (map node_id ns)" "n \<in> set ns"
  shows "dd_get (edges_map ns) (node_id n) = dependencies n"
proof -
  have empty: "\<forall>i. dd_get (fold (\<lambda>n. AList.update (node_id n) []) ns d) i = []"
    if "\<forall>i. dd_get d i = []" for d :: "(string, string list) dict"
    using that by (induction ns arbitrary: d) simp_all
  have "dd_get (fold (\<lambda>n. AList.update (node_id n) []) ns ([] :: (string, string list) dict)) (node_id n) = []"
    using empty [of "[]"] by simp
  moreover have "map_of (map (\<lambda>n. (node_id n, dependencies n)) ns) (node_id n) = Some (dependencies n)"
    using assms by (simp add: map_of_eq_Some_iff comp_def)
  ultimately show ?thesis using assms(1) by (simp add: edges_map_def add_upstreams_spec)
qed

lemma node_map_distinct:
  "distinct (map node_id ns) \<Longrightarrow> n \<in> set ns \<Longrightarrow> map_of (node_map ns) (node_id n) = Some n"
  unfolding node_map_def by (rule map_of_fold_update)

text \<open>A node is ready when it waits and everything it depends on is completed.\<close>

definition is_ready :: "(string, string) dict \<Rightarrow> 'v data_node \<Rightarrow> bool" where
  "is_ready status n \<longleftrightarrow> map_of status (node_id n) \<in> pending_states \<and>
     (\<forall>d \<in> set (dependencies n). map_of status d = Some ''COMPLETED'')"

lemma collect_ready_spec:
  assumes "distinct (map node_id ns)" "set order \<subseteq> node_id ` set ns"
  shows "\<exists>rs. collect_ready status (node_map ns) (edges_map ns) order = Inr rs \<and>
    (\<forall>n \<in> set ns. n \<in> set rs \<longleftrightarrow> node_id n \<in> set order \<and> is_ready status n) \<and> set rs \<subseteq> set ns \<and>
    subseq (map node_id rs) order"
  using assms(2)
proof (induction order)
  case Nil
  then show ?case by simp
next
  case (Cons i order)
  then obtain rs where IH: "collect_ready status (node_map ns) (edges_map ns) order = Inr rs"
    "\<forall>n \<in> set ns. n \<in> set rs \<longleftrightarrow> node_id n \<in> set order \<and> is_ready status n" "set rs \<subseteq> set ns"
    "subseq (map node_id rs) order" by auto
  obtain n where n: "n \<in> set ns" "i = node_id n" using Cons.prems by auto
  have uniq: "m = n" if "m \<in> set ns" "node_id m = i" for m
    using that n assms(1) by (auto simp: distinct_map dest: inj_onD)
  have em: "dd_get (edges_map ns) i = dependencies n" and nm: "map_of (node_map ns) i = Some n"
    using edges_map_deps [OF assms(1) n(1)] node_map_distinct [OF assms(1) n(1)] n(2) by auto
  show ?case
  proof (cases "is_ready status n")
    case True
    then have "collect_ready status (node_map ns) (edges_map ns) (i # order) = Inr (n # rs)"
      using IH(1) em nm n(2) by (auto simp: is_ready_def completed_states_def list_all_iff)
    moreover have "\<forall>m \<in> set ns. m \<in> set (n # rs) \<longleftrightarrow> node_id m \<in> set (i # order) \<and> is_ready status m"
      using IH(2) uniq n True by auto
    ultimately show ?thesis using IH(3,4) n by (intro exI [of _ "n # rs"]) simp
  next
    case False
    then have "collect_ready status (node_map ns) (edges_map ns) (i # order) = Inr rs"
      using IH(1) em n(2) by (auto simp: is_ready_def completed_states_def list_all_iff)
    moreover have "\<forall>m \<in> set ns. m \<in> set rs \<longleftrightarrow> node_id m \<in> set (i # order) \<and> is_ready status m"
      using IH(2) uniq n False by auto
    ultimately show ?thesis using IH(3,4) by (intro exI [of _ rs]) (simp add: list_emb_Cons)
  qed
qed

lemma get_ready_nodes_cases:
  assumes "get_ready_nodes k ns status = Inr rs"
  obtains r where "topological_sort_result k ns = Inr r"
    "collect_ready status (node_map ns) (edges_map ns) (tsr_order r) = Inr rs"
  using assms by (auto simp: get_ready_nodes_def builder_build_dag_def Let_def bind_res_Inr)

lemma ready_nodes_spec:
  assumes "get_ready_nodes k ns status = Inr rs" "distinct (map node_id ns)"
  shows "set rs = {n \<in> set ns. is_ready status n}" "distinct (map node_id rs)"
    "\<exists>order. topo_order (map_deps (node_map ns)) order \<and> set order = node_id ` set ns \<and>
      subseq (map node_id rs) order"
proof -
  obtain r where sort: "topological_sort_result k ns = Inr r"
    and coll: "collect_ready status (node_map ns) (edges_map ns) (tsr_order r) = Inr rs"
    by (rule get_ready_nodes_cases [OF assms(1)])
  note topo = sort_ok [OF sort]
  from collect_ready_spec [OF assms(2), of "tsr_order r" status] topo coll have
    spec: "\<forall>n \<in> set ns. n \<in> set rs \<longleftrightarrow> node_id n \<in> set (tsr_order r) \<and> is_ready status n"
    "set rs \<subseteq> set ns" "subseq (map node_id rs) (tsr_order r)"
    by auto
  show "set rs = {n \<in> set ns. is_ready status n}" using spec(1,2) topo by auto
  have "distinct (tsr_order r)" using topo topo_order_distinct by blast
  then show "distinct (map node_id rs)" using spec(3) by (metis distinct_nthsI subseq_conv_nths)
  show "\<exists>order. topo_order (map_deps (node_map ns)) order \<and> set order = node_id ` set ns \<and>
      subseq (map node_id rs) order"
    using spec(3) topo by blast
qed

text \<open>
  C8: For distinct ids, the selector returns exactly the waiting nodes whose dependencies are all
  completed, without repetition and in an order that extends to a topological order of the graph.
\<close>

theorem ready_nodes_exact:
  assumes "get_ready_nodes k ns status = Inr rs" "distinct (map node_id ns)"
  shows "set rs = {n \<in> set ns. is_ready status n} \<and> distinct (map node_id rs) \<and>
    (\<exists>order. topo_order (map_deps (node_map ns)) order \<and> set order = node_id ` set ns \<and>
      subseq (map node_id rs) order)"
  using ready_nodes_spec [OF assms] by simp

definition job_status :: "(string, string) dict" where
  "job_status = [(''a'', ''COMPLETED''), (''b'', ''RUNNING''), (''c'', ''PENDING'')]"

lemma jobs_ready: "get_ready_nodes 5 jobs job_status = Inr [job ''c'' [''a'']]"
  by code_simp

theorem ready_nodes_exact_witness:
  "set [job ''c'' [''a'']] = {n \<in> set jobs. is_ready job_status n}"
  using ready_nodes_exact [OF jobs_ready] by (simp add: jobs_def job_def)

text \<open>
  C5: Scheduling cannot stall: while some node is not completed and none is in a state the selector ignores, an
  acyclic graph with no missing dependency always has a ready node.
\<close>

theorem ready_nodes_progress:
  assumes "\<forall>n \<in> set ns. set (dependencies n) \<subseteq> node_id ` set ns" "card (node_id ` set ns) < k"
    and "distinct (map node_id ns)" "acyclic (dep_edges (map_deps (node_map ns)) (node_id ` set ns))"
    and "\<forall>n \<in> set ns. map_of status (node_id n) \<in> pending_states \<union> completed_states"
    and "\<exists>n \<in> set ns. map_of status (node_id n) \<notin> completed_states"
  shows "\<exists>rs. get_ready_nodes k ns status = Inr rs \<and> rs \<noteq> []"
proof -
  obtain r where sort: "topological_sort_result k ns = Inr r"
    using builder_sorts [OF assms(1,2)] assms(4) by auto
  note topo = sort_ok [OF sort]
  from collect_ready_spec [OF assms(3), of "tsr_order r" status] topo obtain rs where
    coll: "collect_ready status (node_map ns) (edges_map ns) (tsr_order r) = Inr rs"
    and spec: "\<forall>n \<in> set ns. n \<in> set rs \<longleftrightarrow> node_id n \<in> set (tsr_order r) \<and> is_ready status n"
    by auto
  have run: "get_ready_nodes k ns status = Inr rs"
    using sort coll by (simp add: get_ready_nodes_def builder_build_dag_def)
  obtain n0 where n0: "n0 \<in> set ns" "map_of status (node_id n0) \<notin> completed_states" using assms(6) by blast
  then have "\<exists>i \<in> set (tsr_order r). map_of status i \<notin> completed_states" using topo by blast
  then obtain xs i ys where split: "tsr_order r = xs @ i # ys" "map_of status i \<notin> completed_states"
    "\<forall>j \<in> set xs. map_of status j \<in> completed_states"
    using split_list_first_prop [of "tsr_order r" "\<lambda>i. map_of status i \<notin> completed_states"] by blast
  have "i \<in> node_id ` set ns" using split(1) topo by auto
  then obtain n where n: "n \<in> set ns" "i = node_id n" by auto
  have "map_deps (node_map ns) i = dependencies n"
    using node_map_distinct [OF assms(3) n(1)] n(2) by (simp add: map_deps_def)
  then have "set (dependencies n) \<subseteq> set xs" using topo topo_order_before split(1) by metis
  then have "is_ready status n"
    using split(2,3) assms(5) n by (auto simp: is_ready_def completed_states_def)
  then have "n \<in> set rs" using spec n split(1) by simp
  then show ?thesis using run by auto
qed

lemma jobs_acyclic: "acyclic (dep_edges (map_deps (node_map jobs)) (node_id ` set jobs))"
proof (rule ccontr)
  assume "\<not> ?thesis"
  then have "topological_sort_result 5 jobs = raises ValueError ''Cycle detected''"
    using builder_sorts [OF jobs_ok] by simp
  moreover have "is_ok (topological_sort_result 5 jobs)" by code_simp
  ultimately show False by simp
qed

theorem ready_nodes_progress_witness:
  "\<exists>rs. get_ready_nodes 5 jobs [(''a'', ''COMPLETED''), (''b'', ''READY'')] = Inr rs \<and> rs \<noteq> []"
  by (rule ready_nodes_progress [OF jobs_ok _ jobs_acyclic])
    (simp_all add: jobs_def job_def pending_states_def completed_states_def)

end
