(* ===== verification/WorkQueue.thy ===== *)
theory WorkQueue
  imports DataNodes
begin

text \<open>
  The work queue: \<open>RedisQueueRepository\<close> (\<open>dag_manager/core/queue_repository.py\<close>) and
  \<open>QueueWorker\<close> (\<open>dag_manager/core/queue_worker.py\<close>).

  Redis is not part of the program: its commands are the fields of a record of functions on a
  server state, and what the properties need of them is the predicate \<open>redis_laws\<close>, which states
  the documented behaviour of the commands in terms of what \<open>LRANGE key 0 -1\<close> and \<open>HGET\<close> show. A
  failing connection is not modelled. A blocking pop on an empty list returns nothing only when it
  has a timeout, so the law about it asks for one. A popped element comes back as \<open>bytes\<close> unless the client
  was made with \<open>decode_responses\<close>, which the client of \<open>redis.from_url\<close> is not; the lists of the server are
  shown as the texts the elements encode. The locale \<open>work_queue\<close> is the contract a worker relies
  on; the repository is an interpretation of it.
\<close>

datatype redis_item = RStr string | RBytes string

fun item_text :: "redis_item \<Rightarrow> string" where
  "item_text (RStr x) = x"
| "item_text (RBytes x) = x"

record 's redis =
  decode_responses :: bool
  lpush :: "string \<Rightarrow> string \<Rightarrow> 's \<Rightarrow> 's"
  brpoplpush :: "string \<Rightarrow> string \<Rightarrow> nat \<Rightarrow> 's \<Rightarrow> 's \<times> redis_item option"
  lrem :: "string \<Rightarrow> int \<Rightarrow> string \<Rightarrow> 's \<Rightarrow> 's \<times> nat"
  hset :: "string \<Rightarrow> string \<Rightarrow> json_text \<Rightarrow> 's \<Rightarrow> 's"
  hget :: "string \<Rightarrow> string \<Rightarrow> 's \<Rightarrow> json_text option"
  expire :: "string \<Rightarrow> int \<Rightarrow> 's \<Rightarrow> 's"

record 's queue_repository =
  redis :: "'s redis"
  queue_key :: string
  processing_key :: string
  results_key :: string

text \<open>Without a client of its own the repository takes that of \<open>redis.from_url\<close>.\<close>

definition default_repository :: "'s redis option \<Rightarrow> (string \<Rightarrow> 's redis) \<Rightarrow> 's queue_repository" where
  "default_repository redis_client from_url =
     \<lparr>redis = (case redis_client of Some c \<Rightarrow> c | None \<Rightarrow> from_url ''redis://localhost:6379/0''),
      queue_key = ''qmtl:dag:work_queue'', processing_key = ''qmtl:dag:processing'',
      results_key = ''qmtl:dag:results''\<rparr>"

definition push :: "'s queue_repository \<Rightarrow> string \<Rightarrow> 's \<Rightarrow> 's" where
  "push q item s = lpush (redis q) (queue_key q) item s"

definition pop :: "'s queue_repository \<Rightarrow> nat \<Rightarrow> 's \<Rightarrow> 's \<times> redis_item option" where
  "pop q timeout s = brpoplpush (redis q) (queue_key q) (processing_key q) timeout s"

text \<open>\<open>now\<close> is the time stamp \<open>_now_iso()\<close>.\<close>

definition complete ::
    "'s queue_repository \<Rightarrow> string \<Rightarrow> string \<Rightarrow> pyval \<Rightarrow> int \<Rightarrow> 's \<Rightarrow> ('s, exn, bool) outcome" where
  "complete q now work_id result ttl s =
     (let (s, removed) = lrem (redis q) (processing_key q) 0 work_id s in
      if removed > 0
      then (case json_dumps (PDict [(''completed_at'', PStr now), (''result'', result)]) of
              None \<Rightarrow> (s, raises TypeError ''Object is not JSON serializable'')
            | Some payload \<Rightarrow>
                (expire (redis q) (results_key q) ttl
                   (hset (redis q) (results_key q) work_id payload s), Inr True))
      else (s, Inr False))"

text \<open>A missing or empty value gives \<open>None\<close>; one that is no JSON is wrapped as \<open>{"raw": data}\<close>.\<close>

datatype stored_result = Parsed pyval | RawData string

definition get_result :: "'s queue_repository \<Rightarrow> string \<Rightarrow> 's \<Rightarrow> stored_result option" where
  "get_result q work_id s =
     (case hget (redis q) (results_key q) work_id s of
        None \<Rightarrow> None
      | Some (JOther []) \<Rightarrow> None
      | Some (JOther (c # cs)) \<Rightarrow> Some (RawData (c # cs))
      | Some (JText v) \<Rightarrow> map_option Parsed (json_loads (JText v)))"

section \<open>QueueWorker\<close>

text \<open>Its three callbacks are the environment's; each may raise.\<close>

record 's worker =
  push_fn :: "string \<Rightarrow> 's \<Rightarrow> ('s, exn, unit) outcome"
  update_status_fn :: "string \<Rightarrow> string \<Rightarrow> 's \<Rightarrow> ('s, exn, unit) outcome"
  complete_fn :: "string \<Rightarrow> pyval \<Rightarrow> 's \<Rightarrow> ('s, exn, bool) outcome"

definition enqueue_ready_nodes ::
    "'s worker \<Rightarrow> 'v data_node list \<Rightarrow> 's \<Rightarrow> ('s, exn, 'v data_node list) outcome" where
  "enqueue_ready_nodes w ready_nodes s =
     and_then
       (each (\<lambda>node s. and_then (push_fn w (node_id node) s)
          (\<lambda>_. update_status_fn w (node_id node) ''READY'')) ready_nodes s)
       (\<lambda>_ s. (s, Inr ready_nodes))"

definition complete_node :: "'s worker \<Rightarrow> string \<Rightarrow> pyval \<Rightarrow> 's \<Rightarrow> ('s, exn, bool) outcome" where
  "complete_node w nid result s =
     and_then (update_status_fn w nid ''COMPLETED'' s) (\<lambda>_. complete_fn w nid result)"

section \<open>The documented behaviour of the commands\<close>

text \<open>
  \<open>ls\<close> shows the lists. \<open>LPUSH\<close> adds at the head, \<open>BRPOPLPUSH\<close> moves the last element to the
  head of the other list, \<open>LREM\<close> with count 0 removes all equal elements and counts them, and
  the hash commands leave the lists alone.
\<close>

definition redis_reply :: "'s redis \<Rightarrow> string \<Rightarrow> redis_item" where
  "redis_reply r x = (if decode_responses r then RStr x else RBytes x)"

lemma item_text_reply: "item_text (redis_reply r x) = x"
  by (simp add: redis_reply_def)

definition redis_laws :: "'s redis \<Rightarrow> ('s \<Rightarrow> string \<Rightarrow> string list) \<Rightarrow> bool" where
  "redis_laws r ls \<longleftrightarrow>
     (\<forall>k x s. ls (lpush r k x s) = (ls s)(k := x # ls s k)) \<and>
     (\<forall>k d t s xs x. k \<noteq> d \<longrightarrow> ls s k = xs @ [x] \<longrightarrow>
        snd (brpoplpush r k d t s) = Some (redis_reply r x) \<and>
        ls (fst (brpoplpush r k d t s)) = (ls s)(k := xs, d := x # ls s d)) \<and>
     (\<forall>k d t s. ls s k = [] \<longrightarrow> 0 < t \<longrightarrow>
        snd (brpoplpush r k d t s) = None \<and> ls (fst (brpoplpush r k d t s)) = ls s) \<and>
     (\<forall>k x s. snd (lrem r k 0 x s) = count_list (ls s k) x \<and>
        ls (fst (lrem r k 0 x s)) = (ls s)(k := filter (\<lambda>y. y \<noteq> x) (ls s k))) \<and>
     (\<forall>k f v s. ls (hset r k f v s) = ls s) \<and>
     (\<forall>k f v s. hget r k f (hset r k f v s) = Some v) \<and>
     (\<forall>k t s. ls (expire r k t s) = ls s) \<and>
     (\<forall>k k' f t s. 0 < t \<longrightarrow> hget r k' f (expire r k t s) = hget r k' f s)"

lemma redis_lawsD:
  assumes "redis_laws r ls"
  shows lpush_law: "ls (lpush r k x s) = (ls s)(k := x # ls s k)"
    and pop_law: "\<lbrakk>k \<noteq> d; ls s k = xs @ [x]\<rbrakk> \<Longrightarrow>
      snd (brpoplpush r k d t s) = Some (redis_reply r x) \<and>
      ls (fst (brpoplpush r k d t s)) = (ls s)(k := xs, d := x # ls s d)"
    and pop_empty_law: "\<lbrakk>ls s k = []; 0 < t\<rbrakk> \<Longrightarrow> snd (brpoplpush r k d t s) = None \<and>
      ls (fst (brpoplpush r k d t s)) = ls s"
    and lrem_law: "snd (lrem r k 0 x s) = count_list (ls s k) x"
      "ls (fst (lrem r k 0 x s)) = (ls s)(k := filter (\<lambda>y. y \<noteq> x) (ls s k))"
    and hash_laws: "ls (hset r k f v s) = ls s" "hget r k f (hset r k f v s) = Some v"
      "ls (expire r k n s) = ls s" "0 < n \<Longrightarrow> hget r k' f (expire r k n s) = hget r k' f s"
  using assms by (simp_all add: redis_laws_def)

section \<open>The operations on the two lists\<close>

definition keys_differ :: "'s queue_repository \<Rightarrow> bool" where
  "keys_differ q \<longleftrightarrow> queue_key q \<noteq> processing_key q"

lemma default_keys_differ: "keys_differ (default_repository r f)"
  by (simp add: keys_differ_def default_repository_def)

lemma push_lists:
  "redis_laws (redis q) ls \<Longrightarrow> ls (push q x s) = (ls s)(queue_key q := x # ls s (queue_key q))"
  unfolding push_def by (rule lpush_law)

lemma pop_lists:
  assumes "redis_laws (redis q) ls" "keys_differ q" "ls s (queue_key q) = xs @ [x]"
  shows "snd (pop q t s) = Some (redis_reply (redis q) x) \<and> ls (fst (pop q t s)) =
    (ls s)(queue_key q := xs, processing_key q := x # ls s (processing_key q))"
  using pop_law [OF assms(1) _ assms(3)] assms(2) by (simp add: keys_differ_def pop_def)

lemma pop_empty:
  assumes "redis_laws (redis q) ls" "ls s (queue_key q) = []" "0 < t"
  shows "snd (pop q t s) = None \<and> ls (fst (pop q t s)) = ls s"
  using pop_empty_law [OF assms] by (simp add: pop_def)

lemma complete_lists:
  assumes "redis_laws (redis q) ls"
  shows "ls (fst (complete q now x res ttl s)) =
    (ls s)(processing_key q := filter (\<lambda>y. y \<noteq> x) (ls s (processing_key q)))"
proof -
  obtain t n where l: "lrem (redis q) (processing_key q) 0 x s = (t, n)" by fastforce
  have "ls t = (ls s)(processing_key q := filter (\<lambda>y. y \<noteq> x) (ls s (processing_key q)))"
    using lrem_law(2) [OF assms, of "processing_key q" x s] l by simp
  then show ?thesis
    using assms by (auto simp: complete_def l hash_laws split: option.splits)
qed

section \<open>The contract of a work queue\<close>

text \<open>The outcomes of \<open>n\<close> runs of a step.\<close>

fun outcomes :: "('s \<Rightarrow> 's \<times> 'y) \<Rightarrow> nat \<Rightarrow> 's \<Rightarrow> 's \<times> 'y list" where
  "outcomes step 0 s = (s, [])"
| "outcomes step (Suc n) s =
     (let (s, y) = step s; (s, ys) = outcomes step n s in (s, y # ys))"

text \<open>
  What a worker relies on: items wait in one list, newest first; the oldest one moves to the list of
  items in progress and is answered in the form \<open>reply\<close> gives it, and finishing an item takes it out there. An empty queue answers only a \<open>deq\<close>
  with a timeout.
\<close>

locale work_queue =
  fixes inv :: "'s \<Rightarrow> bool"
    and waiting running :: "'s \<Rightarrow> 'x list"
    and enq :: "'x \<Rightarrow> 's \<Rightarrow> 's"
    and reply :: "'x \<Rightarrow> 'y"
    and deq :: "nat \<Rightarrow> 's \<Rightarrow> 's \<times> 'y option"
    and finish :: "'p \<Rightarrow> 'x \<Rightarrow> 's \<Rightarrow> 's"
  assumes enq_law: "inv s \<Longrightarrow> inv (enq x s) \<and> waiting (enq x s) = x # waiting s \<and> running (enq x s) = running s"
    and deq_law: "\<lbrakk>inv s; waiting s = xs @ [x]\<rbrakk> \<Longrightarrow> snd (deq t s) = Some (reply x) \<and> inv (fst (deq t s)) \<and>
      waiting (fst (deq t s)) = xs \<and> running (fst (deq t s)) = x # running s"
    and deq_empty_law: "\<lbrakk>inv s; waiting s = []; 0 < t\<rbrakk> \<Longrightarrow> snd (deq t s) = None \<and> inv (fst (deq t s)) \<and>
      waiting (fst (deq t s)) = [] \<and> running (fst (deq t s)) = running s"
    and finish_law: "inv s \<Longrightarrow> inv (finish p x s) \<and> waiting (finish p x s) = waiting s \<and>
      running (finish p x s) = filter (\<lambda>y. y \<noteq> x) (running s)"
begin

definition holds :: "'s \<Rightarrow> 'x \<Rightarrow> nat" where
  "holds s x = count_list (waiting s) x + count_list (running s) x"

lemma holds_enq: "inv s \<Longrightarrow> holds (enq y s) x = holds s x + (if y = x then 1 else 0)"
  using enq_law [of s y] by (simp add: holds_def)

lemma holds_deq: "\<lbrakk>inv s; 0 < t\<rbrakk> \<Longrightarrow> holds (fst (deq t s)) x = holds s x"
  using deq_empty_law [of s t] deq_law [of s _ _ t]
  by (cases "waiting s" rule: rev_cases) (simp_all add: holds_def)

lemma holds_finish: "\<lbrakk>inv s; y \<noteq> x\<rbrakk> \<Longrightarrow> holds (finish p y s) x = holds s x"
proof -
  assume "inv s" "y \<noteq> x"
  moreover from \<open>y \<noteq> x\<close> have "count_list (filter (\<lambda>z. z \<noteq> y) zs) x = count_list zs x" for zs
    by (induction zs) auto
  ultimately show ?thesis using finish_law [of s p y] by (simp add: holds_def)
qed

lemma enq_all:
  "inv s \<Longrightarrow> inv (fold enq xs s) \<and> waiting (fold enq xs s) = rev xs @ waiting s \<and>
    running (fold enq xs s) = running s"
  using enq_law by (induction xs arbitrary: s) auto

lemma deq_all:
  assumes "inv s" "waiting s = rev xs"
  shows "snd (outcomes (deq t) (length xs) s) = map (Some \<circ> reply) xs \<and>
    running (fst (outcomes (deq t) (length xs) s)) = rev xs @ running s"
  using assms
proof (induction xs arbitrary: s)
  case (Cons x xs)
  then have "waiting s = rev xs @ [x]" by simp
  note step = deq_law [OF Cons.prems(1) this, of t]
  from Cons.IH [of "fst (deq t s)"] step show ?case by (simp add: split_beta)
qed simp

text \<open>First in, first out.\<close>

lemma fifo:
  assumes "inv s" "waiting s = []"
  shows "snd (outcomes (deq t) (length xs) (fold enq xs s)) = map (Some \<circ> reply) xs \<and>
    running (fst (outcomes (deq t) (length xs) (fold enq xs s))) = rev xs @ running s"
  using deq_all [of "fold enq xs s" xs t] enq_all [OF assms(1), of xs] assms(2) by simp

end

text \<open>The repository keeps the contract on a server that behaves as documented.\<close>

interpretation repo: work_queue "\<lambda>s. redis_laws (redis q) ls \<and> keys_differ q"
    "\<lambda>s. ls s (queue_key q)" "\<lambda>s. ls s (processing_key q)" "push q" "redis_reply (redis q)" "pop q"
    "\<lambda>(res, ttl, now) x s. fst (complete q now x res ttl s)" for q ls
proof (unfold_locales, goal_cases)
  case (1 s x)
  then show ?case using push_lists [of q ls x s] by (auto simp: keys_differ_def)
next
  case (2 s xs x t)
  then show ?case using pop_lists [of q ls s xs x t] by (auto simp: keys_differ_def)
next
  case (3 s t)
  then show ?case using pop_empty [of q ls s t] by simp
next
  case (4 s p x)
  obtain res ttl now where "p = (res, ttl, now)" by (cases p)
  with 4 show ?case using complete_lists [of q ls now x res ttl s] by (auto simp: keys_differ_def)
qed

section \<open>Items are neither lost nor duplicated\<close>

datatype queue_op = Push string | Pop nat | Complete string pyval int string

definition queue_step :: "'s queue_repository \<Rightarrow> queue_op \<Rightarrow> 's \<Rightarrow> 's" where
  "queue_step q op s =
     (case op of
        Push x \<Rightarrow> push q x s
      | Pop t \<Rightarrow> fst (pop q t s)
      | Complete x res ttl now \<Rightarrow> fst (complete q now x res ttl s))"

definition copies :: "'s queue_repository \<Rightarrow> ('s \<Rightarrow> string \<Rightarrow> string list) \<Rightarrow> string \<Rightarrow> 's \<Rightarrow> nat" where
  "copies q ls x s = count_list (ls s (queue_key q)) x + count_list (ls s (processing_key q)) x"

lemma copies_holds: "copies q ls x s = repo.holds ls q s x"
  by (simp add: copies_def repo.holds_def)

lemma copies_step:
  assumes "redis_laws (redis q) ls" "keys_differ q" "op \<noteq> Pop 0" "\<forall>res ttl now. op \<noteq> Complete x res ttl now"
  shows "copies q ls x (queue_step q op s) = copies q ls x s + (if op = Push x then 1 else 0)"
proof (cases op)
  case (Push y)
  then show ?thesis using repo.holds_enq [of q ls y s x] assms(1,2) by (simp add: queue_step_def copies_holds)
next
  case (Pop t)
  then show ?thesis using repo.holds_deq [of q ls t s x] assms by (simp add: queue_step_def copies_holds)
next
  case (Complete y res ttl now)
  then show ?thesis using repo.holds_finish [of q ls y x "(res, ttl, now)" s] assms
    by (auto simp: queue_step_def copies_holds)
qed

text \<open>
  C11: Over any sequence of pushes, pops (with a timeout) and completions, a work item that nobody
  completes is neither lost nor duplicated: its copies in the queue and in the processing list
  together are those at the start plus the pushes of it.
\<close>

theorem queue_conserves_items:
  assumes "redis_laws (redis q) ls" "keys_differ q" "Pop 0 \<notin> set ops"
    and "\<forall>res ttl now. Complete x res ttl now \<notin> set ops"
  shows "copies q ls x (fold (queue_step q) ops s) = copies q ls x s + count_list ops (Push x)"
  using assms(3,4)
proof (induction ops arbitrary: s)
  case Nil
  then show ?case by simp
next
  case (Cons op ops)
  then have "copies q ls x (queue_step q op s) = copies q ls x s + (if op = Push x then 1 else 0)"
    by (intro copies_step [OF assms(1,2)]) auto
  with Cons show ?case by simp
qed

lemma push_all_lists:
  assumes "redis_laws (redis q) ls"
  shows "ls (fold (push q) xs s) = (ls s)(queue_key q := rev xs @ ls s (queue_key q))"
  using push_lists [OF assms] by (induction xs arbitrary: s) auto

definition pop_all :: "'s queue_repository \<Rightarrow> nat \<Rightarrow> nat \<Rightarrow> 's \<Rightarrow> 's \<times> redis_item option list" where
  "pop_all q t = outcomes (pop q t)"

text \<open>
  Items come out of an empty queue in the order they were pushed, as \<open>str\<close> or as \<open>bytes\<close>, and each popped item is in
  the processing list afterwards.
\<close>

theorem queue_is_fifo:
  assumes "redis_laws (redis q) ls" "keys_differ q" "ls s (queue_key q) = []"
  shows "snd (pop_all q t (length xs) (fold (push q) xs s)) = map (Some \<circ> redis_reply (redis q)) xs \<and>
    ls (fst (pop_all q t (length xs) (fold (push q) xs s))) (processing_key q) =
      rev xs @ ls s (processing_key q)"
  using repo.fifo [of q ls s t xs] assms by (simp add: pop_all_def)

text \<open>
  Completing an item answers whether it was being processed. If it was, all its copies leave
  the processing list; with a result that JSON can hold, the result is then what \<open>get_result\<close>
  returns, but with any other result the call raises \<open>TypeError\<close> after the item is gone.
\<close>

theorem complete_outcome:
  assumes "redis_laws (redis q) ls" "0 < ttl"
    and "complete q now x result ttl s = (s', r)"
  shows "x \<notin> set (ls s' (processing_key q)) \<and>
    (if x \<notin> set (ls s (processing_key q)) then r = Inr False
     else if json_ok result
     then r = Inr True \<and> get_result q x s' =
       Some (Parsed (PDict [(''completed_at'', PStr now), (''result'', result)]))
     else r = raises TypeError ''Object is not JSON serializable'')"
proof -
  obtain t n where l: "lrem (redis q) (processing_key q) 0 x s = (t, n)" by fastforce
  have n: "n = count_list (ls s (processing_key q)) x"
    using lrem_law(1) [OF assms(1), of "processing_key q" x s] l by simp
  then have pos: "0 < n \<longleftrightarrow> x \<in> set (ls s (processing_key q))"
    using count_list_0_iff [of "ls s (processing_key q)" x] by (cases n) auto
  have "x \<notin> set (ls s' (processing_key q))"
    using complete_lists [OF assms(1), of now x result ttl s] assms(3) by simp
  then show ?thesis
    using assms l pos
    by (auto simp: complete_def json_dumps_def json_loads_def get_result_def hash_laws split: if_splits)
qed

text \<open>A store that behaves as documented, for the examples.\<close>

record store =
  st_lists :: "string \<Rightarrow> string list"
  st_hashes :: "string \<Rightarrow> string \<Rightarrow> json_text option"

definition demo_redis :: "store redis" where
  "demo_redis =
     \<lparr>decode_responses = False,
      lpush = (\<lambda>k x s. s\<lparr>st_lists := (st_lists s)(k := x # st_lists s k)\<rparr>),
      brpoplpush = (\<lambda>k d t s. case rev (st_lists s k) of
          [] \<Rightarrow> (s, None)
        | x # xs \<Rightarrow>
            (let s1 = s\<lparr>st_lists := (st_lists s)(k := rev xs)\<rparr> in
             (s1\<lparr>st_lists := (st_lists s1)(d := x # st_lists s1 d)\<rparr>, Some (RBytes x)))),
      lrem = (\<lambda>k c x s. (s\<lparr>st_lists := (st_lists s)(k := filter (\<lambda>y. y \<noteq> x) (st_lists s k))\<rparr>,
          count_list (st_lists s k) x)),
      hset = (\<lambda>k f v s. s\<lparr>st_hashes := (st_hashes s)(k := (st_hashes s k)(f := Some v))\<rparr>),
      hget = (\<lambda>k f s. st_hashes s k f),
      expire = (\<lambda>k t s. s)\<rparr>"

lemma demo_laws: "redis_laws demo_redis st_lists"
  by (auto simp: redis_laws_def redis_reply_def demo_redis_def Let_def fun_eq_iff split: list.splits)

definition demo_queue :: "store queue_repository" where
  "demo_queue = default_repository None (\<lambda>url. demo_redis)"

definition empty_store :: store where
  "empty_store = \<lparr>st_lists = (\<lambda>_. []), st_hashes = (\<lambda>_ _. None)\<rparr>"

lemma demo_queue_laws: "redis_laws (redis demo_queue) st_lists" "keys_differ demo_queue"
  by (simp_all add: demo_queue_def demo_laws default_keys_differ) (simp add: default_repository_def demo_laws)

theorem queue_conserves_items_witness:
  "copies demo_queue st_lists ''b''
     (fold (queue_step demo_queue)
        [Push ''a'', Push ''b'', Pop 1, Complete ''a'' PNone 3600 ''now'', Pop 1] empty_store) =
   copies demo_queue st_lists ''b'' empty_store + 1"
  using queue_conserves_items [OF demo_queue_laws,
      of "[Push ''a'', Push ''b'', Pop 1, Complete ''a'' PNone 3600 ''now'', Pop 1]" "''b''" empty_store]
  by simp

theorem queue_is_fifo_witness:
  "snd (pop_all demo_queue 1 2 (fold (push demo_queue) [''a'', ''b''] empty_store)) =
    [Some (RBytes ''a''), Some (RBytes ''b'')]"
  using queue_is_fifo [OF demo_queue_laws, of empty_store 1 "[''a'', ''b'']"]
  by (simp add: empty_store_def numeral_2_eq_2 demo_queue_def default_repository_def demo_redis_def redis_reply_def)

lemma demo_complete:
  "complete demo_queue ''now'' ''a'' (PObject 1) 3600
     (fst (pop demo_queue 1 (push demo_queue ''a'' empty_store))) =
   (fst (complete demo_queue ''now'' ''a'' (PObject 1) 3600
     (fst (pop demo_queue 1 (push demo_queue ''a'' empty_store)))),
    raises TypeError ''Object is not JSON serializable'')"
  by (simp add: complete_def json_dumps_def demo_queue_def default_repository_def demo_redis_def
      pop_def push_def empty_store_def Let_def)

theorem complete_outcome_witness:
  "''a'' \<notin> set (st_lists (fst (complete demo_queue ''now'' ''a'' (PObject 1) 3600
     (fst (pop demo_queue 1 (push demo_queue ''a'' empty_store))))) (processing_key demo_queue))"
  using complete_outcome [OF demo_queue_laws(1) _ demo_complete] by simp

text \<open>The worker wired to the repository and a status dict.\<close>

definition repo_worker :: "'s queue_repository \<Rightarrow> string \<Rightarrow> ('s \<times> (string, string) dict) worker" where
  "repo_worker q now =
     \<lparr>push_fn = (\<lambda>x (s, st). ((push q x s, st), Inr ())),
      update_status_fn = (\<lambda>x status (s, st). ((s, AList.update x status st), Inr ())),
      complete_fn = (\<lambda>x result (s, st).
        (case complete q now x result 3600 s of (s', r) \<Rightarrow> ((s', st), r)))\<rparr>"

text \<open>
  The worker pushes every ready node in order and marks it ready before it goes on; with the
  repository's \<open>push\<close> and a status dict the queue afterwards holds the ids of the ready nodes,
  the first one next to be popped.
\<close>

theorem enqueue_ready_spec:
  assumes "redis_laws (redis q) ls"
  shows "\<exists>s' st'. enqueue_ready_nodes (repo_worker q now) ns (s, st) = ((s', st'), Inr ns) \<and>
    ls s' = (ls s)(queue_key q := rev (map node_id ns) @ ls s (queue_key q)) \<and>
    (\<forall>i. map_of st' i = (if i \<in> node_id ` set ns then Some ''READY'' else map_of st i))"
proof -
  have "each (\<lambda>node s. and_then (push_fn (repo_worker q now) (node_id node) s)
          (\<lambda>_. update_status_fn (repo_worker q now) (node_id node) ''READY'')) ns (s, st) =
      ((fold (push q) (map node_id ns) s, fold (\<lambda>i. AList.update i ''READY'') (map node_id ns) st), Inr ())"
    by (induction ns arbitrary: s st) (simp_all add: repo_worker_def)
  moreover have "map_of (fold (\<lambda>i. AList.update i ''READY'') xs st) i =
      (if i \<in> set xs then Some ''READY'' else map_of st i)" for xs i
    by (induction xs arbitrary: st) auto
  ultimately show ?thesis
    using push_all_lists [OF assms, of "map node_id ns" s] by (simp add: enqueue_ready_nodes_def)
qed

theorem enqueue_ready_spec_witness:
  "\<exists>s' st'. enqueue_ready_nodes (repo_worker demo_queue ''now'') [sample_node] (empty_store, []) =
     ((s', st'), Inr [sample_node]) \<and>
    st_lists s' = (st_lists empty_store)(queue_key demo_queue := [''''])"
  using enqueue_ready_spec [OF demo_queue_laws(1), of "''now''" "[sample_node]" empty_store "[]"]
  by (auto simp: sample_node_def empty_store_def)

end
