(* ===== verification/Workflow.thy ===== *)
theory Workflow
  imports WorkQueue Scheduling
begin

text \<open>
  The scheduling workflow of \<open>dag_manager/core\<close>: the ready nodes of \<open>ReadyNodeSelector\<close> are put into the
  work queue by \<open>QueueWorker\<close>, consumers pop them and report them completed. What drives the workflow is not in
  the repository, so any number of threads may schedule and consume and interleave at every call of a callback;
  the order of the completions is shown to respect the dependencies.
\<close>

section \<open>The worker as a sequence of calls\<close>

datatype worker_call = CallPush string | CallStatus string string | CallComplete string pyval

fun make_call :: "'s worker \<Rightarrow> worker_call \<Rightarrow> 's \<Rightarrow> ('s, exn, unit) outcome" where
  "make_call w (CallPush i) s = push_fn w i s"
| "make_call w (CallStatus i x) s = update_status_fn w i x s"
| "make_call w (CallComplete i r) s = and_then (complete_fn w i r s) (\<lambda>_ s. (s, Inr ()))"

fun enqueue_calls :: "'v data_node list \<Rightarrow> worker_call list" where
  "enqueue_calls [] = []"
| "enqueue_calls (n # ns) = CallPush (node_id n) # CallStatus (node_id n) ''READY'' # enqueue_calls ns"

definition complete_calls :: "string \<Rightarrow> pyval \<Rightarrow> worker_call list" where
  "complete_calls i r = [CallStatus i ''COMPLETED'', CallComplete i r]"

text \<open>The calls are those of the two methods.\<close>

lemma enqueue_is_calls:
  "enqueue_ready_nodes w ns s = and_then (each (make_call w) (enqueue_calls ns) s) (\<lambda>_ s. (s, Inr ns))"
proof -
  have "each (\<lambda>node s. and_then (push_fn w (node_id node) s)
        (\<lambda>_. update_status_fn w (node_id node) ''READY'')) ns s = each (make_call w) (enqueue_calls ns) s"
    by (induction ns arbitrary: s) (simp_all add: and_then_def split: prod.split sum.split)
  then show ?thesis by (simp add: enqueue_ready_nodes_def)
qed

lemma complete_is_calls:
  "each (make_call w) (complete_calls i r) s = and_then (complete_node w i r s) (\<lambda>_ s. (s, Inr ()))"
  by (simp add: complete_calls_def complete_node_def and_then_def split: prod.split sum.split)

section \<open>Threads that share the queue and the statuses\<close>

text \<open>
  Each thread has the calls it still has to make. \<open>wf_done\<close> is no part of the program: it records the nodes in
  the order in which they are reported completed.
\<close>

record 's workflow =
  wf_store :: 's
  wf_status :: "(string, string) dict"
  wf_threads :: "nat \<Rightarrow> worker_call list"
  wf_done :: "string list"

definition thread_calls :: "nat \<Rightarrow> worker_call list \<Rightarrow> 's workflow \<Rightarrow> 's workflow" where
  "thread_calls c xs s = s\<lparr>wf_threads := (wf_threads s)(c := xs)\<rparr>"

text \<open>
  A thread selects the ready nodes and goes on to enqueue them, pops an item (with a timeout) and goes on
  to complete it with some result, or makes its next call, whose exception ends what it is doing. Whoever
  executes the nodes may set any other status. The ids that \<open>complete_node\<close> and \<open>complete\<close> take are \<open>str\<close>, so a
  consumer whose client answers \<open>bytes\<close> decodes what it popped.
\<close>

datatype wf_action = Select nat | Take nat nat pyval | Advance nat | Report string string

fun wf_act ::
    "nat \<Rightarrow> 'v data_node list \<Rightarrow> 's queue_repository \<Rightarrow> string \<Rightarrow> wf_action \<Rightarrow> 's workflow \<Rightarrow> 's workflow option" where
  "wf_act k ns q now (Select c) s =
     (if wf_threads s c \<noteq> [] then None
      else (case get_ready_nodes k ns (wf_status s) of
              Inl e \<Rightarrow> Some s
            | Inr rs \<Rightarrow> Some (thread_calls c (enqueue_calls rs) s)))"
| "wf_act k ns q now (Take c t r) s =
     (if wf_threads s c \<noteq> [] \<or> t = 0 then None
      else (case pop q t (wf_store s) of
              (s', None) \<Rightarrow> Some (s\<lparr>wf_store := s'\<rparr>)
            | (s', Some i) \<Rightarrow> Some (thread_calls c (complete_calls (item_text i) r) (s\<lparr>wf_store := s'\<rparr>))))"
| "wf_act k ns q now (Advance c) s =
     (case wf_threads s c of
        [] \<Rightarrow> None
      | x # xs \<Rightarrow>
          (case make_call (repo_worker q now) x (wf_store s, wf_status s) of
             ((s', st'), r) \<Rightarrow>
               Some (thread_calls c (if is_ok r then xs else [])
                 (s\<lparr>wf_store := s', wf_status := st',
                    wf_done := wf_done s @ (case x of CallStatus i y \<Rightarrow> if y = ''COMPLETED'' then [i] else [] | _ \<Rightarrow> [])\<rparr>))))"
| "wf_act k ns q now (Report i x) s =
     (if x = ''COMPLETED'' then None else Some (s\<lparr>wf_status := AList.update i x (wf_status s)\<rparr>))"

inductive wf_run ::
    "nat \<Rightarrow> 'v data_node list \<Rightarrow> 's queue_repository \<Rightarrow> string \<Rightarrow> 's workflow \<Rightarrow> 's workflow \<Rightarrow> bool"
  for k ns q now s\<^sub>0 where
  start: "wf_run k ns q now s\<^sub>0 s\<^sub>0"
| act: "wf_run k ns q now s\<^sub>0 s \<Longrightarrow> wf_act k ns q now a s = Some s' \<Longrightarrow> wf_run k ns q now s\<^sub>0 s'"

definition wf_start :: "('s \<Rightarrow> string \<Rightarrow> string list) \<Rightarrow> 's queue_repository \<Rightarrow> 's workflow \<Rightarrow> bool" where
  "wf_start ls q s \<longleftrightarrow> ls (wf_store s) (queue_key q) = [] \<and> ls (wf_store s) (processing_key q) = [] \<and>
     (\<forall>i. map_of (wf_status s) i \<noteq> Some ''COMPLETED'') \<and> wf_threads s = (\<lambda>_. []) \<and> wf_done s = []"

section \<open>No node is executed before its dependencies\<close>

definition allowed :: "'v data_node list \<Rightarrow> string list \<Rightarrow> string \<Rightarrow> bool" where
  "allowed ns order i \<longleftrightarrow> (\<exists>n \<in> set ns. node_id n = i \<and> set (dependencies n) \<subseteq> set order)"

lemma allowed_mono: "allowed ns xs i \<Longrightarrow> allowed ns (xs @ ys) i"
  by (auto simp: allowed_def)

fun call_item :: "worker_call \<Rightarrow> string" where
  "call_item (CallPush i) = i"
| "call_item (CallStatus i x) = i"
| "call_item (CallComplete i r) = i"

definition done_in_order :: "'v data_node list \<Rightarrow> string list \<Rightarrow> bool" where
  "done_in_order ns order \<longleftrightarrow> (\<forall>xs i ys. order = xs @ i # ys \<longrightarrow> allowed ns xs i)"

lemma done_in_order_Nil: "done_in_order ns []"
  by (simp add: done_in_order_def)

lemma done_in_order_snoc: "done_in_order ns xs \<Longrightarrow> allowed ns xs i \<Longrightarrow> done_in_order ns (xs @ [i])"
  by (auto simp: done_in_order_def append_eq_append_conv2 Cons_eq_append_conv append_eq_Cons_conv)

text \<open>
  The items in the queue, in progress and in the threads are allowed to run, and what counts as completed was
  reported completed. The last part holds even where a status is overwritten later.
\<close>

definition wf_inv ::
    "('s \<Rightarrow> string \<Rightarrow> string list) \<Rightarrow> 'v data_node list \<Rightarrow> 's queue_repository \<Rightarrow> 's workflow \<Rightarrow> bool" where
  "wf_inv ls ns q s \<longleftrightarrow>
     (\<forall>i \<in> set (ls (wf_store s) (queue_key q)) \<union> set (ls (wf_store s) (processing_key q)). allowed ns (wf_done s) i) \<and>
     (\<forall>c. \<forall>x \<in> set (wf_threads s c). allowed ns (wf_done s) (call_item x)) \<and>
     (\<forall>i. map_of (wf_status s) i = Some ''COMPLETED'' \<longrightarrow> i \<in> set (wf_done s)) \<and>
     done_in_order ns (wf_done s)"

lemma enqueue_calls_items: "x \<in> set (enqueue_calls rs) \<Longrightarrow> \<exists>n \<in> set rs. call_item x = node_id n"
  by (induction rs) auto

lemma ready_allowed:
  assumes "\<forall>i. map_of status i = Some ''COMPLETED'' \<longrightarrow> i \<in> set order" "n \<in> set ns" "is_ready status n"
  shows "allowed ns order (node_id n)"
  using assms by (auto simp: allowed_def is_ready_def)

lemma wf_inv_calls:
  "wf_inv ls ns q s \<Longrightarrow> \<forall>x \<in> set xs. allowed ns (wf_done s) (call_item x) \<Longrightarrow> wf_inv ls ns q (thread_calls c xs s)"
  by (simp add: wf_inv_def thread_calls_def)

lemma select_inv:
  assumes "wf_inv ls ns q s" "distinct (map node_id ns)" "wf_act k ns q now (Select c) s = Some s'"
  shows "wf_inv ls ns q s'"
proof (cases "get_ready_nodes k ns (wf_status s)")
  case (Inl e)
  then show ?thesis using assms by (simp split: if_splits)
next
  case (Inr rs)
  have "allowed ns (wf_done s) (call_item x)" if x: "x \<in> set (enqueue_calls rs)" for x
  proof -
    obtain n where "n \<in> set rs" "call_item x = node_id n" using enqueue_calls_items [OF x] by blast
    then show ?thesis
      using ready_nodes_spec(1) [OF Inr assms(2)] assms(1)
        ready_allowed [of "wf_status s" "wf_done s" n ns] by (simp add: wf_inv_def)
  qed
  then have "wf_inv ls ns q (thread_calls c (enqueue_calls rs) s)" by (intro wf_inv_calls [OF assms(1)]) blast
  moreover have "s' = thread_calls c (enqueue_calls rs) s" using Inr assms(3) by (simp split: if_splits)
  ultimately show ?thesis by simp
qed

lemma take_inv:
  assumes "wf_inv ls ns q s" "redis_laws (redis q) ls" "keys_differ q"
    and "wf_act k ns q now (Take c t r) s = Some s'"
  shows "wf_inv ls ns q s'"
proof -
  have t: "0 < t" "wf_threads s c = []" using assms(4) by (auto split: if_splits)
  show ?thesis
  proof (cases "ls (wf_store s) (queue_key q)" rule: rev_cases)
    case Nil
    obtain u where "pop q t (wf_store s) = (u, None)" "ls u = ls (wf_store s)"
      using pop_empty [OF assms(2) Nil t(1)] by (metis prod.collapse)
    moreover from this have "s' = s\<lparr>wf_store := u\<rparr>" using assms(4) t by simp
    ultimately show ?thesis using assms(1) by (simp add: wf_inv_def)
  next
    case (snoc xs i)
    obtain u where u: "pop q t (wf_store s) = (u, Some (redis_reply (redis q) i))"
        "ls u = (ls (wf_store s))(queue_key q := xs, processing_key q := i # ls (wf_store s) (processing_key q))"
      using pop_lists [OF assms(2,3) snoc, of t] by (metis prod.collapse)
    have i: "allowed ns (wf_done s) i" using assms(1) snoc by (simp add: wf_inv_def)
    have "wf_inv ls ns q (s\<lparr>wf_store := u\<rparr>)"
      using assms(1,3) snoc u(2) i by (auto simp: wf_inv_def keys_differ_def)
    then have "wf_inv ls ns q (thread_calls c (complete_calls i r) (s\<lparr>wf_store := u\<rparr>))"
      by (rule wf_inv_calls) (use i in \<open>simp add: complete_calls_def\<close>)
    then show ?thesis using assms(4) t u(1) by (simp add: item_text_reply)
  qed
qed

lemma mark_inv:
  assumes "wf_inv ls ns q s" "allowed ns (wf_done s) i"
  shows "wf_inv ls ns q (s\<lparr>wf_status := AList.update i x (wf_status s),
    wf_done := wf_done s @ (if x = ''COMPLETED'' then [i] else [])\<rparr>)"
proof (cases "x = ''COMPLETED''")
  case True
  have "done_in_order ns (wf_done s @ [i])" using assms by (intro done_in_order_snoc) (auto simp: wf_inv_def)
  then show ?thesis using assms True by (simp add: wf_inv_def allowed_mono)
next
  case False
  then show ?thesis using assms by (simp add: wf_inv_def)
qed

lemma advance_inv:
  assumes "wf_inv ls ns q s" "redis_laws (redis q) ls" "keys_differ q"
    and "wf_act k ns q now (Advance c) s = Some s'"
  shows "wf_inv ls ns q s'"
proof -
  obtain x xs where x: "wf_threads s c = x # xs" using assms(4) by (cases "wf_threads s c") auto
  then have ok: "\<forall>y \<in> set (x # xs). allowed ns (wf_done s) (call_item y)"
    using assms(1) by (metis wf_inv_def)
  show ?thesis
  proof (cases x)
    case (CallPush i)
    have "wf_inv ls ns q (s\<lparr>wf_store := push q i (wf_store s)\<rparr>)"
      using assms(1,3) ok CallPush push_lists [OF assms(2), of i "wf_store s"] by (auto simp: wf_inv_def keys_differ_def)
    from wf_inv_calls [OF this, of xs c] show ?thesis
      using assms(4) x ok CallPush by (simp add: repo_worker_def)
  next
    case (CallStatus i y)
    then have "allowed ns (wf_done s) i" using ok by simp
    note marked = mark_inv [OF assms(1) this, of y]
    from wf_inv_calls [OF this, of xs c] show ?thesis
      using assms(4) x ok CallStatus by (simp add: repo_worker_def allowed_mono)
  next
    case (CallComplete i r)
    obtain u y where u: "complete q now i r 3600 (wf_store s) = (u, y)" by fastforce
    then have "ls u = (ls (wf_store s))(processing_key q := filter (\<lambda>y. y \<noteq> i) (ls (wf_store s) (processing_key q)))"
      using complete_lists [OF assms(2), of now i r 3600 "wf_store s"] by simp
    then have "wf_inv ls ns q (s\<lparr>wf_store := u\<rparr>)"
      using assms(1,3) by (auto simp: wf_inv_def keys_differ_def)
    from wf_inv_calls [OF this, of "if is_ok y then xs else []" c] show ?thesis
      using assms(4) x ok CallComplete u by (cases y) (simp_all add: repo_worker_def)
  qed
qed

lemma wf_act_inv:
  assumes "wf_inv ls ns q s" "redis_laws (redis q) ls" "keys_differ q" "distinct (map node_id ns)"
    and "wf_act k ns q now a s = Some s'"
  shows "wf_inv ls ns q s'"
proof (cases a)
  case (Select c)
  then show ?thesis using assms by (blast intro: select_inv)
next
  case (Take c t r)
  then show ?thesis using assms by (blast intro: take_inv)
next
  case (Advance c)
  then show ?thesis using assms by (blast intro: advance_inv)
next
  case (Report i x)
  then have "s' = s\<lparr>wf_status := AList.update i x (wf_status s)\<rparr>" "x \<noteq> ''COMPLETED''"
    using assms(5) by (auto split: if_splits)
  then show ?thesis using assms(1) by (simp add: wf_inv_def)
qed

lemma wf_run_inv:
  assumes "wf_run k ns q now s\<^sub>0 s" "wf_inv ls ns q s\<^sub>0" "redis_laws (redis q) ls" "keys_differ q" "distinct (map node_id ns)"
  shows "wf_inv ls ns q s"
  using assms(1)
proof induction
  case start
  show ?case by (rule assms(2))
next
  case (act s a s')
  show ?case by (rule wf_act_inv [OF act.IH assms(3-5) act.hyps(2)])
qed

lemma wf_start_inv: "wf_start ls q s \<Longrightarrow> wf_inv ls ns q s"
  by (simp add: wf_start_def wf_inv_def done_in_order_Nil)

text \<open>
  C4: Whatever schedulers, consumers and executors do and however their calls interleave, a node is reported
  completed only after every node it depends on was.
\<close>

theorem workflow_respects_dependencies:
  assumes "redis_laws (redis q) ls" "keys_differ q" "distinct (map node_id ns)"
    and "wf_start ls q s\<^sub>0" "wf_run k ns q now s\<^sub>0 s" "wf_done s = xs @ i # ys"
  shows "\<exists>n \<in> set ns. node_id n = i \<and> set (dependencies n) \<subseteq> set xs"
  using wf_run_inv [OF assms(5) wf_start_inv [OF assms(4)] assms(1-3)] assms(6)
  by (auto simp: wf_inv_def done_in_order_def allowed_def)

fun wf_acts ::
    "nat \<Rightarrow> 'v data_node list \<Rightarrow> 's queue_repository \<Rightarrow> string \<Rightarrow> wf_action list \<Rightarrow> 's workflow \<Rightarrow> 's workflow option" where
  "wf_acts k ns q now [] s = Some s"
| "wf_acts k ns q now (a # as) s =
     (case wf_act k ns q now a s of None \<Rightarrow> None | Some s' \<Rightarrow> wf_acts k ns q now as s')"

lemma wf_acts_run: "wf_acts k ns q now as s = Some s' \<Longrightarrow> wf_run k ns q now s\<^sub>0 s \<Longrightarrow> wf_run k ns q now s\<^sub>0 s'"
  by (induction as arbitrary: s) (auto split: option.splits intro: wf_run.act)

definition chain :: "unit data_node list" where
  "chain = [job ''b'' [''a''], job ''a'' []]"

definition demo_workflow :: "store workflow" where
  "demo_workflow = \<lparr>wf_store = empty_store, wf_status = [], wf_threads = (\<lambda>_. []), wf_done = []\<rparr>"

definition enqueue_once :: "wf_action list" where
  "enqueue_once = [Select 0, Advance 0, Advance 0]"

definition execute_once :: "wf_action list" where
  "execute_once = [Take 1 1 PNone, Advance 1, Advance 1]"

lemma demo_workflow_start: "wf_start st_lists demo_queue demo_workflow"
  by (simp add: wf_start_def demo_workflow_def empty_store_def)

lemma chain_distinct: "distinct (map node_id chain)"
  by (simp add: chain_def job_def)

lemma chain_executed:
  "map_option wf_done (wf_acts 3 chain demo_queue ''now'' (enqueue_once @ execute_once @ enqueue_once @ execute_once) demo_workflow) =
   Some [''a'', ''b'']"
  by code_simp

theorem workflow_respects_dependencies_witness:
  "\<exists>s. wf_run 3 chain demo_queue ''now'' demo_workflow s \<and> wf_done s = [''a'', ''b''] \<and>
    (\<exists>n \<in> set chain. node_id n = ''b'' \<and> set (dependencies n) \<subseteq> {''a''})"
proof -
  obtain s where s: "wf_acts 3 chain demo_queue ''now'' (enqueue_once @ execute_once @ enqueue_once @ execute_once) demo_workflow = Some s"
    "wf_done s = [''a''] @ ''b'' # []"
    using chain_executed by (auto split: option.splits)
  note run = wf_acts_run [OF s(1) wf_run.start]
  from workflow_respects_dependencies [OF demo_queue_laws chain_distinct demo_workflow_start run s(2)] run s(2)
  show ?thesis by auto
qed

text \<open>
  A node in the queue is \<open>READY\<close>, which the selector counts as waiting: selecting again queues it again, and
  a second worker executes it a second time.
\<close>

lemma ready_nodes_queued_again:
  "map_option (\<lambda>s. st_lists (wf_store s) (queue_key demo_queue))
     (wf_acts 3 chain demo_queue ''now'' (enqueue_once @ enqueue_once) demo_workflow) = Some [''a'', ''a'']"
  by code_simp

lemma ready_nodes_executed_twice:
  "map_option wf_done
     (wf_acts 3 chain demo_queue ''now'' (enqueue_once @ enqueue_once @ execute_once @ execute_once) demo_workflow) =
   Some [''a'', ''a'']"
  by code_simp

text \<open>The selection and the status are read and written apart, so a completed node can be set back to \<open>READY\<close>.\<close>

lemma completed_node_set_back:
  "map_option (\<lambda>s. (wf_done s, map_of (wf_status s) ''a''))
     (wf_acts 3 chain demo_queue ''now'' ([Select 2] @ enqueue_once @ execute_once @ [Advance 2, Advance 2]) demo_workflow) =
   Some ([''a''], Some ''READY'')"
  by code_simp

section \<open>The worker of the node service\<close>

text \<open>
  \<open>Neo4jNodeManagementService.enqueue_ready_nodes\<close> wires a worker to the repository and to
  \<open>update_node_status\<close> of whatever status service it is given, which \<open>QueueWorker\<close> calls with two arguments. The
  method of \<open>StatusService\<close> has three: Python rejects the call after the first node is in the queue.
\<close>

definition service_worker ::
    "'s queue_repository \<Rightarrow> string \<Rightarrow> (string \<Rightarrow> string \<Rightarrow> 't \<Rightarrow> ('t, exn, unit) outcome) \<Rightarrow> ('s \<times> 't) worker" where
  "service_worker q now update =
     \<lparr>push_fn = (\<lambda>x (s, t). ((push q x s, t), Inr ())),
      update_status_fn = (\<lambda>x status (s, t). (case update x status t of (t', r) \<Rightarrow> ((s, t'), r))),
      complete_fn = (\<lambda>x result (s, t). (case complete q now x result 3600 s of (s', r) \<Rightarrow> ((s', t), r)))\<rparr>"

lemma repo_worker_service: "repo_worker q now = service_worker q now (\<lambda>x status st. (AList.update x status st, Inr ()))"
  by (simp add: repo_worker_def service_worker_def)

definition status_service_call :: "string \<Rightarrow> string \<Rightarrow> 't \<Rightarrow> ('t, exn, unit) outcome" where
  "status_service_call nid status t = (t, raises TypeError ''update_node_status() missing 1 required positional argument: status'')"

lemma enqueue_with_status_service:
  "\<exists>e. enqueue_ready_nodes (service_worker q now status_service_call) (n # ns) (s, t) =
    ((push q (node_id n) s, t), raises TypeError e)"
  by (simp add: enqueue_ready_nodes_def service_worker_def status_service_call_def)

end
