(* ===== verification/NodeRegistry.thy ===== *)
theory NodeRegistry
  imports DataNodes
begin

text \<open>
  The node registry: \<open>InMemoryNodeService\<close> (\<open>registry/services/node/memory_impl.py\<close>) and the
  validation of nodes (\<open>registry/services/node/validation.py\<close>).

  A node is the protobuf message \<open>DataNode\<close> of \<open>protos/qmtl_datanode.proto\<close>; a message and its
  submessages are always truthy, and an enum field is an int. Every operation that changes the
  registry holds its lock, so concurrent use is some sequence of these operations. A stored node
  is modelled by its value: the registry is the only one that keeps it.
\<close>

record proto_node =
  pn_node_id :: string
  pn_type :: string
  pn_data_format :: "(string, string) dict"
  pn_params :: "(string, string) dict"
  pn_dependencies :: "string list"
  pn_ttl :: "int option"
  pn_predefined :: "string list"
  pn_custom :: "string list"
  pn_interval :: int
  pn_period :: int

record registry =
  nodes :: "(string, proto_node) dict"
  node_strategy_map :: "(string, string list) dict"
  strategy_node_map :: "(string, string list) dict"
  node_statuses :: "(string, pyval) dict"

definition empty_registry :: registry where
  "empty_registry = \<lparr>nodes = [], node_strategy_map = [], strategy_node_map = [], node_statuses = []\<rparr>"

section \<open>Nodes\<close>

definition create_node :: "proto_node \<Rightarrow> registry \<Rightarrow> registry \<times> string" where
  "create_node n r = (r\<lparr>nodes := AList.update (pn_node_id n) n (nodes r)\<rparr>, pn_node_id n)"

definition find_node :: "registry \<Rightarrow> string \<Rightarrow> proto_node option" where
  "find_node r i = map_of (nodes r) i"

text \<open>The loop of \<open>delete_node\<close> over the strategies that refer to the node.\<close>

definition forget_in :: "string \<Rightarrow> string \<Rightarrow> (string, string list) dict \<Rightarrow> (string, string list) dict" where
  "forget_in i v m =
     (case map_of m v of
        None \<Rightarrow> m
      | Some xs \<Rightarrow> if i \<in> set xs then AList.update v (remove1 i xs) m else m)"

definition delete_node :: "string \<Rightarrow> registry \<Rightarrow> registry \<times> bool" where
  "delete_node i r =
     (if has_key (nodes r) i
      then (let r1 = r\<lparr>nodes := AList.delete i (nodes r)\<rparr> in
            (case map_of (node_strategy_map r1) i of
               None \<Rightarrow> r1
             | Some vs \<Rightarrow>
                 r1\<lparr>strategy_node_map := fold (forget_in i) vs (strategy_node_map r1),
                    node_strategy_map := AList.delete i (node_strategy_map r1)\<rparr>, True))
      else (r, False))"

definition list_nodes :: "registry \<Rightarrow> proto_node list" where
  "list_nodes r = map snd (nodes r)"

definition list_zero_deps :: "registry \<Rightarrow> proto_node list" where
  "list_zero_deps r = filter (\<lambda>n. pn_dependencies n = []) (map snd (nodes r))"

definition has_tag :: "proto_node \<Rightarrow> string \<Rightarrow> bool" where
  "has_tag n t \<longleftrightarrow> t \<in> set (pn_predefined n) \<or> t \<in> set (pn_custom n)"

text \<open>The interval and period of the message are ints; the arguments they are compared with are strings.\<close>

definition list_by_tags ::
    "registry \<Rightarrow> string list \<Rightarrow> string option \<Rightarrow> string option \<Rightarrow> string \<Rightarrow> proto_node list" where
  "list_by_tags r tags interval period match_mode =
     (let ns = map snd (nodes r);
          ns = (if tags \<noteq> []
                then filter (\<lambda>n. if match_mode = ''AND'' then list_all (has_tag n) tags
                                 else list_ex (has_tag n) tags) ns
                else ns);
          ns = (case interval of
                  Some (c # cs) \<Rightarrow> filter (\<lambda>n. PInt (pn_interval n) = PStr (c # cs)) ns
                | _ \<Rightarrow> ns)
      in case period of
           Some (c # cs) \<Rightarrow> filter (\<lambda>n. PInt (pn_period n) = PStr (c # cs)) ns
         | _ \<Rightarrow> ns)"

section \<open>The relation between strategies and nodes\<close>

definition add_contains_relationship :: "string \<Rightarrow> string \<Rightarrow> registry \<Rightarrow> registry" where
  "add_contains_relationship v i r =
     (if \<not> has_key (nodes r) i then r
      else
        let m = (if has_key (node_strategy_map r) i then node_strategy_map r
                 else AList.update i [] (node_strategy_map r));
            m = AList.update i (add_once v (dd_get m i)) m;
            w = (if has_key (strategy_node_map r) v then strategy_node_map r
                 else AList.update v [] (strategy_node_map r));
            w = AList.update v (add_once i (dd_get w v)) w
        in r\<lparr>node_strategy_map := m, strategy_node_map := w\<rparr>)"

text \<open>Removing a value from the list of a key, and the key with its last value.\<close>

definition remove_entry :: "string \<Rightarrow> string \<Rightarrow> (string, string list) dict \<Rightarrow> (string, string list) dict" where
  "remove_entry k x m =
     (case map_of m k of
        None \<Rightarrow> m
      | Some xs \<Rightarrow>
          if x \<in> set xs
          then (if remove1 x xs = [] then AList.delete k m else AList.update k (remove1 x xs) m)
          else m)"

definition remove_contains_relationship :: "string \<Rightarrow> string \<Rightarrow> registry \<Rightarrow> registry" where
  "remove_contains_relationship v i r =
     r\<lparr>node_strategy_map := remove_entry i v (node_strategy_map r),
       strategy_node_map := remove_entry v i (strategy_node_map r)\<rparr>"

definition get_node_ref_count :: "registry \<Rightarrow> string \<Rightarrow> nat" where
  "get_node_ref_count r i =
     (case map_of (node_strategy_map r) i of None \<Rightarrow> 0 | Some vs \<Rightarrow> length vs)"

definition get_node_ref_strategies :: "registry \<Rightarrow> string \<Rightarrow> string list" where
  "get_node_ref_strategies r i =
     (case map_of (node_strategy_map r) i of None \<Rightarrow> [] | Some vs \<Rightarrow> vs)"

definition get_strategy_nodes :: "registry \<Rightarrow> string \<Rightarrow> proto_node list" where
  "get_strategy_nodes r v =
     (case map_of (strategy_node_map r) v of
        None \<Rightarrow> []
      | Some is \<Rightarrow> List.map_filter (map_of (nodes r)) is)"

section \<open>Status and dependencies\<close>

definition get_node_status :: "registry \<Rightarrow> string \<Rightarrow> pyval option" where
  "get_node_status r i = map_of (node_statuses r) i"

definition update_node_status :: "string \<Rightarrow> pyval \<Rightarrow> registry \<Rightarrow> registry" where
  "update_node_status i status r = r\<lparr>node_statuses := AList.update i status (node_statuses r)\<rparr>"

definition get_node_dependencies :: "registry \<Rightarrow> string \<Rightarrow> string list" where
  "get_node_dependencies r i =
     (case map_of (nodes r) i of None \<Rightarrow> [] | Some n \<Rightarrow> pn_dependencies n)"

definition add_dependency :: "string \<Rightarrow> string \<Rightarrow> registry \<Rightarrow> registry" where
  "add_dependency i dep r =
     (case (map_of (nodes r) i, map_of (nodes r) dep) of
        (Some n, Some _) \<Rightarrow>
          r\<lparr>nodes := AList.update i (n\<lparr>pn_dependencies := add_once dep (pn_dependencies n)\<rparr>) (nodes r)\<rparr>
      | _ \<Rightarrow> r)"

definition remove_dependency :: "string \<Rightarrow> string \<Rightarrow> registry \<Rightarrow> registry" where
  "remove_dependency i dep r =
     (case map_of (nodes r) i of
        None \<Rightarrow> r
      | Some n \<Rightarrow>
          if dep \<in> set (pn_dependencies n)
          then r\<lparr>nodes := AList.update i (n\<lparr>pn_dependencies := remove1 dep (pn_dependencies n)\<rparr>) (nodes r)\<rparr>
          else r)"

section \<open>The contract of the relation\<close>

text \<open>
  What the clients of a node store rely on: a store of nodes (\<open>has\<close>) and a relation \<open>rel\<close> of pairs
  (strategy version, node), with the two views of it by node and by strategy.
\<close>

locale contains_store =
  fixes inv :: "'s \<Rightarrow> bool"
    and has :: "'s \<Rightarrow> string \<Rightarrow> bool"
    and rel :: "'s \<Rightarrow> (string \<times> string) set"
    and create :: "'n \<Rightarrow> 's \<Rightarrow> 's"
    and ident :: "'n \<Rightarrow> string"
    and remove :: "string \<Rightarrow> 's \<Rightarrow> 's"
    and link :: "string \<Rightarrow> string \<Rightarrow> 's \<Rightarrow> 's"
    and unlink :: "string \<Rightarrow> string \<Rightarrow> 's \<Rightarrow> 's"
    and refs :: "'s \<Rightarrow> string \<Rightarrow> string list"
    and count :: "'s \<Rightarrow> string \<Rightarrow> nat"
  assumes create_law: "inv s \<Longrightarrow> inv (create n s) \<and> rel (create n s) = rel s \<and>
      (\<forall>i. has (create n s) i \<longleftrightarrow> i = ident n \<or> has s i)"
    and remove_law: "inv s \<Longrightarrow> inv (remove i s) \<and> rel (remove i s) = rel s - UNIV \<times> {i} \<and>
      (\<forall>j. has (remove i s) j \<longleftrightarrow> j \<noteq> i \<and> has s j)"
    and link_law: "inv s \<Longrightarrow> inv (link v i s) \<and> has (link v i s) = has s \<and>
      rel (link v i s) = (if has s i then insert (v, i) (rel s) else rel s)"
    and unlink_law: "inv s \<Longrightarrow> inv (unlink v i s) \<and> has (unlink v i s) = has s \<and>
      rel (unlink v i s) = rel s - {(v, i)}"
    and refs_law: "inv s \<Longrightarrow> set (refs s i) = {v. (v, i) \<in> rel s} \<and> distinct (refs s i)"
    and count_law: "inv s \<Longrightarrow> count s i = length (refs s i)"
    and rel_has: "inv s \<Longrightarrow> (v, i) \<in> rel s \<Longrightarrow> has s i"
begin

lemma count_card: "inv s \<Longrightarrow> count s i = card {v. (v, i) \<in> rel s}"
  using refs_law [of s i] count_law [of s i] distinct_card [of "refs s i"] by simp

lemma finite_refs: "inv s \<Longrightarrow> finite {v. (v, i) \<in> rel s}"
  using refs_law [of s i] by (metis List.finite_set)

lemma link_twice: "inv s \<Longrightarrow> rel (link v i (link v i s)) = rel (link v i s)"
  using link_law [of s v i] link_law [of "link v i s" v i] by auto

lemma link_unlink: "inv s \<Longrightarrow> (v, i) \<notin> rel s \<Longrightarrow> rel (unlink v i (link v i s)) = rel s"
  using link_law [of s v i] unlink_law [of "link v i s" v i] by auto

text \<open>The reference count goes up by one with a new reference and down by one when it is removed.\<close>

lemma count_link:
  assumes "inv s" "has s i" "(v, i) \<notin> rel s"
  shows "count (link v i s) i = Suc (count s i)"
proof -
  have "inv (link v i s)" using link_law assms(1) by blast
  moreover have "{w. (w, i) \<in> rel (link v i s)} = insert v {w. (w, i) \<in> rel s}"
    using link_law [OF assms(1), of v i] assms(2) by auto
  ultimately show ?thesis using assms finite_refs by (simp add: count_card)
qed

lemma count_unlink:
  assumes "inv s" "(v, i) \<in> rel s"
  shows "Suc (count (unlink v i s) i) = count s i"
proof -
  have "inv (unlink v i s)" using unlink_law assms(1) by blast
  moreover have "{w. (w, i) \<in> rel (unlink v i s)} = {w. (w, i) \<in> rel s} - {v}"
    using unlink_law [OF assms(1), of v i] by auto
  moreover have "Suc (card ({w. (w, i) \<in> rel s} - {v})) = card {w. (w, i) \<in> rel s}"
    using assms(2) by (intro card_Suc_Diff1 finite_refs [OF assms(1)]) simp
  ultimately show ?thesis using assms by (simp add: count_card)
qed

lemma removed_unreferenced: "inv s \<Longrightarrow> count (remove i s) i = 0 \<and> refs (remove i s) i = []"
proof -
  assume s: "inv s"
  have r: "inv (remove i s)" "rel (remove i s) = rel s - UNIV \<times> {i}" using remove_law [OF s, of i] by auto
  then have "set (refs (remove i s) i) = {}" using refs_law [OF r(1), of i] by auto
  then show ?thesis using count_law [OF r(1), of i] by simp
qed

end

section \<open>The registry keeps the contract\<close>

definition contains_rel :: "registry \<Rightarrow> (string \<times> string) set" where
  "contains_rel r = {(v, i). v \<in> set (dd_get (node_strategy_map r) i)}"

text \<open>
  The two maps are views of one relation without repetitions, every node of the relation is
  registered, and a node without references has no entry.
\<close>

definition registry_inv :: "registry \<Rightarrow> bool" where
  "registry_inv r \<longleftrightarrow> dict_ok (nodes r) \<and>
     (\<forall>v i. i \<in> set (dd_get (strategy_node_map r) v) \<longleftrightarrow> v \<in> set (dd_get (node_strategy_map r) i)) \<and>
     (\<forall>i. distinct (dd_get (node_strategy_map r) i)) \<and>
     (\<forall>v. distinct (dd_get (strategy_node_map r) v)) \<and>
     (\<forall>i. has_key (node_strategy_map r) i \<longrightarrow> has_key (nodes r) i \<and> dd_get (node_strategy_map r) i \<noteq> [])"

lemma dd_get_map_of: "(case map_of m k of None \<Rightarrow> [] | Some xs \<Rightarrow> xs) = dd_get m k"
  by (simp add: dd_get_def)

lemma dd_get_delete [simp]: "dd_get (AList.delete k m) j = (if j = k then [] else dd_get m j)"
  by (simp add: dd_get_def)

lemma dd_get_Some: "map_of m k = Some xs \<Longrightarrow> dd_get m k = xs"
  by (simp add: dd_get_def)

lemma dd_get_forget_in:
  "dd_get (forget_in i v m) w = (if w = v then remove1 i (dd_get m v) else dd_get m w)"
  by (auto simp: forget_in_def dd_get_def remove1_idem split: option.splits)

lemma dd_get_forget_all:
  assumes "distinct vs" "\<forall>w. distinct (dd_get m w)"
  shows "dd_get (fold (forget_in i) vs m) w = (if w \<in> set vs then remove1 i (dd_get m w) else dd_get m w)"
  using assms
proof (induction vs arbitrary: m)
  case Nil
  then show ?case by simp
next
  case (Cons v vs)
  have "\<forall>w. distinct (dd_get (forget_in i v m) w)" using Cons.prems by (simp add: dd_get_forget_in)
  with Cons show ?case by (auto simp: dd_get_forget_in)
qed

lemma dd_get_remove_entry:
  "dd_get (remove_entry k x m) j = (if j = k then remove1 x (dd_get m k) else dd_get m j)"
  by (auto simp: remove_entry_def dd_get_def remove1_idem split: option.splits)

lemma has_key_remove_entry:
  "has_key (remove_entry k x m) j \<longrightarrow> has_key m j \<and> (j = k \<longrightarrow> x \<in> set (dd_get m k) \<longrightarrow> remove1 x (dd_get m k) \<noteq> [])"
  by (auto simp: remove_entry_def has_key_def dd_get_def split: option.splits if_splits)

lemma registry_invD:
  assumes "registry_inv r"
  shows inv_nodes: "dict_ok (nodes r)"
    and inv_views: "i \<in> set (dd_get (strategy_node_map r) v) \<longleftrightarrow> v \<in> set (dd_get (node_strategy_map r) i)"
    and inv_distinct: "distinct (dd_get (node_strategy_map r) i)" "distinct (dd_get (strategy_node_map r) v)"
    and inv_key: "has_key (node_strategy_map r) i \<Longrightarrow> has_key (nodes r) i \<and> dd_get (node_strategy_map r) i \<noteq> []"
  using assms by (auto simp: registry_inv_def)

lemma inv_rel_has: "registry_inv r \<Longrightarrow> v \<in> set (dd_get (node_strategy_map r) i) \<Longrightarrow> has_key (nodes r) i"
  using inv_key [of r i] by (cases "has_key (node_strategy_map r) i") (auto simp: dd_get_not_key)

lemma create_node_keeps:
  assumes "registry_inv r"
  shows "registry_inv (fst (create_node n r)) \<and> contains_rel (fst (create_node n r)) = contains_rel r"
  using assms by (auto simp: create_node_def registry_inv_def contains_rel_def)

lemma delete_node_maps:
  assumes "registry_inv r" "has_key (nodes r) i"
  shows "dd_get (node_strategy_map (fst (delete_node i r))) j =
      (if j = i then [] else dd_get (node_strategy_map r) j)"
    and "dd_get (strategy_node_map (fst (delete_node i r))) v = remove1 i (dd_get (strategy_node_map r) v)"
    and "has_key (node_strategy_map (fst (delete_node i r))) j \<longleftrightarrow> j \<noteq> i \<and> has_key (node_strategy_map r) j"
    and "nodes (fst (delete_node i r)) = AList.delete i (nodes r)"
proof -
  show "dd_get (node_strategy_map (fst (delete_node i r))) j =
      (if j = i then [] else dd_get (node_strategy_map r) j)"
    using assms(2) by (auto simp: delete_node_def Let_def dd_get_def split: option.splits)
  show "has_key (node_strategy_map (fst (delete_node i r))) j \<longleftrightarrow> j \<noteq> i \<and> has_key (node_strategy_map r) j"
    using assms(2) by (auto simp: delete_node_def Let_def has_key_def split: option.splits)
  show "nodes (fst (delete_node i r)) = AList.delete i (nodes r)"
    using assms(2) by (auto simp: delete_node_def Let_def split: option.splits)
  have views: "i \<in> set (dd_get (strategy_node_map r) v) \<longleftrightarrow> v \<in> set (dd_get (node_strategy_map r) i)"
    by (rule inv_views [OF assms(1)])
  show "dd_get (strategy_node_map (fst (delete_node i r))) v = remove1 i (dd_get (strategy_node_map r) v)"
  proof (cases "map_of (node_strategy_map r) i")
    case None
    then have "i \<notin> set (dd_get (strategy_node_map r) v)" using views by (simp add: dd_get_def)
    then show ?thesis using assms(2) None by (simp add: delete_node_def Let_def remove1_idem)
  next
    case (Some vs)
    then have vs: "vs = dd_get (node_strategy_map r) i" by (simp add: dd_get_def)
    have "dd_get (fold (forget_in i) vs (strategy_node_map r)) v =
        (if v \<in> set vs then remove1 i (dd_get (strategy_node_map r) v) else dd_get (strategy_node_map r) v)"
      by (rule dd_get_forget_all) (use vs inv_distinct [OF assms(1)] in auto)
    then show ?thesis
      using assms(2) Some vs views by (auto simp: delete_node_def Let_def remove1_idem)
  qed
qed

lemma delete_node_keeps:
  assumes "registry_inv r"
  shows "registry_inv (fst (delete_node i r)) \<and>
    contains_rel (fst (delete_node i r)) = contains_rel r - UNIV \<times> {i} \<and>
    (\<forall>j. has_key (nodes (fst (delete_node i r))) j \<longleftrightarrow> j \<noteq> i \<and> has_key (nodes r) j)"
proof (cases "has_key (nodes r) i")
  case False
  then have "v \<notin> set (dd_get (node_strategy_map r) i)" for v using inv_rel_has [OF assms] by blast
  then have "contains_rel r - UNIV \<times> {i} = contains_rel r" by (auto simp: contains_rel_def)
  with False assms show ?thesis by (auto simp: delete_node_def)
next
  case True
  note d = delete_node_maps [OF assms True]
  have "registry_inv (fst (delete_node i r))"
    unfolding registry_inv_def d
  proof (intro conjI allI impI)
    show "dict_ok (AList.delete i (nodes r))" using inv_nodes [OF assms] by simp
    fix v j
    show "j \<in> set (remove1 i (dd_get (strategy_node_map r) v)) \<longleftrightarrow>
        v \<in> set (if j = i then [] else dd_get (node_strategy_map r) j)"
      using inv_views [OF assms, of j v] inv_distinct(2) [OF assms, of v] by auto
    show "distinct (if j = i then [] else dd_get (node_strategy_map r) j)"
      using inv_distinct(1) [OF assms] by simp
    show "distinct (remove1 i (dd_get (strategy_node_map r) v))"
      using inv_distinct(2) [OF assms] by simp
    assume j: "j \<noteq> i \<and> has_key (node_strategy_map r) j"
    then show "has_key (AList.delete i (nodes r)) j" using inv_key [OF assms, of j] by simp
    show "(if j = i then [] else dd_get (node_strategy_map r) j) \<noteq> []"
      using j inv_key [OF assms, of j] by simp
  qed
  moreover have "contains_rel (fst (delete_node i r)) = contains_rel r - UNIV \<times> {i}"
    by (auto simp: contains_rel_def d)
  ultimately show ?thesis by (simp add: d)
qed

lemma add_contains_maps:
  assumes "has_key (nodes r) i"
  shows "dd_get (node_strategy_map (add_contains_relationship v i r)) j =
      (if j = i then add_once v (dd_get (node_strategy_map r) i) else dd_get (node_strategy_map r) j)"
    and "dd_get (strategy_node_map (add_contains_relationship v i r)) w =
      (if w = v then add_once i (dd_get (strategy_node_map r) v) else dd_get (strategy_node_map r) w)"
    and "has_key (node_strategy_map (add_contains_relationship v i r)) j \<longleftrightarrow>
      j = i \<or> has_key (node_strategy_map r) j"
    and "nodes (add_contains_relationship v i r) = nodes r"
  using assms by (auto simp: add_contains_relationship_def Let_def dd_get_not_key)

lemma add_contains_keeps:
  assumes "registry_inv r"
  shows "registry_inv (add_contains_relationship v i r) \<and>
    contains_rel (add_contains_relationship v i r) =
      (if has_key (nodes r) i then insert (v, i) (contains_rel r) else contains_rel r)"
proof (cases "has_key (nodes r) i")
  case False
  with assms show ?thesis by (simp add: add_contains_relationship_def)
next
  case True
  note a = add_contains_maps [OF True]
  have "registry_inv (add_contains_relationship v i r)"
    unfolding registry_inv_def a
  proof (intro conjI allI impI)
    show "dict_ok (nodes r)" using inv_nodes [OF assms] .
    fix w j
    show "j \<in> set (if w = v then add_once i (dd_get (strategy_node_map r) v) else dd_get (strategy_node_map r) w) \<longleftrightarrow>
        w \<in> set (if j = i then add_once v (dd_get (node_strategy_map r) i) else dd_get (node_strategy_map r) j)"
      using inv_views [OF assms] by auto
    show "distinct (if j = i then add_once v (dd_get (node_strategy_map r) i) else dd_get (node_strategy_map r) j)"
      using inv_distinct(1) [OF assms] by simp
    show "distinct (if w = v then add_once i (dd_get (strategy_node_map r) v) else dd_get (strategy_node_map r) w)"
      using inv_distinct(2) [OF assms] by simp
    assume j: "j = i \<or> has_key (node_strategy_map r) j"
    then show "has_key (nodes r) j" using inv_key [OF assms, of j] True by auto
    show "(if j = i then add_once v (dd_get (node_strategy_map r) i) else dd_get (node_strategy_map r) j) \<noteq> []"
      using j inv_key [OF assms, of j] by auto
  qed
  moreover have "contains_rel (add_contains_relationship v i r) = insert (v, i) (contains_rel r)"
    by (auto simp: contains_rel_def a split: if_splits)
  ultimately show ?thesis using True by simp
qed

lemma remove_contains_maps:
  "dd_get (node_strategy_map (remove_contains_relationship v i r)) j =
     (if j = i then remove1 v (dd_get (node_strategy_map r) i) else dd_get (node_strategy_map r) j)"
  "dd_get (strategy_node_map (remove_contains_relationship v i r)) w =
     (if w = v then remove1 i (dd_get (strategy_node_map r) v) else dd_get (strategy_node_map r) w)"
  "nodes (remove_contains_relationship v i r) = nodes r"
  by (simp_all add: remove_contains_relationship_def dd_get_remove_entry)

lemma remove_contains_keeps:
  assumes "registry_inv r"
  shows "registry_inv (remove_contains_relationship v i r) \<and>
    contains_rel (remove_contains_relationship v i r) = contains_rel r - {(v, i)}"
proof
  note m = remove_contains_maps
  show "registry_inv (remove_contains_relationship v i r)"
    unfolding registry_inv_def m
  proof (intro conjI allI impI)
    show "dict_ok (nodes r)" using inv_nodes [OF assms] .
    fix w j
    show "j \<in> set (if w = v then remove1 i (dd_get (strategy_node_map r) v) else dd_get (strategy_node_map r) w) \<longleftrightarrow>
        w \<in> set (if j = i then remove1 v (dd_get (node_strategy_map r) i) else dd_get (node_strategy_map r) j)"
      using inv_views [OF assms] inv_distinct [OF assms] by auto
    show "distinct (if j = i then remove1 v (dd_get (node_strategy_map r) i) else dd_get (node_strategy_map r) j)"
      using inv_distinct(1) [OF assms] by simp
    show "distinct (if w = v then remove1 i (dd_get (strategy_node_map r) v) else dd_get (strategy_node_map r) w)"
      using inv_distinct(2) [OF assms] by simp
    assume "has_key (node_strategy_map (remove_contains_relationship v i r)) j"
    then have j: "has_key (node_strategy_map r) j"
      "j = i \<longrightarrow> v \<in> set (dd_get (node_strategy_map r) i) \<longrightarrow> remove1 v (dd_get (node_strategy_map r) i) \<noteq> []"
      using has_key_remove_entry [of i v "node_strategy_map r" j] by (auto simp: remove_contains_relationship_def)
    then show "has_key (nodes r) j" using inv_key [OF assms] by blast
    show "(if j = i then remove1 v (dd_get (node_strategy_map r) i) else dd_get (node_strategy_map r) j) \<noteq> []"
      using j inv_key [OF assms, of j] by (auto simp: remove1_idem)
  qed
  show "contains_rel (remove_contains_relationship v i r) = contains_rel r - {(v, i)}"
    using inv_distinct(1) [OF assms] by (auto simp: contains_rel_def m split: if_splits)
qed

lemma get_node_ref_strategies_dd: "get_node_ref_strategies r i = dd_get (node_strategy_map r) i"
  by (simp add: get_node_ref_strategies_def dd_get_def)

lemma get_node_ref_count_length: "get_node_ref_count r i = length (get_node_ref_strategies r i)"
  by (simp add: get_node_ref_strategies_def get_node_ref_count_def split: option.splits)

interpretation reg: contains_store registry_inv "\<lambda>r. has_key (nodes r)" contains_rel
  "\<lambda>n r. fst (create_node n r)" pn_node_id "\<lambda>i r. fst (delete_node i r)"
  add_contains_relationship remove_contains_relationship get_node_ref_strategies get_node_ref_count
proof (unfold_locales, goal_cases)
  case (1 s n)
  then show ?case using create_node_keeps [of s n] by (simp add: create_node_def)
next
  case (2 s i)
  then show ?case using delete_node_keeps [of s i] by simp
next
  case (3 s v i)
  then show ?case
    using add_contains_keeps [of s v i] by (simp add: add_contains_relationship_def Let_def)
next
  case (4 s v i)
  then show ?case
    using remove_contains_keeps [of s v i] by (simp add: remove_contains_relationship_def)
next
  case (5 s i)
  then show ?case using inv_distinct(1) by (simp add: get_node_ref_strategies_dd contains_rel_def)
next
  case (6 s i)
  show ?case by (rule get_node_ref_count_length)
next
  case (7 s v i)
  then show ?case using inv_rel_has by (simp add: contains_rel_def)
qed

section \<open>The registry refines a relation\<close>

datatype registry_op =
    Create proto_node | Delete string | Link string string | Unlink string string
  | SetStatus string pyval | AddDep string string | RemoveDep string string

fun run_op :: "registry_op \<Rightarrow> registry \<Rightarrow> registry" where
  "run_op (Create n) r = fst (create_node n r)"
| "run_op (Delete i) r = fst (delete_node i r)"
| "run_op (Link v i) r = add_contains_relationship v i r"
| "run_op (Unlink v i) r = remove_contains_relationship v i r"
| "run_op (SetStatus i st) r = update_node_status i st r"
| "run_op (AddDep i d) r = add_dependency i d r"
| "run_op (RemoveDep i d) r = remove_dependency i d r"

text \<open>The specification: a map of nodes, a relation and a map of statuses.\<close>

record registry_spec =
  spec_nodes :: "string \<Rightarrow> proto_node option"
  spec_rel :: "(string \<times> string) set"
  spec_status :: "string \<Rightarrow> pyval option"

definition change_deps :: "(string list \<Rightarrow> string list) \<Rightarrow> proto_node \<Rightarrow> proto_node" where
  "change_deps f n = n\<lparr>pn_dependencies := f (pn_dependencies n)\<rparr>"

fun spec_op :: "registry_op \<Rightarrow> registry_spec \<Rightarrow> registry_spec" where
  "spec_op (Create n) s = s\<lparr>spec_nodes := (spec_nodes s)(pn_node_id n \<mapsto> n)\<rparr>"
| "spec_op (Delete i) s = s\<lparr>spec_nodes := (spec_nodes s)(i := None), spec_rel := spec_rel s - UNIV \<times> {i}\<rparr>"
| "spec_op (Link v i) s = (if spec_nodes s i = None then s else s\<lparr>spec_rel := insert (v, i) (spec_rel s)\<rparr>)"
| "spec_op (Unlink v i) s = s\<lparr>spec_rel := spec_rel s - {(v, i)}\<rparr>"
| "spec_op (SetStatus i st) s = s\<lparr>spec_status := (spec_status s)(i \<mapsto> st)\<rparr>"
| "spec_op (AddDep i d) s =
     (if spec_nodes s d = None then s
      else s\<lparr>spec_nodes := (spec_nodes s)(i := map_option (change_deps (add_once d)) (spec_nodes s i))\<rparr>)"
| "spec_op (RemoveDep i d) s =
     s\<lparr>spec_nodes := (spec_nodes s)(i := map_option (change_deps (remove1 d)) (spec_nodes s i))\<rparr>"

definition spec_of :: "registry \<Rightarrow> registry_spec" where
  "spec_of r = \<lparr>spec_nodes = map_of (nodes r), spec_rel = contains_rel r, spec_status = map_of (node_statuses r)\<rparr>"

definition no_nodes :: registry_spec where
  "no_nodes = \<lparr>spec_nodes = Map.empty, spec_rel = {}, spec_status = Map.empty\<rparr>"

lemma empty_registry_inv: "registry_inv empty_registry \<and> spec_of empty_registry = no_nodes"
  by (simp add: registry_inv_def empty_registry_def spec_of_def no_nodes_def contains_rel_def)

lemma registry_inv_nodes:
  assumes "registry_inv r" "dict_ok ns" "\<And>i. has_key (nodes r) i \<Longrightarrow> has_key ns i"
  shows "registry_inv (r\<lparr>nodes := ns\<rparr>)"
  using assms by (simp add: registry_inv_def)

lemma contains_rel_nodes [simp]: "contains_rel (r\<lparr>nodes := ns\<rparr>) = contains_rel r"
  by (simp add: contains_rel_def)

lemma change_deps_idle: "d \<notin> set (pn_dependencies n) \<Longrightarrow> change_deps (remove1 d) n = n"
  by (simp add: change_deps_def remove1_idem)

lemma delete_node_spec:
  "map_of (nodes (fst (delete_node i r))) = (map_of (nodes r))(i := None) \<and>
    node_statuses (fst (delete_node i r)) = node_statuses r"
  by (auto simp: delete_node_def Let_def fun_eq_iff has_key_def split: option.splits)

lemma add_dependency_refines:
  assumes "registry_inv r"
  shows "registry_inv (add_dependency i d r) \<and> spec_of (add_dependency i d r) = spec_op (AddDep i d) (spec_of r)"
proof (cases "map_of (nodes r) i = None \<or> map_of (nodes r) d = None")
  case True
  then have "add_dependency i d r = r" by (auto simp: add_dependency_def split: option.splits)
  then show ?thesis using True assms by (auto simp: spec_of_def fun_eq_iff)
next
  case False
  then obtain n m where "map_of (nodes r) i = Some n" "map_of (nodes r) d = Some m" by auto
  then show ?thesis using assms inv_nodes [OF assms]
    by (auto simp: add_dependency_def spec_of_def change_deps_def fun_eq_iff intro!: registry_inv_nodes)
qed

lemma remove_dependency_refines:
  assumes "registry_inv r"
  shows "registry_inv (remove_dependency i d r) \<and> spec_of (remove_dependency i d r) = spec_op (RemoveDep i d) (spec_of r)"
proof (cases "map_of (nodes r) i")
  case None
  then show ?thesis using assms by (auto simp: remove_dependency_def spec_of_def fun_eq_iff)
next
  case (Some n)
  then show ?thesis using assms inv_nodes [OF assms] change_deps_idle [of d n]
    by (auto simp: remove_dependency_def spec_of_def change_deps_def fun_eq_iff intro!: registry_inv_nodes)
qed

lemma run_op_refines:
  assumes "registry_inv r"
  shows "registry_inv (run_op op r) \<and> spec_of (run_op op r) = spec_op op (spec_of r)"
proof (cases op)
  case (Create n)
  then show ?thesis using create_node_keeps [OF assms, of n]
    by (auto simp: spec_of_def create_node_def fun_eq_iff)
next
  case (Delete i)
  then show ?thesis using delete_node_keeps [OF assms, of i] delete_node_spec [of i r] by (simp add: spec_of_def)
next
  case (Link v i)
  have "nodes (add_contains_relationship v i r) = nodes r \<and>
      node_statuses (add_contains_relationship v i r) = node_statuses r"
    by (simp add: add_contains_relationship_def Let_def)
  then show ?thesis using Link add_contains_keeps [OF assms, of v i] by (auto simp: spec_of_def has_key_def)
next
  case (Unlink v i)
  have "nodes (remove_contains_relationship v i r) = nodes r \<and>
      node_statuses (remove_contains_relationship v i r) = node_statuses r"
    by (simp add: remove_contains_relationship_def)
  then show ?thesis using Unlink remove_contains_keeps [OF assms, of v i] by (simp add: spec_of_def)
next
  case (SetStatus i st)
  then show ?thesis using assms
    by (auto simp: spec_of_def update_node_status_def registry_inv_def contains_rel_def fun_eq_iff)
next
  case (AddDep i d)
  then show ?thesis using add_dependency_refines [OF assms] by simp
next
  case (RemoveDep i d)
  then show ?thesis using remove_dependency_refines [OF assms] by simp
qed

lemma run_ops_refine:
  "registry_inv r \<Longrightarrow> registry_inv (fold run_op ops r) \<and>
    spec_of (fold run_op ops r) = fold spec_op ops (spec_of r)"
  by (induction ops arbitrary: r) (simp_all add: run_op_refines)

lemma reachable: "registry_inv (fold run_op ops empty_registry)"
  using run_ops_refine empty_registry_inv by blast

text \<open>
  C14: Refinement. Whatever operations are applied to a new registry, its nodes, its relation and
  its statuses are those of the specification, which keeps one relation instead of two maps of
  lists; and the two maps stay views of the same relation.
\<close>

theorem registry_refines:
  "spec_of (fold run_op ops empty_registry) = fold spec_op ops no_nodes \<and>
   (\<forall>v i. i \<in> set (dd_get (strategy_node_map (fold run_op ops empty_registry)) v) \<longleftrightarrow>
      (v, i) \<in> spec_rel (fold spec_op ops no_nodes))"
proof -
  have "spec_of (fold run_op ops empty_registry) = fold spec_op ops no_nodes"
    using run_ops_refine [of empty_registry ops] empty_registry_inv by simp
  moreover from this have "contains_rel (fold run_op ops empty_registry) = spec_rel (fold spec_op ops no_nodes)"
    by (metis registry_spec.select_convs(2) spec_of_def)
  ultimately show ?thesis
    using inv_views [OF reachable [of ops]] by (auto simp: contains_rel_def set_eq_iff)
qed

text \<open>
  C15: In every reachable registry the reference count of a node is the number of strategies that
  contain it, the referring strategies are listed once each, and the nodes of a strategy are
  registered: a reference never dangles.
\<close>

theorem registry_queries:
  "let r = fold run_op ops empty_registry; s = fold spec_op ops no_nodes in
    get_node_ref_count r i = card {v. (v, i) \<in> spec_rel s} \<and>
    set (get_node_ref_strategies r i) = {v. (v, i) \<in> spec_rel s} \<and> distinct (get_node_ref_strategies r i) \<and>
    set (map Some (get_strategy_nodes r v)) = spec_nodes s ` {i. (v, i) \<in> spec_rel s} \<and>
    snd ` spec_rel s \<subseteq> dom (spec_nodes s)"
proof -
  let ?r = "fold run_op ops empty_registry" and ?s = "fold spec_op ops no_nodes"
  have inv: "registry_inv ?r" by (rule reachable)
  have spec: "spec_of ?r = ?s" using run_ops_refine [of empty_registry ops] empty_registry_inv by simp
  have rel: "spec_rel ?s = contains_rel ?r" and ns: "spec_nodes ?s = map_of (nodes ?r)"
    by (simp_all add: spec [symmetric] spec_of_def)
  have has: "map_of (nodes ?r) j \<noteq> None" if "(w, j) \<in> contains_rel ?r" for w j
    using reg.rel_has [OF inv that] by (simp add: has_key_def)
  have views: "set (dd_get (strategy_node_map ?r) v) = {i. (v, i) \<in> contains_rel ?r}"
    using inv_views [OF inv] by (auto simp: contains_rel_def)
  have dd: "get_strategy_nodes ?r v = List.map_filter (map_of (nodes ?r)) (dd_get (strategy_node_map ?r) v)"
    by (simp add: get_strategy_nodes_def dd_get_def List.map_filter_simps split: option.splits)
  have mf: "map Some (List.map_filter f xs) = map f xs"
    if "\<forall>x \<in> set xs. f x \<noteq> None" for f :: "string \<Rightarrow> proto_node option" and xs
    using that by (induction xs) (auto simp: List.map_filter_simps)
  have all: "\<forall>x \<in> set (dd_get (strategy_node_map ?r) v). map_of (nodes ?r) x \<noteq> None"
    using has views by auto
  have "set (map Some (get_strategy_nodes ?r v)) = spec_nodes ?s ` {i. (v, i) \<in> spec_rel ?s}"
    unfolding dd rel ns views [symmetric] mf [OF all] by simp
  moreover have "snd ` contains_rel ?r \<subseteq> dom (map_of (nodes ?r))"
    using has by (auto simp: dom_def)
  ultimately show ?thesis
    using reg.count_card [OF inv, of i] reg.refs_law [OF inv, of i]
    unfolding Let_def rel ns by blast
qed

section \<open>Searching by tags\<close>

definition tag_set :: "proto_node \<Rightarrow> string set" where
  "tag_set n = set (pn_predefined n) \<union> set (pn_custom n)"

lemma has_tag_iff: "has_tag n t \<longleftrightarrow> t \<in> tag_set n"
  by (simp add: has_tag_def tag_set_def)

text \<open>
  Without an interval or period the search by tags returns, in registration order, the nodes
  with all the tags in mode AND, and with one of the tags in any other mode; no tags, all nodes.
\<close>

theorem list_by_tags_spec:
  "list_by_tags r tags None None mode =
     (if tags = [] then list_nodes r
      else if mode = ''AND'' then filter (\<lambda>n. set tags \<subseteq> tag_set n) (list_nodes r)
      else filter (\<lambda>n. set tags \<inter> tag_set n \<noteq> {}) (list_nodes r))"
proof -
  have "list_all (has_tag n) tags = (set tags \<subseteq> tag_set n)" for n
    by (auto simp: list_all_iff has_tag_iff)
  moreover have "list_ex (has_tag n) tags = (set tags \<inter> tag_set n \<noteq> {})" for n
    by (auto simp: list_ex_iff has_tag_iff)
  ultimately show ?thesis by (simp add: list_by_tags_def list_nodes_def Let_def)
qed

text \<open>
  The interval and the period of the query are compared as strings with the integers of the
  message, so a query that names an interval or a period finds nothing.
\<close>

theorem interval_query_finds_nothing:
  "list_by_tags r tags (Some (c # cs)) period mode = [] \<and>
   list_by_tags r tags None (Some (c # cs)) mode = []"
  by (simp add: list_by_tags_def Let_def split: option.splits list.splits)

section \<open>Validation\<close>

definition invalid :: "string \<Rightarrow> 'a res" where
  "invalid msg = raises ValidationError msg"

fun check_deps :: "string list \<Rightarrow> unit res" where
  "check_deps [] = Inr ()"
| "check_deps (dep # deps) =
     (if length dep \<noteq> 32 then invalid (''dependency '' @ dep @ '' must be a 32-character hex string'')
      else check_deps deps)"

text \<open>
  \<open>validate_node_model\<close> on a built \<open>DataNode\<close>: the types that the fields have after building
  make the other tests of the function true.
\<close>

definition validate_node_model :: "'v data_node \<Rightarrow> unit res" where
  "validate_node_model n =
     (if node_id n = [] \<or> length (node_id n) \<noteq> 32
      then invalid ''node_id must be a 32-character hex string''
      else check_deps (dependencies n))"

text \<open>
  \<open>validate_proto_node\<close> on a protobuf message. Whether the container of a repeated field is a
  \<open>list\<close> or a \<open>tuple\<close> is up to the protobuf library: the parameter \<open>repeated_is_list\<close>. The tags are
  strings and the interval is an int by the types of the message.
\<close>

definition validate_proto_node :: "bool \<Rightarrow> proto_node \<Rightarrow> unit res" where
  "validate_proto_node repeated_is_list n =
     (if pn_node_id n = [] \<or> length (pn_node_id n) \<noteq> 32
      then invalid ''node_id must be a 32-character hex string''
      else if pn_dependencies n \<noteq> [] \<and> \<not> repeated_is_list then invalid ''dependencies must be a list''
      else if pn_dependencies n \<noteq> [] then check_deps (pn_dependencies n)
      else Inr ())"

text \<open>On a dict, whose values may be anything.\<close>

fun raw_length :: "raw \<Rightarrow> nat option" where
  "raw_length (RStr s) = Some (length s)"
| "raw_length (RInterval i) = Some 2"
| "raw_length (RList xs) = Some (length xs)"
| "raw_length (RDict d) = Some (length d)"
| "raw_length _ = None"

definition is_str :: "raw \<Rightarrow> bool" where
  "is_str v = (case v of RStr _ \<Rightarrow> True | RInterval _ \<Rightarrow> True | _ \<Rightarrow> False)"

fun check_raw_deps :: "raw list \<Rightarrow> unit res" where
  "check_raw_deps [] = Inr ()"
| "check_raw_deps (dep # deps) =
     (if \<not> is_str dep \<or> raw_length dep \<noteq> Some 32
      then invalid ''dependency must be a 32-character hex string''
      else check_raw_deps deps)"

text \<open>\<open>for tag in tags: if not isinstance(tag, str)\<close> over a list, the characters of a string or the keys of a dict.\<close>

definition check_tags :: "raw \<Rightarrow> string \<Rightarrow> unit res" where
  "check_tags v msg =
     (if \<not> truthy v then Inr ()
      else case v of
             RList xs \<Rightarrow> if list_all is_str xs then Inr () else invalid msg
           | RDict d \<Rightarrow> if list_all (\<lambda>(k, _). is_str k) d then Inr () else invalid msg
           | RStr _ \<Rightarrow> Inr ()
           | RInterval _ \<Rightarrow> Inr ()
           | _ \<Rightarrow> raises TypeError ''object is not iterable'')"

definition validate_dict_node :: "(raw \<times> raw) list \<Rightarrow> unit res" where
  "validate_dict_node d =
     (let node_id = rget d ''node_id''; tags = rget d ''tags'';
          settings = rget d ''interval_settings'';
          deps = (case map_of d (RStr ''dependencies'') of None \<Rightarrow> RList [] | Some v \<Rightarrow> v) in
      bind_res
        (if \<not> truthy node_id then invalid ''node_id must be a 32-character hex string''
         else case raw_length node_id of
                None \<Rightarrow> raises TypeError ''object has no len()''
              | Some n \<Rightarrow>
                  if n \<noteq> 32 then invalid ''node_id must be a 32-character hex string'' else Inr ()) (\<lambda>_.
      bind_res
        (if \<not> truthy deps then Inr ()
         else case deps of
                RList xs \<Rightarrow> check_raw_deps xs
              | _ \<Rightarrow> invalid ''dependencies must be a list'') (\<lambda>_.
      bind_res
        (if \<not> truthy tags then Inr ()
         else case tags of
                RDict t \<Rightarrow>
                  bind_res (check_tags (rget t ''predefined'') ''predefined tags must be strings'')
                    (\<lambda>_. check_tags (rget t ''custom'') ''custom tags must be strings'')
              | _ \<Rightarrow> raises AttributeError ''object has no attribute get'') (\<lambda>_.
      if \<not> truthy settings then Inr ()
      else case settings of
             RDict s \<Rightarrow>
               (case rget s ''interval'' of
                  RNone \<Rightarrow> Inr ()
                | v \<Rightarrow> if is_str v then Inr () else invalid ''interval must be a string'')
           | RSettings _ \<Rightarrow> invalid ''interval must be an enum (int) in protobuf''
           | _ \<Rightarrow> raises AttributeError ''object has no attribute get''))))"

lemma check_deps_ok: "check_deps deps = Inr () \<longleftrightarrow> list_all (\<lambda>d. length d = 32) deps"
  by (induction deps) (auto simp: invalid_def)

lemma check_deps_error: "check_deps deps = Inl e \<Longrightarrow> ex_class e = ValidationError"
  by (induction deps) (auto simp: invalid_def split: if_splits)

text \<open>
  Validation of a message accepts exactly the 32 character ids with 32 character dependencies
  when the repeated field counts as a list; when it does not, as in protobuf, it accepts only
  nodes without dependencies. Every rejection is a \<open>ValidationError\<close>.
\<close>

theorem validate_proto_node_spec:
  "(validate_proto_node repeated_is_list n = Inr ()) =
     (length (pn_node_id n) = 32 \<and>
      (if repeated_is_list then list_all (\<lambda>d. length d = 32) (pn_dependencies n)
       else pn_dependencies n = [])) \<and>
   (case validate_proto_node repeated_is_list n of Inl e \<Rightarrow> ex_class e = ValidationError | Inr _ \<Rightarrow> True)"
  by (auto simp: validate_proto_node_def check_deps_ok invalid_def check_deps_error split: sum.splits)

end
