(* ===== verification/RegistryApi.thy ===== *)
theory RegistryApi
  imports NodeRegistry
begin

text \<open>
  The HTTP API of the registry (\<open>dag_manager/registry/api.py\<close>) over \<open>MetadataService\<close>
  (\<open>registry/services/metadata_service.py\<close>), with the in-memory node service behind it, and the
  event publisher (\<open>registry/services/event.py\<close>).

  The strategy and snapshot services and the conversion of a dict to a protobuf message
  (\<open>ParseDict\<close>) are fields of the environment \<open>env\<close>. A handler returns the registry it leaves and
  its result; FastAPI turns an \<open>HTTPException\<close> into the response with its status code.
\<close>

record strategy_snapshot =
  snap_nodes :: pyval
  snap_edges :: pyval
  snap_metadata :: pyval

record env =
  get_version :: "string \<Rightarrow> pyval option"
  list_versions :: "pyval list"
  create_snapshot :: "pyval \<Rightarrow> string res"
  get_snapshots :: "string \<Rightarrow> strategy_snapshot list res"
  rollback_to_snapshot :: "string \<Rightarrow> string \<Rightarrow> strategy_snapshot option res"
  parse_node :: "(string \<times> raw) list \<Rightarrow> proto_node res"
  repeated_is_list :: bool

datatype body =
    NodeBody proto_node | NodesBody "proto_node list" | IdBody string | SuccessBody bool
  | CountBody nat | NamesBody "string list" | ValueBody pyval | SnapshotBody strategy_snapshot
  | SnapshotsBody "strategy_snapshot list" | StatusBody string

record response =
  resp_status :: int
  resp_body :: body

definition ok :: "body \<Rightarrow> response" where
  "ok b = \<lparr>resp_status = 200, resp_body = b\<rparr>"

definition created :: "body \<Rightarrow> response" where
  "created b = \<lparr>resp_status = 201, resp_body = b\<rparr>"

definition abort :: "int \<Rightarrow> string \<Rightarrow> 'a res" where
  "abort code msg = Inl (http_exception code msg)"

text \<open>\<open>except HTTPException: raise\<close> / \<open>except Exception: raise HTTPException(500)\<close>\<close>

definition guarded :: "string \<Rightarrow> 'a res \<Rightarrow> 'a res" where
  "guarded msg r =
     (case r of
        Inr x \<Rightarrow> Inr x
      | Inl e \<Rightarrow>
          if isinstance_of (ex_class e) HTTPException then Inl e
          else if caught e then abort 500 msg else Inl e)"

section \<open>Key names\<close>

text \<open>\<open>re.sub("(.)([A-Z][a-z]+)", "\1_\2", s)\<close>: leftmost matches, resumed after the word.\<close>

function (sequential) split_words :: "string \<Rightarrow> string" where
  "split_words (c # u # l # s) =
     (if c \<noteq> CHR 0x0A \<and> is_upper u \<and> is_lower l
      then c # CHR ''_'' # u # takeWhile is_lower (l # s) @ split_words (dropWhile is_lower s)
      else c # split_words (u # l # s))"
| "split_words s = s"
  by pat_completeness auto
termination
  by (relation "measure length") (auto simp: le_imp_less_Suc length_dropWhile_le le_SucI)

text \<open>\<open>re.sub("([a-z0-9])([A-Z])", "\1_\2", s)\<close>\<close>

fun split_pairs :: "string \<Rightarrow> string" where
  "split_pairs (c # u # s) =
     (if (is_lower c \<or> is_digit c) \<and> is_upper u then c # CHR ''_'' # u # split_pairs s
      else c # split_pairs (u # s))"
| "split_pairs s = s"

definition camel_to_snake :: "string \<Rightarrow> string" where
  "camel_to_snake s = map to_lower (split_pairs (split_words s))"

text \<open>\<open>{camel_to_snake(k): v for k, v in d.items()}\<close>; a key that is no string is a \<open>TypeError\<close>.\<close>

fun snake_keys :: "(raw \<times> raw) list \<Rightarrow> (string, raw) dict \<Rightarrow> (string, raw) dict res" where
  "snake_keys [] out = Inr out"
| "snake_keys ((k, v) # d) out =
     (case k of
        RStr s \<Rightarrow> snake_keys d (AList.update (camel_to_snake s) v out)
      | _ \<Rightarrow> raises TypeError ''expected string or bytes-like object'')"

section \<open>Nodes\<close>

definition enum_label :: "string \<Rightarrow> string option" where
  "enum_label s =
     (if s = ''1m'' \<or> s = ''MINUTE'' then Some ''MINUTE''
      else if s = ''1h'' \<or> s = ''HOUR'' then Some ''HOUR''
      else if s = ''1d'' \<or> s = ''DAY'' then Some ''DAY''
      else None)"

text \<open>The interval of the settings as a protobuf label. Looking up an unhashable value is a \<open>TypeError\<close>.\<close>

definition label_interval :: "(string, raw) dict \<Rightarrow> (string, raw) dict res" where
  "label_interval settings =
     (let val = get settings ''interval'' in
      if \<not> truthy val then Inr settings
      else case val of
             RStr s \<Rightarrow>
               (case enum_label s of
                  Some l \<Rightarrow> Inr (AList.update ''interval'' (RStr l) settings)
                | None \<Rightarrow> Inr settings)
           | RList _ \<Rightarrow> raises TypeError ''unhashable type''
           | RDict _ \<Rightarrow> raises TypeError ''unhashable type''
           | _ \<Rightarrow> Inr settings)"

definition label_settings :: "(string, raw) dict \<Rightarrow> (string, raw) dict res" where
  "label_settings node_dict =
     (let settings = get node_dict ''interval_settings'' in
      if \<not> truthy settings then Inr node_dict
      else case settings of
             RDict s \<Rightarrow>
               bind_res (snake_keys s []) (\<lambda>s.
               bind_res (label_interval s) (\<lambda>s.
                 Inr (AList.update ''interval_settings'' (RDict (map (\<lambda>(k, v). (RStr k, v)) s)) node_dict)))
           | _ \<Rightarrow> raises AttributeError ''object has no attribute items'')"

definition node_dict_of :: "(raw \<times> raw) list \<Rightarrow> (string, raw) dict res" where
  "node_dict_of node_data =
     (let orig = (case map_of node_data (RStr ''node'') of None \<Rightarrow> RDict [] | Some v \<Rightarrow> v) in
      case orig of
        RDict d \<Rightarrow> bind_res (snake_keys d []) label_settings
      | _ \<Rightarrow> raises AttributeError ''object has no attribute items'')"

text \<open>The handlers of the errors come in the order of the \<open>except\<close> clauses.\<close>

definition post_node :: "env \<Rightarrow> (raw \<times> raw) list \<Rightarrow> registry \<Rightarrow> (registry, exn, response) outcome" where
  "post_node env node_data r =
     (case bind_res (node_dict_of node_data) (\<lambda>node_dict.
             bind_res (parse_node env node_dict) (\<lambda>n.
             bind_res (validate_proto_node (repeated_is_list env) n) (\<lambda>_. Inr n))) of
        Inr n \<Rightarrow> (case create_node n r of (r', i) \<Rightarrow> (r', Inr (created (IdBody i))))
      | Inl e \<Rightarrow>
          (r, if isinstance_of (ex_class e) ValidationError then abort 422 (ex_msg e)
              else if isinstance_of (ex_class e) RegistryServiceError then abort 500 (ex_msg e)
              else if isinstance_of (ex_class e) HTTPException then Inl e
              else if caught e then abort 500 ''internal server error while registering the node''
              else Inl e))"

text \<open>
  The internal route declares \<open>Dict[str, DataNode]\<close>, so the value of \<open>node\<close> is a model, which has
  no \<open>items\<close>.
\<close>

definition post_node_internal :: "env \<Rightarrow> bool \<Rightarrow> registry \<Rightarrow> (registry, exn, response) outcome" where
  "post_node_internal env has_node r =
     post_node env (if has_node then [(RStr ''node'', RStream [])] else []) r"

definition get_node_by_id :: "string \<Rightarrow> registry \<Rightarrow> (registry, exn, response) outcome" where
  "get_node_by_id i r =
     (r, case find_node r i of
           None \<Rightarrow> abort 404 (''node not found: '' @ i)
         | Some n \<Rightarrow> Inr (ok (NodeBody n)))"

definition delete_node_by_id :: "string \<Rightarrow> registry \<Rightarrow> (registry, exn, response) outcome" where
  "delete_node_by_id i r =
     (case delete_node i r of
        (r', b) \<Rightarrow> (r', if \<not> b then abort 404 (''node not found: '' @ i) else Inr (ok (SuccessBody True))))"

definition get_leaf_nodes_api :: "registry \<Rightarrow> (registry, exn, response) outcome" where
  "get_leaf_nodes_api r = (r, Inr (ok (NodesBody (list_zero_deps r))))"

definition get_nodes_by_tags :: "string list \<Rightarrow> string option \<Rightarrow> string option \<Rightarrow> string
    \<Rightarrow> registry \<Rightarrow> (registry, exn, response) outcome" where
  "get_nodes_by_tags tags interval period match_mode r =
     (r, if match_mode \<notin> {''AND'', ''OR''} then abort 422 ''match_mode must be AND or OR''
         else Inr (ok (NodesBody (list_by_tags r tags interval period match_mode))))"

section \<open>Strategies\<close>

text \<open>\<open>if not strategy\<close>: a strategy is a message when there is one.\<close>

definition require_node :: "string \<Rightarrow> registry \<Rightarrow> string \<Rightarrow> proto_node res" where
  "require_node i r msg = (case find_node r i of None \<Rightarrow> abort 404 (msg @ i) | Some n \<Rightarrow> Inr n)"

definition require_strategy :: "env \<Rightarrow> string \<Rightarrow> pyval res" where
  "require_strategy env v =
     (case get_version env v of None \<Rightarrow> abort 404 (''strategy not found: '' @ v) | Some s \<Rightarrow> Inr s)"

definition get_strategy :: "env \<Rightarrow> string \<Rightarrow> registry \<Rightarrow> (registry, exn, response) outcome" where
  "get_strategy env v r =
     (r, bind_res (require_strategy env v) (\<lambda>s. Inr (ok (ValueBody s))))"

definition list_strategies :: "env \<Rightarrow> registry \<Rightarrow> (registry, exn, response) outcome" where
  "list_strategies env r = (r, Inr (ok (ValueBody (PList (list_versions env)))))"

definition add_node_to_strategy :: "env \<Rightarrow> string \<Rightarrow> string \<Rightarrow> registry \<Rightarrow> (registry, exn, response) outcome" where
  "add_node_to_strategy env v i r =
     (case bind_res (require_node i r ''node not found: '') (\<lambda>_. require_strategy env v) of
        Inl e \<Rightarrow> (r, Inl e)
      | Inr _ \<Rightarrow> (add_contains_relationship v i r, Inr (ok (SuccessBody True))))"

definition remove_node_from_strategy :: "string \<Rightarrow> string \<Rightarrow> registry \<Rightarrow> (registry, exn, response) outcome" where
  "remove_node_from_strategy v i r =
     (remove_contains_relationship v i r, Inr (ok (SuccessBody True)))"

definition get_node_reference_count :: "string \<Rightarrow> registry \<Rightarrow> (registry, exn, response) outcome" where
  "get_node_reference_count i r =
     (r, bind_res (require_node i r ''node not found: '')
           (\<lambda>_. Inr (ok (CountBody (get_node_ref_count r i)))))"

definition get_node_reference_strategies :: "string \<Rightarrow> registry \<Rightarrow> (registry, exn, response) outcome" where
  "get_node_reference_strategies i r =
     (r, bind_res (require_node i r ''node not found: '')
           (\<lambda>_. Inr (ok (NamesBody (get_node_ref_strategies r i)))))"

definition get_nodes_of_strategy :: "env \<Rightarrow> string \<Rightarrow> registry \<Rightarrow> (registry, exn, response) outcome" where
  "get_nodes_of_strategy env v r =
     (r, bind_res (require_strategy env v) (\<lambda>_. Inr (ok (NodesBody (get_strategy_nodes r v)))))"

section \<open>Status and dependencies\<close>

text \<open>\<open>if not status\<close>: an empty dict counts as no status.\<close>

definition get_status_of_node :: "string \<Rightarrow> registry \<Rightarrow> (registry, exn, response) outcome" where
  "get_status_of_node i r =
     (r, case get_node_status r i of
           None \<Rightarrow> abort 404 (''node status not found: '' @ i)
         | Some st \<Rightarrow>
             if \<not> py_truthy st then abort 404 (''node status not found: '' @ i)
             else Inr (ok (ValueBody st)))"

definition post_node_status :: "string \<Rightarrow> pyval \<Rightarrow> registry \<Rightarrow> (registry, exn, response) outcome" where
  "post_node_status i status r = (update_node_status i status r, Inr (ok (ValueBody status)))"

definition dependencies_of_node :: "string \<Rightarrow> registry \<Rightarrow> (registry, exn, response) outcome" where
  "dependencies_of_node i r =
     (r, bind_res (require_node i r ''node not found: '')
           (\<lambda>_. Inr (ok (NamesBody (get_node_dependencies r i)))))"

definition require_both :: "string \<Rightarrow> string \<Rightarrow> registry \<Rightarrow> unit res" where
  "require_both i dep r =
     bind_res (require_node i r ''node not found: '') (\<lambda>_.
     bind_res (require_node dep r ''dependency node not found: '') (\<lambda>_. Inr ()))"

definition add_node_dependency :: "string \<Rightarrow> string \<Rightarrow> registry \<Rightarrow> (registry, exn, response) outcome" where
  "add_node_dependency i dep r =
     (case guarded ''internal server error while adding the dependency'' (require_both i dep r) of
        Inl e \<Rightarrow> (r, Inl e)
      | Inr _ \<Rightarrow> (add_dependency i dep r, Inr (ok (SuccessBody True))))"

definition remove_node_dependency :: "string \<Rightarrow> string \<Rightarrow> registry \<Rightarrow> (registry, exn, response) outcome" where
  "remove_node_dependency i dep r =
     (case guarded ''internal server error while removing the dependency'' (require_both i dep r) of
        Inl e \<Rightarrow> (r, Inl e)
      | Inr _ \<Rightarrow> (remove_dependency i dep r, Inr (ok (SuccessBody True))))"

section \<open>Pipelines and snapshots\<close>

definition get_dag :: "env \<Rightarrow> string \<Rightarrow> strategy_snapshot option res" where
  "get_dag env p =
     bind_res (get_snapshots env p) (\<lambda>snaps. Inr (case snaps of [] \<Rightarrow> None | s # _ \<Rightarrow> Some s))"

definition get_pipeline_dag :: "env \<Rightarrow> string \<Rightarrow> registry \<Rightarrow> (registry, exn, response) outcome" where
  "get_pipeline_dag env p r =
     (r, bind_res (get_dag env p) (\<lambda>dag.
           case dag of
             None \<Rightarrow> abort 404 (''no snapshot of the pipeline: '' @ p)
           | Some s \<Rightarrow> Inr (ok (SnapshotBody s))))"

definition get_pipeline_ready_nodes :: "env \<Rightarrow> string \<Rightarrow> registry \<Rightarrow> (registry, exn, response) outcome" where
  "get_pipeline_ready_nodes env p r =
     (r, bind_res (get_dag env p) (\<lambda>dag.
           case dag of
             None \<Rightarrow> abort 404 (''no snapshot of the pipeline: '' @ p)
           | Some s \<Rightarrow> Inr (ok (ValueBody (snap_nodes s)))))"

definition create_strategy_snapshot :: "env \<Rightarrow> pyval \<Rightarrow> registry \<Rightarrow> (registry, exn, response) outcome" where
  "create_strategy_snapshot env snapshot r =
     (r, guarded ''internal server error while storing the snapshot''
           (bind_res (create_snapshot env snapshot) (\<lambda>i. Inr (created (IdBody i)))))"

definition list_strategy_snapshots :: "env \<Rightarrow> string \<Rightarrow> registry \<Rightarrow> (registry, exn, response) outcome" where
  "list_strategy_snapshots env v r =
     (r, guarded ''internal server error while reading the snapshots''
           (bind_res (get_snapshots env v) (\<lambda>snaps. Inr (ok (SnapshotsBody snaps)))))"

definition rollback_strategy :: "env \<Rightarrow> string \<Rightarrow> string \<Rightarrow> registry \<Rightarrow> (registry, exn, response) outcome" where
  "rollback_strategy env v snapshot_id r =
     (r, guarded ''internal server error during the rollback''
           (bind_res (rollback_to_snapshot env v snapshot_id) (\<lambda>s.
              case s of
                None \<Rightarrow> abort 404 ''snapshot not found''
              | Some s \<Rightarrow> Inr (ok (SnapshotBody s)))))"

text \<open>
  The services of the test mode and of the stub \<open>Neo4jStrategyManagementService\<close>: both know no
  strategy.
\<close>

definition stub_strategies :: "env \<Rightarrow> env" where
  "stub_strategies env = env\<lparr>get_version := (\<lambda>_. None), list_versions := []\<rparr>"

definition dummy_snapshots :: "env \<Rightarrow> env" where
  "dummy_snapshots env = env\<lparr>create_snapshot := (\<lambda>_. Inr ''dummy-snapshot''),
     get_snapshots := (\<lambda>_. Inr []), rollback_to_snapshot := (\<lambda>_ _. Inr None)\<rparr>"

section \<open>Events\<close>

text \<open>
  The publisher takes protobuf events; the routes pass it the Pydantic events of
  \<open>models/event.py\<close>, which cannot be serialised that way. The payload is serialised before the
  message is sent. \<open>publish\<close> is the Redis command.
\<close>

datatype event = ProtoEvent string string | PydanticEvent string pyval

definition serialize_event :: "event \<Rightarrow> string res" where
  "serialize_event ev =
     (case ev of
        ProtoEvent _ bytes \<Rightarrow> Inr bytes
      | PydanticEvent _ _ \<Rightarrow> raises AttributeError ''object has no attribute SerializeToString'')"

definition event_target :: "event \<Rightarrow> string" where
  "event_target ev = (case ev of ProtoEvent t _ \<Rightarrow> t | PydanticEvent t _ \<Rightarrow> t)"

definition publish_event ::
    "(string \<Rightarrow> string \<Rightarrow> 's \<Rightarrow> 's) \<Rightarrow> string \<Rightarrow> string \<Rightarrow> event \<Rightarrow> 's \<Rightarrow> ('s, exn, unit) outcome" where
  "publish_event publish prefix channel ev s =
     (case serialize_event ev of
        Inl e \<Rightarrow> (s, Inl e)
      | Inr bytes \<Rightarrow> (publish channel bytes (publish (prefix @ event_target ev) bytes s), Inr ()))"

definition publish_node_status :: "(string \<Rightarrow> string \<Rightarrow> 's \<Rightarrow> 's) \<Rightarrow> event \<Rightarrow> 's \<Rightarrow> ('s, exn, unit) outcome" where
  "publish_node_status publish = publish_event publish ''event:node:'' ''event:node_status''"

definition publish_pipeline_status :: "(string \<Rightarrow> string \<Rightarrow> 's \<Rightarrow> 's) \<Rightarrow> event \<Rightarrow> 's \<Rightarrow> ('s, exn, unit) outcome" where
  "publish_pipeline_status publish = publish_event publish ''event:pipeline:'' ''event:pipeline_status''"

definition publish_alert :: "(string \<Rightarrow> string \<Rightarrow> 's \<Rightarrow> 's) \<Rightarrow> event \<Rightarrow> 's \<Rightarrow> ('s, exn, unit) outcome" where
  "publish_alert publish = publish_event publish ''event:alert:'' ''event:alert''"

definition post_event :: "('s \<Rightarrow> ('s, exn, unit) outcome) \<Rightarrow> 's \<Rightarrow> ('s, exn, response) outcome" where
  "post_event publish s =
     (case publish s of
        (s', r) \<Rightarrow> (s', bind_res (guarded ''internal server error while publishing the event'' r)
                            (\<lambda>_. Inr (ok (StatusBody ''ok'')))))"

section \<open>Routing\<close>

text \<open>
  The routes as registered: method, path template and handler. FastAPI tries them in the order of
  registration and takes the first one whose template and method match; a parameter matches one
  non-empty segment. The routers come first, because \<open>include_router\<close> is called before the
  decorators of \<open>app\<close> run. A public or internal handler calls the handler it is named after.
\<close>

type_synonym route = "string \<times> string \<times> string"

definition callback_routes :: "route list" where
  "callback_routes =
    [(''POST'', ''/v1/registry/nodes/{node_id}/callbacks'', ''register_callback''),
     (''DELETE'', ''/v1/registry/nodes/{node_id}/callbacks'', ''unregister_callback''),
     (''GET'', ''/v1/registry/nodes/{node_id}/callbacks'', ''list_callbacks''),
     (''POST'', ''/v1/registry/nodes/{node_id}/callbacks/trigger'', ''trigger_callbacks'')]"

definition public_routes :: "route list" where
  "public_routes =
    [(''GET'', ''/pipelines/{pipeline_id}/dag'', ''get_pipeline_dag_public''),
     (''GET'', ''/pipelines/{pipeline_id}/ready-nodes'', ''get_ready_nodes_public''),
     (''GET'', ''/nodes/{node_id}'', ''get_node_public''),
     (''GET'', ''/nodes/leaf-nodes'', ''get_leaf_nodes_public''),
     (''GET'', ''/nodes/by-tags'', ''get_nodes_by_tags_public''),
     (''GET'', ''/strategies/{version_id}'', ''get_strategy_public''),
     (''GET'', ''/strategies'', ''list_strategies_public''),
     (''GET'', ''/nodes/{node_id}/ref-count'', ''get_node_reference_count_public''),
     (''GET'', ''/nodes/{node_id}/ref-strategies'', ''get_node_reference_strategies_public''),
     (''GET'', ''/strategies/{strategy_version_id}/nodes'', ''get_strategy_nodes_public''),
     (''GET'', ''/nodes/{node_id}/status'', ''get_node_status_public''),
     (''GET'', ''/strategies/{version_id}/snapshots'', ''list_strategy_snapshots_public''),
     (''GET'', ''/nodes/{node_id}/dependencies'', ''get_node_dependencies_public'')]"

definition internal_routes :: "route list" where
  "internal_routes =
    [(''POST'', ''/nodes'', ''create_node_internal''),
     (''DELETE'', ''/nodes/{node_id}'', ''delete_node_internal''),
     (''PATCH'', ''/nodes/{node_id}'', ''update_node_partial_internal''),
     (''PATCH'', ''/strategies/{strategy_version_id}'', ''update_strategy_partial_internal''),
     (''POST'', ''/events/node-status'', ''publish_node_status_event_internal''),
     (''POST'', ''/events/pipeline-status'', ''publish_pipeline_status_event_internal''),
     (''POST'', ''/events/alert'', ''publish_alert_event_internal''),
     (''POST'', ''/templates/node'', ''create_node_template_internal''),
     (''POST'', ''/templates/strategy'', ''create_strategy_template_internal''),
     (''POST'', ''/templates/dag'', ''create_dag_template_internal''),
     (''POST'', ''/templates/{template_id}/permissions'', ''grant_template_permission_internal''),
     (''DELETE'', ''/templates/{template_id}/permissions/{user_id}'', ''revoke_template_permission_internal''),
     (''POST'', ''/nodes/{node_id}/status'', ''update_node_status_internal''),
     (''POST'', ''/strategies/{version_id}/snapshots'', ''create_strategy_snapshot_internal''),
     (''POST'', ''/strategies/{version_id}/rollback'', ''rollback_strategy_to_snapshot_internal''),
     (''POST'', ''/strategies/{strategy_version_id}/nodes/{node_id}'', ''add_node_to_strategy_internal''),
     (''DELETE'', ''/strategies/{strategy_version_id}/nodes/{node_id}'', ''remove_node_from_strategy_internal''),
     (''POST'', ''/nodes/{node_id}/dependencies/{dependency_id}'', ''add_node_dependency_internal''),
     (''DELETE'', ''/nodes/{node_id}/dependencies/{dependency_id}'', ''remove_node_dependency_internal'')]"

definition app_routes :: "route list" where
  "app_routes =
    [(''GET'', ''/'', ''health_check''),
     (''GET'', ''/health'', ''health''),
     (''PATCH'', ''/v1/registry/nodes/{node_id}'', ''update_node_partial''),
     (''PATCH'', ''/v1/registry/strategies/{strategy_version_id}'', ''update_strategy_partial''),
     (''POST'', ''/v1/registry/events/node-status'', ''publish_node_status_event''),
     (''POST'', ''/v1/registry/events/pipeline-status'', ''publish_pipeline_status_event''),
     (''POST'', ''/v1/registry/events/alert'', ''publish_alert_event''),
     (''POST'', ''/v1/registry/templates/node'', ''create_node_template''),
     (''POST'', ''/v1/registry/templates/strategy'', ''create_strategy_template''),
     (''POST'', ''/v1/registry/templates/dag'', ''create_dag_template''),
     (''GET'', ''/v1/registry/templates/{template_id}'', ''get_template''),
     (''GET'', ''/v1/registry/templates'', ''list_templates''),
     (''POST'', ''/v1/registry/templates/{template_id}/permissions'', ''grant_template_permission''),
     (''GET'', ''/v1/registry/templates/{template_id}/permissions'', ''list_template_permissions''),
     (''DELETE'', ''/v1/registry/templates/{template_id}/permissions/{user_id}'', ''revoke_template_permission''),
     (''GET'', ''/v1/registry/pipelines/{pipeline_id}/dag'', ''get_pipeline_dag''),
     (''GET'', ''/v1/registry/pipelines/{pipeline_id}/ready-nodes'', ''get_ready_nodes''),
     (''POST'', ''/v1/registry/nodes'', ''create_node''),
     (''GET'', ''/v1/registry/nodes/{node_id}'', ''get_node''),
     (''DELETE'', ''/v1/registry/nodes/{node_id}'', ''delete_node''),
     (''GET'', ''/v1/registry/nodes/leaf-nodes'', ''get_leaf_nodes''),
     (''GET'', ''/v1/registry/nodes/by-tags'', ''get_nodes_by_tags''),
     (''GET'', ''/v1/registry/strategies/{version_id}'', ''get_strategy''),
     (''GET'', ''/v1/registry/strategies'', ''list_strategies''),
     (''POST'', ''/v1/registry/strategies/{strategy_version_id}/nodes/{node_id}'', ''add_node_to_strategy''),
     (''DELETE'', ''/v1/registry/strategies/{strategy_version_id}/nodes/{node_id}'', ''remove_node_from_strategy''),
     (''GET'', ''/v1/registry/nodes/{node_id}/ref-count'', ''get_node_reference_count''),
     (''GET'', ''/v1/registry/nodes/{node_id}/ref-strategies'', ''get_node_reference_strategies''),
     (''GET'', ''/v1/registry/strategies/{strategy_version_id}/nodes'', ''get_strategy_nodes''),
     (''GET'', ''/v1/registry/nodes/{node_id}/status'', ''get_node_status''),
     (''POST'', ''/v1/registry/nodes/{node_id}/status'', ''update_node_status''),
     (''POST'', ''/v1/registry/strategies/{version_id}/snapshots'', ''create_strategy_snapshot''),
     (''GET'', ''/v1/registry/strategies/{version_id}/snapshots'', ''list_strategy_snapshots''),
     (''POST'', ''/v1/registry/strategies/{version_id}/rollback'', ''rollback_strategy_to_snapshot''),
     (''GET'', ''/v1/registry/nodes/{node_id}/dependencies'', ''get_node_dependencies''),
     (''POST'', ''/v1/registry/nodes/{node_id}/dependencies/{dependency_id}'', ''add_node_dependency''),
     (''DELETE'', ''/v1/registry/nodes/{node_id}/dependencies/{dependency_id}'', ''remove_node_dependency'')]"

definition with_prefix :: "string \<Rightarrow> route list \<Rightarrow> route list" where
  "with_prefix p = map (\<lambda>(m, t, h). (m, p @ t, h))"

definition all_routes :: "route list" where
  "all_routes = callback_routes @ with_prefix ''/v1/registry/public'' public_routes @
     with_prefix ''/v1/registry/internal'' internal_routes @ app_routes"

fun split_path :: "string \<Rightarrow> string list" where
  "split_path [] = [[]]"
| "split_path (c # cs) =
     (if c = CHR ''/'' then [] # split_path cs
      else (case split_path cs of [] \<Rightarrow> [[c]] | s # ss \<Rightarrow> (c # s) # ss))"

fun segment_matches :: "string \<Rightarrow> string \<Rightarrow> bool" where
  "segment_matches (c # t) s = (if c = CHR ''{'' then s \<noteq> [] else s = c # t)"
| "segment_matches [] s = (s = [])"

definition path_matches :: "string \<Rightarrow> string list \<Rightarrow> bool" where
  "path_matches template segs = list_all2 segment_matches (split_path template) segs"

definition dispatch :: "string \<Rightarrow> string list \<Rightarrow> string option" where
  "dispatch method segs =
     map_option (\<lambda>(_, _, h). h) (find (\<lambda>(m, t, _). m = method \<and> path_matches t segs) all_routes)"

section \<open>Properties of the handlers\<close>

lemma to_lower_not_upper: "\<not> is_upper (to_lower c)"
proof (cases "is_upper c")
  case True
  then have "of_char (to_lower c) = of_char c + (32 :: nat)" "of_char c \<le> (90 :: nat)" "65 \<le> (of_char c :: nat)"
    by (auto simp: to_lower_def is_upper_def Let_def of_char_of take_bit_eq_mod)
  then show ?thesis by (simp add: is_upper_def Let_def)
qed (simp add: to_lower_def)

lemma split_words_plain: "list_all (\<lambda>c. \<not> is_upper c) s \<Longrightarrow> split_words s = s"
  by (induction s rule: split_words.induct) auto

lemma split_pairs_plain: "list_all (\<lambda>c. \<not> is_upper c) s \<Longrightarrow> split_pairs s = s"
  by (induction s rule: split_pairs.induct) auto

lemma camel_to_snake_plain: "list_all (\<lambda>c. \<not> is_upper c) s \<Longrightarrow> camel_to_snake s = s"
  by (simp add: camel_to_snake_def split_words_plain split_pairs_plain)
    (induction s, auto simp: to_lower_def)

text \<open>
  The normalised key has no upper case letter, and normalising it again changes nothing, so a
  client may send either spelling.
\<close>

theorem camel_to_snake_idempotent:
  "list_all (\<lambda>c. \<not> is_upper c) (camel_to_snake s) \<and> camel_to_snake (camel_to_snake s) = camel_to_snake s"
proof -
  have "list_all (\<lambda>c. \<not> is_upper c) (map to_lower xs)" for xs
    by (induction xs) (simp_all add: to_lower_not_upper)
  then have "list_all (\<lambda>c. \<not> is_upper c) (camel_to_snake s)" by (simp add: camel_to_snake_def)
  then show ?thesis by (simp add: camel_to_snake_plain)
qed

lemma camel_example: "camel_to_snake ''intervalSettings'' = ''interval_settings''"
  by code_simp

text \<open>
  C21: A node that was registered can be read back at once: the answer to the registration names
  the id, under which the registry then holds the validated node, and no other node changed.
\<close>

theorem registered_node_is_found:
  assumes "post_node env node_data r = (r', Inr resp)"
  shows "\<exists>n. resp = created (IdBody (pn_node_id n)) \<and> length (pn_node_id n) = 32 \<and>
    get_node_by_id (pn_node_id n) r' = (r', Inr (ok (NodeBody n))) \<and>
    (\<forall>i. i = pn_node_id n \<or> find_node r' i = find_node r i)"
proof -
  from assms obtain n where
    "bind_res (node_dict_of node_data) (\<lambda>node_dict.
       bind_res (parse_node env node_dict) (\<lambda>n.
       bind_res (validate_proto_node (repeated_is_list env) n) (\<lambda>_. Inr n))) = Inr n"
    and r': "create_node n r = (r', pn_node_id n)" "resp = created (IdBody (pn_node_id n))"
    by (auto simp: post_node_def create_node_def abort_def split: sum.splits if_splits)
  then have valid: "validate_proto_node (repeated_is_list env) n = Inr ()"
    by (auto simp: bind_res_Inr)
  have len: "length (pn_node_id n) = 32"
    using valid by (auto simp: validate_proto_node_def invalid_def split: if_splits)
  have "find_node r' i = (if i = pn_node_id n then Some n else find_node r i)" for i
    using r'(1) by (auto simp: create_node_def find_node_def)
  then show ?thesis using r'(2) len by (intro exI [of _ n]) (simp add: get_node_by_id_def)
qed

lemma snake_keys_error: "snake_keys d out = Inl e \<Longrightarrow> ex_class e = TypeError"
  by (induction d out rule: snake_keys.induct) (auto split: raw.splits)

lemma label_interval_error: "label_interval s = Inl e \<Longrightarrow> ex_class e = TypeError"
  by (cases "get s ''interval''")
    (auto simp: label_interval_def Let_def split: if_splits option.splits)

definition node_dict_errors :: "exn \<Rightarrow> bool" where
  "node_dict_errors e \<longleftrightarrow> ex_class e = TypeError \<or> ex_class e = AttributeError"

lemma settings_error: "label_settings node_dict = Inl e \<Longrightarrow> node_dict_errors e"
  using snake_keys_error label_interval_error
  by (cases "get node_dict ''interval_settings''")
    (auto simp: label_settings_def Let_def bind_res_Inl node_dict_errors_def split: if_splits)

lemma snake_keys_errors: "snake_keys d out = Inl e \<Longrightarrow> node_dict_errors e"
  using snake_keys_error by (simp add: node_dict_errors_def)

lemma node_dict_error: "node_dict_of node_data = Inl e \<Longrightarrow> node_dict_errors e"
  by (auto simp: node_dict_of_def Let_def bind_res_Inl split: raw.splits
      intro: snake_keys_errors settings_error) (simp_all add: node_dict_errors_def)

lemma validate_proto_node_error: "validate_proto_node b n = Inl e \<Longrightarrow> ex_class e = ValidationError"
  by (auto simp: validate_proto_node_def invalid_def dest: check_deps_error split: if_splits)

text \<open>
  A registration that fails leaves the registry alone and is answered with 422 or 500, as
  long as parsing raises no exception outside \<open>Exception\<close>.
\<close>

theorem registration_failure:
  assumes "\<forall>d e. parse_node env d = Inl e \<longrightarrow> caught e \<and> ex_class e \<noteq> HTTPException"
    and "post_node env node_data r = (r', Inl e)"
  shows "r' = r \<and> ex_class e = HTTPException \<and> (ex_status e = Some 422 \<or> ex_status e = Some 500)"
proof -
  let ?res = "bind_res (node_dict_of node_data) (\<lambda>node_dict.
       bind_res (parse_node env node_dict) (\<lambda>n.
       bind_res (validate_proto_node (repeated_is_list env) n) (\<lambda>_. Inr n)))"
  have failure: "caught x \<and> ex_class x \<noteq> HTTPException" if "?res = Inl x" for x
    using that assms(1) node_dict_error [of node_data x] validate_proto_node_error [of _ _ x]
    by (auto simp: bind_res_Inl caught_iff node_dict_errors_def)
  from assms(2) obtain x where x: "?res = Inl x" and r: "r' = r"
    and e: "(if isinstance_of (ex_class x) ValidationError then abort 422 (ex_msg x)
              else if isinstance_of (ex_class x) RegistryServiceError then abort 500 (ex_msg x)
              else if isinstance_of (ex_class x) HTTPException then Inl x
              else if caught x then abort 500 ''internal server error while registering the node''
              else Inl x) = (Inl e :: response res)"
    by (auto simp: post_node_def create_node_def split: sum.splits)
  have "\<not> isinstance_of (ex_class x) HTTPException"
    using failure [OF x] by (cases "ex_class x") (auto simp: isinstance_of_def mro.simps)
  then show ?thesis using r e failure [OF x] by (auto simp: abort_def split: if_splits)
qed

definition demo_env :: env where
  "demo_env = \<lparr>get_version = (\<lambda>v. if v = ''v1'' then Some (PStr ''v1'') else None), list_versions = [],
     create_snapshot = (\<lambda>_. Inr ''s''), get_snapshots = (\<lambda>_. Inr []),
     rollback_to_snapshot = (\<lambda>_ _. Inr None),
     parse_node = (\<lambda>d. case get d ''node_id'' of
        RStr i \<Rightarrow> Inr \<lparr>pn_node_id = i, pn_type = '''', pn_data_format = [], pn_params = [],
          pn_dependencies = [], pn_ttl = None, pn_predefined = [], pn_custom = [], pn_interval = 0, pn_period = 0\<rparr>
      | _ \<Rightarrow> raises ParseError ''Failed to parse''),
     repeated_is_list = False\<rparr>"

definition demo_body :: "(raw \<times> raw) list" where
  "demo_body = [(RStr ''node'', RDict [(RStr ''nodeId'', RStr ''0123456789abcdef0123456789abcdef'')])]"

lemma demo_post:
  "post_node demo_env demo_body empty_registry =
     (fst (post_node demo_env demo_body empty_registry),
      Inr (created (IdBody ''0123456789abcdef0123456789abcdef'')))"
proof -
  have "node_dict_of demo_body = Inr [(''node_id'', RStr ''0123456789abcdef0123456789abcdef'')]"
    by code_simp
  then show ?thesis
    by (simp add: post_node_def demo_env_def get_def validate_proto_node_def create_node_def)
qed

theorem registered_node_is_found_witness:
  "\<exists>n :: proto_node. created (IdBody ''0123456789abcdef0123456789abcdef'') = created (IdBody (pn_node_id n)) \<and>
    length (pn_node_id n) = 32"
  using registered_node_is_found [OF demo_post] by (elim exE conjE) (intro exI conjI)

lemma demo_parse_errors:
  "\<forall>d e. parse_node demo_env d = Inl e \<longrightarrow> caught e \<and> ex_class e \<noteq> HTTPException"
  by (auto simp: demo_env_def caught_iff split: raw.splits)

lemma demo_post_bad:
  "post_node demo_env [] empty_registry =
     (empty_registry, abort 500 ''internal server error while registering the node'')"
proof -
  have "node_dict_of [] = Inr []" by code_simp
  moreover have "\<not> isinstance_of ParseError ValidationError" "\<not> isinstance_of ParseError RegistryServiceError"
    "\<not> isinstance_of ParseError HTTPException"
    by (auto simp: isinstance_of_def mro.simps)
  ultimately show ?thesis by (simp add: post_node_def demo_env_def get_def caught_iff)
qed

theorem registration_failure_witness:
  "ex_class (http_exception 500 ''internal server error while registering the node'') = HTTPException"
  using registration_failure [OF demo_parse_errors demo_post_bad [unfolded abort_def]] by (elim conjE)

text \<open>
  The internal registration route never registers a node: it is given a model where the
  handler expects a dict, and answers 500.
\<close>

theorem internal_registration_always_fails:
  "post_node_internal env True r =
     (r, abort 500 ''internal server error while registering the node'')"
proof -
  have "node_dict_of [(RStr ''node'', RStream [])] = raises AttributeError ''object has no attribute items''"
    by (simp add: node_dict_of_def)
  moreover have "\<not> isinstance_of AttributeError ValidationError" "\<not> isinstance_of AttributeError RegistryServiceError"
    "\<not> isinstance_of AttributeError HTTPException"
    by (auto simp: isinstance_of_def mro.simps)
  ultimately show ?thesis by (simp add: post_node_internal_def post_node_def caught_iff)
qed

text \<open>
  With the strategy services the program has (the dummy of the test mode and the Neo4j stub)
  no node is ever added to a strategy: the request is answered 404 and changes nothing.
\<close>

theorem stub_strategies_never_linked:
  "\<exists>msg. add_node_to_strategy (stub_strategies env) v i r = (r, abort 404 msg)"
  by (cases "find_node r i")
    (auto simp: add_node_to_strategy_def require_node_def require_strategy_def stub_strategies_def abort_def)

text \<open>
  A deleted node is gone for every route: reading it, its references and its dependencies and
  deleting it again are all answered 404, and it no longer counts as a leaf or for any tag.
\<close>

theorem deleted_node_is_gone:
  assumes "registry_inv r" "delete_node_by_id i r = (r', Inr resp)"
  shows "snd (get_node_by_id i r') = abort 404 (''node not found: '' @ i) \<and>
    snd (get_node_reference_count i r') = abort 404 (''node not found: '' @ i) \<and>
    snd (get_node_reference_strategies i r') = abort 404 (''node not found: '' @ i) \<and>
    snd (dependencies_of_node i r') = abort 404 (''node not found: '' @ i) \<and>
    delete_node_by_id i r' = (r', abort 404 (''node not found: '' @ i)) \<and>
    get_node_ref_count r' i = 0"
proof -
  from assms(2) have r': "r' = fst (delete_node i r)"
    by (auto simp: delete_node_by_id_def split: prod.splits)
  have gone: "\<not> has_key (nodes r') i"
    using reg.remove_law [OF assms(1), of i] unfolding r' by auto
  then have "map_of (nodes r') i = None" by (simp add: has_key_def)
  moreover have "get_node_ref_count r' i = 0"
    using reg.removed_unreferenced [OF assms(1), of i] unfolding r' by simp
  ultimately show ?thesis
    using gone
    by (simp add: get_node_by_id_def get_node_reference_count_def get_node_reference_strategies_def
        dependencies_of_node_def delete_node_by_id_def require_node_def find_node_def abort_def delete_node_def)
qed

definition one_node :: registry where
  "one_node = fst (create_node \<lparr>pn_node_id = ''a'', pn_type = '''', pn_data_format = [], pn_params = [],
     pn_dependencies = [], pn_ttl = None, pn_predefined = [], pn_custom = [], pn_interval = 0, pn_period = 0\<rparr>
     empty_registry)"

theorem deleted_node_is_gone_witness:
  "get_node_ref_count (fst (delete_node_by_id ''a'' one_node)) ''a'' = 0"
proof -
  have inv: "registry_inv one_node"
    using create_node_keeps empty_registry_inv unfolding one_node_def by blast
  have "delete_node_by_id ''a'' one_node =
      (fst (delete_node_by_id ''a'' one_node), Inr (ok (SuccessBody True)))"
    by (simp add: delete_node_by_id_def delete_node_def one_node_def create_node_def empty_registry_def Let_def)
  from deleted_node_is_gone [OF inv this] show ?thesis by blast
qed

text \<open>
  Publishing an event over the API never works: the Pydantic event of the route cannot be
  serialised, nothing is sent and the answer is 500.
\<close>

theorem api_events_never_published:
  "post_event (publish_node_status publish (PydanticEvent target v)) s =
     (s, abort 500 ''internal server error while publishing the event'') \<and>
   post_event (publish_pipeline_status publish (PydanticEvent target v)) s =
     (s, abort 500 ''internal server error while publishing the event'') \<and>
   post_event (publish_alert publish (PydanticEvent target v)) s =
     (s, abort 500 ''internal server error while publishing the event'')"
proof -
  have "\<not> isinstance_of AttributeError HTTPException"
    by (auto simp: isinstance_of_def mro.simps)
  then show ?thesis
    by (simp add: post_event_def publish_node_status_def publish_pipeline_status_def publish_alert_def
        publish_event_def serialize_event_def guarded_def caught_iff abort_def)
qed

lemma path_matches_literal:
  assumes "list_all (\<lambda>t. t = [] \<or> hd t \<noteq> CHR ''{'') (split_path template)" "path_matches template segs"
  shows "segs = split_path template"
proof -
  have "list_all2 segment_matches ts segs \<Longrightarrow> list_all (\<lambda>t. t = [] \<or> hd t \<noteq> CHR ''{'') ts \<Longrightarrow> segs = ts" for ts segs
  proof (induction ts segs rule: list_all2_induct)
    case (Cons t ts s segs)
    then show ?case by (cases t) auto
  qed simp
  then show ?thesis using assms by (auto simp: path_matches_def)
qed

text \<open>The four routes and the requests that would reach them.\<close>

definition shadowed :: "(string \<times> string) list" where
  "shadowed =
    [(''/v1/registry/nodes/leaf-nodes'', ''get_leaf_nodes''),
     (''/v1/registry/nodes/by-tags'', ''get_nodes_by_tags''),
     (''/v1/registry/public/nodes/leaf-nodes'', ''get_leaf_nodes_public''),
     (''/v1/registry/public/nodes/by-tags'', ''get_nodes_by_tags_public'')]"

lemma shadowed_templates:
  "list_all (\<lambda>(p, h). list_all (\<lambda>(m, t, h'). h' = h \<longrightarrow> t = p) all_routes \<and>
     list_all (\<lambda>t. t = [] \<or> hd t \<noteq> CHR ''{'') (split_path p) \<and>
     dispatch ''GET'' (split_path p) \<noteq> Some h) shadowed"
  by code_simp

text \<open>
  The routes for leaf nodes and for the search by tags, public or not, are unreachable: no
  path at all is dispatched to them, since the route for one node, registered first, matches
  theirs with the name as a node id.
\<close>

theorem shadowed_routes:
  "dispatch ''GET'' segs \<notin> Some ` set (map snd shadowed) \<and>
   dispatch ''GET'' (split_path ''/v1/registry/nodes/leaf-nodes'') = Some ''get_node''"
proof
  show "dispatch ''GET'' (split_path ''/v1/registry/nodes/leaf-nodes'') = Some ''get_node''"
    by code_simp
  show "dispatch ''GET'' segs \<notin> Some ` set (map snd shadowed)"
  proof
    assume "dispatch ''GET'' segs \<in> Some ` set (map snd shadowed)"
    then obtain p h where ph: "(p, h) \<in> set shadowed" and d: "dispatch ''GET'' segs = Some h" by auto
    note facts = bspec [OF shadowed_templates [unfolded list_all_iff] ph, unfolded split_conv]
    from d obtain m t where f: "find (\<lambda>(m, t, _). m = ''GET'' \<and> path_matches t segs) all_routes = Some (m, t, h)"
      by (auto simp: dispatch_def)
    then have "(m, t, h) \<in> set all_routes" "path_matches t segs"
      by (auto simp: find_Some_iff in_set_conv_nth)
    then have "t = p" using facts by fastforce
    then have "segs = split_path p"
      using path_matches_literal [of p segs] facts \<open>path_matches t segs\<close> by (simp add: list_all_iff)
    then show False using d facts by simp
  qed
qed

end
