(* ===== verification/Gateway.thy ===== *)
theory Gateway
  imports Prelude
begin

text \<open>
  The read-only HTTP gateway: the policy service (\<open>gateway/services/policy.py\<close>), the four
  middlewares (\<open>gateway/middlewares/\<close>) and the application that stacks them
  (\<open>gateway/gateway.py\<close>).

  A middleware takes the request and the rest of the application (\<open>call_next\<close>) and returns the
  log entries it wrote with a response or an exception. JWT encoding and decoding, the bearer
  header parser, the clock, uuids, \<open>str\<close> of arbitrary values and float formatting are fields of
  \<open>gw_env\<close>; how Starlette stacks middlewares is the parameter of the last section. The
  Korean descriptions of the policies carry no behaviour and are left out.
\<close>

section \<open>Requests, responses, exceptions and logs\<close>

datatype raw_body = BodyUnreadable | BodyEmpty | BodyUndecodable | BodyText json_text

record gw_request =
  req_path :: string
  req_method :: string
  req_query :: "(string, pyval) dict"
  req_headers :: "(string, string) dict"
  req_client :: "string option"
  req_body :: raw_body
  req_user :: "(string, pyval) dict option"
  req_id :: "string option"

datatype content = GwEmpty | GwJson pyval | GwBytes string string

record gw_response =
  gw_status :: int
  gw_content :: content
  gw_headers :: "(string, string) dict"

text \<open>\<open>BaseExc\<close> stands for what \<open>except Exception\<close> does not catch.\<close>

datatype gw_exn =
    HttpExc int pyval "(string, string) dict option"
  | RequestValidationExc string pyval
  | PydanticExc string pyval
  | OtherExc string string
  | BaseExc string

datatype log_level = INFO | WARNING | ERROR

record log_entry =
  log_level :: log_level
  log_text :: string
  log_extra :: "(string, pyval) dict"

type_synonym gw_out = "log_entry list \<times> (gw_exn + gw_response)"
type_synonym endpoint = "gw_request \<Rightarrow> gw_out"
type_synonym middleware = "gw_request \<Rightarrow> endpoint \<Rightarrow> gw_out"

record gw_env =
  str_value :: "pyval \<Rightarrow> string"
  format_4f :: "real \<Rightarrow> string"
  traceback_of :: "gw_exn \<Rightarrow> string"
  jwt_decode :: "string \<Rightarrow> string \<Rightarrow> string list \<Rightarrow> string + (string, pyval) dict"
  jwt_encode :: "(string, pyval) dict \<Rightarrow> string \<Rightarrow> string \<Rightarrow> string"
  bearer_token :: "gw_request \<Rightarrow> string option"
  auth_time :: real
  start_time :: real
  end_time :: real
  uuid4 :: string

definition gw_raise :: "gw_exn \<Rightarrow> gw_out" where
  "gw_raise e = ([], Inl e)"

fun py_type :: "pyval \<Rightarrow> string" where
  "py_type PNone = ''NoneType''"
| "py_type (PBool _) = ''bool''"
| "py_type (PInt _) = ''int''"
| "py_type (PFloat _) = ''float''"
| "py_type (PStr _) = ''str''"
| "py_type (PList _) = ''list''"
| "py_type (PDict _) = ''dict''"
| "py_type (PObject _) = ''object''"

text \<open>\<open>any(role in allowed for role in user_roles)\<close> for a value of any type.\<close>

fun py_iter :: "pyval \<Rightarrow> gw_exn + pyval list" where
  "py_iter (PList vs) = Inr vs"
| "py_iter (PStr s) = Inr (map (\<lambda>c. PStr [c]) s)"
| "py_iter (PDict d) = Inr (map (PStr \<circ> fst) d)"
| "py_iter v = Inl (OtherExc ''TypeError'' (py_type v @ '' object is not iterable''))"

definition role_in :: "string list \<Rightarrow> pyval \<Rightarrow> bool" where
  "role_in allowed v = (case v of PStr s \<Rightarrow> s \<in> set allowed | _ \<Rightarrow> False)"

definition any_role :: "pyval \<Rightarrow> string list \<Rightarrow> gw_exn + bool" where
  "any_role roles allowed =
     (case py_iter roles of Inl e \<Rightarrow> Inl e | Inr vs \<Rightarrow> Inr (list_ex (role_in allowed) vs))"

section \<open>Policies\<close>

datatype resource_type = STRATEGY | NODE | CALLBACK | EVENT | STREAM
datatype action_type = READ | CREATE | UPDATE | DELETE | EXECUTE

record policy_rule =
  rule_resource :: resource_type
  rule_resource_id :: "string option"
  rule_actions :: "action_type list"
  rule_effect :: string
  rule_conditions :: "(string, pyval) dict"

record policy =
  policy_id :: string
  policy_name :: string
  policy_roles :: "string list"
  policy_rules :: "policy_rule list"

type_synonym policies = "(string, policy) dict"

definition allow_rule :: "resource_type \<Rightarrow> action_type list \<Rightarrow> policy_rule" where
  "allow_rule rt acts =
     \<lparr>rule_resource = rt, rule_resource_id = None, rule_actions = acts, rule_effect = ''allow'',
      rule_conditions = []\<rparr>"

definition read_only_policy :: policy where
  "read_only_policy =
     \<lparr>policy_id = ''read-only'', policy_name = ''Read Only Policy'', policy_roles = [''user''],
      policy_rules = [allow_rule STRATEGY [READ], allow_rule NODE [READ], allow_rule EVENT [READ]]\<rparr>"

definition admin_policy :: policy where
  "admin_policy =
     \<lparr>policy_id = ''admin'', policy_name = ''Admin Policy'', policy_roles = [''admin''],
      policy_rules =
        [allow_rule STRATEGY [READ, CREATE, UPDATE, DELETE, EXECUTE],
         allow_rule NODE [READ, CREATE, UPDATE, DELETE],
         allow_rule CALLBACK [READ, CREATE, UPDATE, DELETE],
         allow_rule EVENT [READ, CREATE],
         allow_rule STREAM [READ, CREATE, UPDATE, DELETE]]\<rparr>"

definition service_policy :: policy where
  "service_policy =
     \<lparr>policy_id = ''service'', policy_name = ''Service Policy'', policy_roles = [''service''],
      policy_rules =
        [allow_rule STRATEGY [READ, CREATE, UPDATE, EXECUTE],
         allow_rule NODE [READ, CREATE, UPDATE],
         allow_rule CALLBACK [READ, CREATE],
         allow_rule EVENT [READ, CREATE]]\<rparr>"

definition default_policies :: policies where
  "default_policies =
     [(policy_id read_only_policy, read_only_policy), (policy_id admin_policy, admin_policy),
      (policy_id service_policy, service_policy)]"

text \<open>The loops of \<open>evaluate_access\<close>; \<open>None\<close> is the early \<open>return False\<close>.\<close>

definition rule_applies :: "resource_type \<Rightarrow> action_type \<Rightarrow> string option \<Rightarrow> policy_rule \<Rightarrow> bool" where
  "rule_applies rt act rid r \<longleftrightarrow>
     rule_resource r = rt \<and>
     \<not> (rule_resource_id r \<noteq> None \<and> rule_resource_id r \<noteq> Some [] \<and> rule_resource_id r \<noteq> rid) \<and>
     act \<in> set (rule_actions r)"

fun check_rules :: "resource_type \<Rightarrow> action_type \<Rightarrow> string option \<Rightarrow> policy_rule list \<Rightarrow> bool \<Rightarrow> bool option" where
  "check_rules rt act rid [] allowed = Some allowed"
| "check_rules rt act rid (r # rs) allowed =
     (if rule_applies rt act rid r then
        (if rule_effect r = ''allow'' then check_rules rt act rid rs True else None)
      else check_rules rt act rid rs allowed)"

fun check_policies ::
  "pyval \<Rightarrow> resource_type \<Rightarrow> action_type \<Rightarrow> string option \<Rightarrow> policy list \<Rightarrow> bool \<Rightarrow> gw_exn + bool" where
  "check_policies roles rt act rid [] allowed = Inr allowed"
| "check_policies roles rt act rid (p # ps) allowed =
     (case any_role roles (policy_roles p) of
        Inl e \<Rightarrow> Inl e
      | Inr False \<Rightarrow> check_policies roles rt act rid ps allowed
      | Inr True \<Rightarrow>
          (case check_rules rt act rid (policy_rules p) allowed of
             None \<Rightarrow> Inr False
           | Some allowed' \<Rightarrow> check_policies roles rt act rid ps allowed'))"

definition evaluate_access ::
  "policies \<Rightarrow> pyval \<Rightarrow> resource_type \<Rightarrow> action_type \<Rightarrow> string option \<Rightarrow> gw_exn + bool" where
  "evaluate_access pols roles rt act rid = check_policies roles rt act rid (map snd pols) False"

section \<open>Access control lists\<close>

text \<open>
  The patterns of the rules are sequences of literal text and of \<open>[^/]+\<close> between \<open>^\<close> and \<open>$\<close>.
  \<open>$\<close> also matches before a final newline.
\<close>

datatype pattern_atom = Lit string | Segment

function path_match :: "pattern_atom list \<Rightarrow> string \<Rightarrow> bool" where
  "path_match [] s = (s = [] \<or> s = [CHR 0x0A])"
| "path_match (Lit l # ps) s = (starts_with s l \<and> path_match ps (drop (length l) s))"
| "path_match (Segment # ps) [] = False"
| "path_match (Segment # ps) (c # s) =
     (c \<noteq> CHR ''/'' \<and> (path_match ps s \<or> path_match (Segment # ps) s))"
  by pat_completeness auto
termination by (relation "measures [\<lambda>(ps, s). length ps, \<lambda>(ps, s). length s]") auto

record acl_rule =
  path_pattern :: "pattern_atom list"
  allowed_roles :: "string list"
  allowed_methods :: "string list"

record acl_config =
  acl_rules :: "acl_rule list"
  default_deny :: bool
  acl_exclude :: "string list"

definition find_matching_rule :: "acl_config \<Rightarrow> string \<Rightarrow> acl_rule option" where
  "find_matching_rule cfg path = find (\<lambda>r. path_match (path_pattern r) path) (acl_rules cfg)"

definition http_exc :: "int \<Rightarrow> string \<Rightarrow> gw_exn" where
  "http_exc code dtl = HttpExc code (PStr dtl) None"

definition only_get :: gw_exn where
  "only_get = http_exc 405 ''Only GET requests are allowed for this endpoint''"

definition acl_call :: "acl_config \<Rightarrow> middleware" where
  "acl_call cfg req call_next =
     (if req_path req \<in> set (acl_exclude cfg) then call_next req
      else if starts_with (req_path req) ''/v1/gateway'' \<and> req_method req \<noteq> ''GET'' then gw_raise only_get
      else
        (case req_user req of
           None \<Rightarrow> gw_raise (http_exc 401 ''Authentication required'')
         | Some [] \<Rightarrow> gw_raise (http_exc 401 ''Authentication required'')
         | Some (u # us) \<Rightarrow>
             (case find_matching_rule cfg (req_path req) of
                None \<Rightarrow>
                  if default_deny cfg then gw_raise (http_exc 403 ''Access denied by default policy'')
                  else call_next req
              | Some r \<Rightarrow>
                  if req_method req \<notin> set (allowed_methods r)
                  then gw_raise (http_exc 405 (''Method '' @ req_method req @ '' not allowed''))
                  else
                    (case any_role (case map_of (u # us) ''roles'' of None \<Rightarrow> PList [] | Some v \<Rightarrow> v)
                            (allowed_roles r) of
                       Inl e \<Rightarrow> gw_raise e
                     | Inr False \<Rightarrow> gw_raise (http_exc 403 ''Insufficient permissions'')
                     | Inr True \<Rightarrow> call_next req))))"

definition get_rule :: "pattern_atom list \<Rightarrow> string list \<Rightarrow> acl_rule" where
  "get_rule pat roles = \<lparr>path_pattern = pat, allowed_roles = roles, allowed_methods = [''GET'']\<rparr>"

definition default_acl_rules :: "acl_rule list" where
  "default_acl_rules =
     [get_rule [Lit ''/v1/gateway/strategies''] [''user'', ''admin''],
      get_rule [Lit ''/v1/gateway/strategies/'', Segment, Lit ''/status''] [''user'', ''admin'', ''service''],
      get_rule [Lit ''/v1/gateway/callbacks''] [''admin'', ''service''],
      get_rule [Lit ''/v1/gateway/nodes''] [''user'', ''admin''],
      get_rule [Lit ''/v1/gateway/events''] [''user'', ''admin'', ''service'']]"

section \<open>Authentication\<close>

record jwt_config =
  secret_key :: string
  algorithm :: string
  jwt_exclude :: "string list"

definition unauthorized :: "string \<Rightarrow> gw_exn" where
  "unauthorized dtl = HttpExc 401 (PStr dtl) (Some [(''WWW-Authenticate'', ''Bearer'')])"

text \<open>\<open>payload["exp"] < time.time()\<close>\<close>

fun py_less :: "pyval \<Rightarrow> real \<Rightarrow> gw_exn + bool" where
  "py_less (PInt i) t = Inr (real_of_int i < t)"
| "py_less (PFloat x) t = Inr (x < t)"
| "py_less (PBool b) t = Inr ((if b then 1 else 0) < t)"
| "py_less v t =
     Inl (OtherExc ''TypeError'' (''< not supported between instances of '' @ py_type v @ '' and float''))"

definition token_expired :: "gw_env \<Rightarrow> (string, pyval) dict \<Rightarrow> gw_exn + bool" where
  "token_expired E payload =
     (case map_of payload ''exp'' of None \<Rightarrow> Inr False | Some v \<Rightarrow> py_less v (auth_time E))"

definition jwt_call :: "gw_env \<Rightarrow> jwt_config \<Rightarrow> middleware" where
  "jwt_call E cfg req call_next =
     (if req_path req \<in> set (jwt_exclude cfg) then call_next req
      else if req_method req \<noteq> ''GET'' \<and> starts_with (req_path req) ''/v1/gateway'' then gw_raise only_get
      else
        (case bearer_token E req of
           None \<Rightarrow> gw_raise (unauthorized ''Not authenticated'')
         | Some token \<Rightarrow>
             (case jwt_decode E token (secret_key cfg) [algorithm cfg] of
                Inl _ \<Rightarrow> gw_raise (unauthorized ''Invalid authentication credentials'')
              | Inr payload \<Rightarrow>
                  (case token_expired E payload of
                     Inl e \<Rightarrow> gw_raise e
                   | Inr True \<Rightarrow> gw_raise (unauthorized ''Token expired'')
                   | Inr False \<Rightarrow> call_next (req\<lparr>req_user := Some payload\<rparr>)))))"

text \<open>\<open>if expires_delta\<close>: a lifetime of zero seconds is no lifetime at all.\<close>

definition create_access_token ::
  "gw_env \<Rightarrow> (string, pyval) dict \<Rightarrow> string \<Rightarrow> string \<Rightarrow> int option \<Rightarrow> string" where
  "create_access_token E d secret alg expires_delta =
     jwt_encode E
       (case expires_delta of
          Some n \<Rightarrow> if n \<noteq> 0 then AList.update ''exp'' (PFloat (auth_time E + real_of_int n)) d else d
        | None \<Rightarrow> d) secret alg"

section \<open>Errors\<close>

text \<open>Building a \<open>JSONResponse\<close> serialises the content, which raises on an object json does not know.\<close>

definition gw_json_response :: "int \<Rightarrow> pyval \<Rightarrow> (string, string) dict option \<Rightarrow> gw_exn + gw_response" where
  "gw_json_response code v hs =
     (if json_ok v
      then Inr \<lparr>gw_status = code, gw_content = GwJson v,
                gw_headers = (case hs of None \<Rightarrow> [] | Some h \<Rightarrow> h)\<rparr>
      else Inl (OtherExc ''TypeError'' ''Object is not JSON serializable''))"

definition optional_str :: "string option \<Rightarrow> pyval" where
  "optional_str s = (case s of None \<Rightarrow> PNone | Some t \<Rightarrow> PStr t)"

definition handle_http_exception ::
  "gw_env \<Rightarrow> gw_request \<Rightarrow> int \<Rightarrow> pyval \<Rightarrow> (string, string) dict option \<Rightarrow> gw_out" where
  "handle_http_exception E req code dtl hs =
     ([\<lparr>log_level = (if 500 \<le> code then ERROR else WARNING),
        log_text = ''HTTP '' @ show_int code @ '' error: '' @ str_value E dtl,
        log_extra = [(''path'', PStr (req_path req)), (''method'', PStr (req_method req)),
                     (''status_code'', PInt code), (''request_id'', optional_str (req_id req))]\<rparr>],
      gw_json_response code (PDict [(''detail'', dtl)]) hs)"

definition validation_log :: "gw_env \<Rightarrow> gw_request \<Rightarrow> string \<Rightarrow> string \<Rightarrow> pyval \<Rightarrow> log_entry" where
  "validation_log E req kind msg errs =
     \<lparr>log_level = WARNING, log_text = kind @ msg,
      log_extra = [(''path'', PStr (req_path req)), (''method'', PStr (req_method req)),
                   (''errors'', PStr (str_value E errs)), (''request_id'', optional_str (req_id req))]\<rparr>"

definition handle_validation_error :: "gw_env \<Rightarrow> gw_request \<Rightarrow> string \<Rightarrow> pyval \<Rightarrow> gw_out" where
  "handle_validation_error E req msg errs =
     ([validation_log E req ''Request validation error: '' msg errs],
      gw_json_response 422 (PDict [(''detail'', PStr ''Request validation error''), (''errors'', errs)]) None)"

definition handle_pydantic_error :: "gw_env \<Rightarrow> gw_request \<Rightarrow> string \<Rightarrow> pyval \<Rightarrow> gw_out" where
  "handle_pydantic_error E req msg errs =
     ([validation_log E req ''Pydantic validation error: '' msg errs],
      gw_json_response 422 (PDict [(''detail'', PStr ''Data validation error''), (''errors'', errs)]) None)"

definition handle_server_error :: "gw_env \<Rightarrow> gw_request \<Rightarrow> gw_exn \<Rightarrow> string \<Rightarrow> gw_out" where
  "handle_server_error E req e msg =
     ([\<lparr>log_level = ERROR, log_text = ''Unexpected error: '' @ msg,
        log_extra = [(''path'', PStr (req_path req)), (''method'', PStr (req_method req)),
                     (''error'', PStr msg), (''traceback'', PStr (traceback_of E e)),
                     (''request_id'', optional_str (req_id req))]\<rparr>],
      gw_json_response 500 (PDict [(''detail'', PStr ''Internal server error'')]) None)"

definition handle_error :: "gw_env \<Rightarrow> gw_request \<Rightarrow> gw_exn \<Rightarrow> gw_out" where
  "handle_error E req e =
     (case e of
        HttpExc code dtl hs \<Rightarrow> handle_http_exception E req code dtl hs
      | RequestValidationExc msg errs \<Rightarrow> handle_validation_error E req msg errs
      | PydanticExc msg errs \<Rightarrow> handle_pydantic_error E req msg errs
      | OtherExc _ msg \<Rightarrow> handle_server_error E req e msg
      | BaseExc _ \<Rightarrow> gw_raise e)"

definition error_call :: "gw_env \<Rightarrow> middleware" where
  "error_call E req call_next =
     (case call_next req of
        (logs, Inr resp) \<Rightarrow> (logs, Inr resp)
      | (logs, Inl e) \<Rightarrow> (case handle_error E req e of (l, r) \<Rightarrow> (logs @ l, r)))"

section \<open>Logging\<close>

definition redact :: "(string, string) dict \<Rightarrow> (string, string) dict" where
  "redact hs = (if has_key hs ''authorization'' then AList.update ''authorization'' ''[REDACTED]'' hs else hs)"

definition logged_body :: "gw_request \<Rightarrow> pyval" where
  "logged_body req =
     (if req_method req \<in> set [''POST'', ''PUT'', ''PATCH''] then
        (case req_body req of
           BodyUnreadable \<Rightarrow> PStr ''[Body read error]''
         | BodyEmpty \<Rightarrow> PNone
         | BodyUndecodable \<Rightarrow> PStr ''[Body read error]''
         | BodyText t \<Rightarrow> (case json_loads t of Some v \<Rightarrow> v | None \<Rightarrow> PStr ''[Non-JSON body]''))
      else PNone)"

definition log_request :: "gw_request \<Rightarrow> string \<Rightarrow> log_entry" where
  "log_request req rid =
     \<lparr>log_level = INFO,
      log_text = ''Request: '' @ rid @ '' - '' @ req_method req @ '' '' @ req_path req,
      log_extra =
        [(''request_id'', PStr rid), (''method'', PStr (req_method req)), (''path'', PStr (req_path req)),
         (''query_params'', PDict (req_query req)),
         (''headers'', PDict (map (\<lambda>(k, v). (k, PStr v)) (redact (req_headers req)))),
         (''body'', logged_body req), (''client_ip'', optional_str (req_client req))]\<rparr>"

definition log_response :: "gw_env \<Rightarrow> string \<Rightarrow> int \<Rightarrow> real \<Rightarrow> log_entry" where
  "log_response E rid code t =
     \<lparr>log_level = INFO,
      log_text = ''Response: '' @ rid @ '' - Status: '' @ show_int code @ '' - Time: '' @ format_4f E t @ ''s'',
      log_extra = [(''request_id'', PStr rid), (''status_code'', PInt code), (''processing_time'', PFloat t)]\<rparr>"

text \<open>\<open>str(e)\<close> of the exceptions the gateway distinguishes.\<close>

fun exn_text :: "gw_env \<Rightarrow> gw_exn \<Rightarrow> string" where
  "exn_text E (HttpExc code dtl _) = show_int code @ '': '' @ str_value E dtl"
| "exn_text E (RequestValidationExc msg _) = msg"
| "exn_text E (PydanticExc msg _) = msg"
| "exn_text E (OtherExc _ msg) = msg"
| "exn_text E (BaseExc msg) = msg"

definition logging_call :: "gw_env \<Rightarrow> middleware" where
  "logging_call E req call_next =
     (let rid = uuid4 E; req' = req\<lparr>req_id := Some rid\<rparr> in
      case call_next req' of
        (logs, Inr resp) \<Rightarrow>
          (log_request req' rid # logs @ [log_response E rid (gw_status resp) (end_time E - start_time E)],
           Inr resp)
      | (logs, Inl (BaseExc m)) \<Rightarrow> (log_request req' rid # logs, Inl (BaseExc m))
      | (logs, Inl e) \<Rightarrow>
          (log_request req' rid # logs @
             [\<lparr>log_level = ERROR,
               log_text = ''Request failed: '' @ rid @ '' - '' @ req_method req @ '' '' @ req_path req,
               log_extra = [(''request_id'', PStr rid), (''error'', PStr (exn_text E e))]\<rparr>],
           Inl e))"

section \<open>The application\<close>

definition gw_json :: "pyval \<Rightarrow> gw_exn + gw_response" where
  "gw_json v = gw_json_response 200 v None"

definition gw_empty :: "int \<Rightarrow> gw_exn + gw_response" where
  "gw_empty code = Inr \<lparr>gw_status = code, gw_content = GwEmpty, gw_headers = []\<rparr>"

definition gw_root :: endpoint where
  "gw_root req = ([], gw_json (PDict [(''status'', PStr ''ok''), (''service'', PStr ''QMTL Gateway'')]))"

definition gw_health :: endpoint where
  "gw_health req = ([], gw_json (PDict [(''status'', PStr ''healthy''), (''service'', PStr ''QMTL Gateway'')]))"

definition submit_strategy :: endpoint where
  "submit_strategy req = ([], gw_empty 405)"

text \<open>
  The start of every other handler: \<open>request.state.user.get("roles", [])\<close> and the policy check.
  \<open>request.state.user\<close> raises \<open>AttributeError\<close> when no middleware has set it.
\<close>

definition if_permitted ::
  "policies \<Rightarrow> gw_request \<Rightarrow> resource_type \<Rightarrow> action_type \<Rightarrow> string option \<Rightarrow> (gw_exn + gw_response) \<Rightarrow> gw_out" where
  "if_permitted pols req rt act rid answer =
     ([], case req_user req of
            None \<Rightarrow> Inl (OtherExc ''AttributeError'' ''State object has no attribute user'')
          | Some u \<Rightarrow>
              (case evaluate_access pols (case map_of u ''roles'' of None \<Rightarrow> PList [] | Some v \<Rightarrow> v) rt act rid of
                 Inl e \<Rightarrow> Inl e
               | Inr False \<Rightarrow> gw_empty 403
               | Inr True \<Rightarrow> answer))"

definition gw_list_strategies :: "policies \<Rightarrow> endpoint" where
  "gw_list_strategies pols req =
     if_permitted pols req STRATEGY READ None (gw_json (PDict [(''strategies'', PList [])]))"

definition strategy_status :: "policies \<Rightarrow> string \<Rightarrow> endpoint" where
  "strategy_status pols strategy_id req =
     if_permitted pols req STRATEGY READ (Some strategy_id)
       (if strategy_id \<noteq> ''test-strategy-1'' then gw_empty 404
        else Inr \<lparr>gw_status = 200,
                  gw_content = GwBytes (CHR 0x0A # CHR 0x0F # ''test-strategy-1'' @ [CHR 0x12, CHR 0x02] @ ''ok'')
                    ''application/x-protobuf'',
                  gw_headers = []\<rparr>)"

definition gw_list_callbacks :: "policies \<Rightarrow> endpoint" where
  "gw_list_callbacks pols req =
     if_permitted pols req CALLBACK READ None (gw_json (PDict [(''callbacks'', PList [])]))"

definition gw_list_nodes :: "policies \<Rightarrow> endpoint" where
  "gw_list_nodes pols req =
     if_permitted pols req NODE READ None (gw_json (PDict [(''nodes'', PList [])]))"

definition gw_list_events :: "policies \<Rightarrow> endpoint" where
  "gw_list_events pols req =
     if_permitted pols req EVENT READ None (gw_json (PDict [(''events'', PList [])]))"

text \<open>
  The middlewares in the order the module adds them. The CORS middleware comes from FastAPI and is
  a parameter, as is the way Starlette applies a list of middlewares to an endpoint: each
  \<open>add_middleware\<close> wraps the application built so far, so the one added last runs first.
\<close>

definition excluded_paths :: "string list" where
  "excluded_paths = [''/health'', ''/'', ''/docs'', ''/openapi.json'']"

definition gateway_jwt :: "string option \<Rightarrow> jwt_config" where
  "gateway_jwt secret =
     \<lparr>secret_key = (case secret of Some s \<Rightarrow> s | None \<Rightarrow> ''development_secret_key''),
      algorithm = ''HS256'', jwt_exclude = excluded_paths\<rparr>"

definition gateway_acl :: acl_config where
  "gateway_acl =
     \<lparr>acl_rules = default_acl_rules, default_deny = True, acl_exclude = excluded_paths\<rparr>"

definition gateway_middlewares :: "gw_env \<Rightarrow> string option \<Rightarrow> middleware \<Rightarrow> middleware list" where
  "gateway_middlewares E secret cors =
     [cors, error_call E, logging_call E, jwt_call E (gateway_jwt secret), acl_call gateway_acl]"

definition starlette_laws :: "(middleware list \<Rightarrow> endpoint \<Rightarrow> endpoint) \<Rightarrow> bool" where
  "starlette_laws serve \<longleftrightarrow> (\<forall>ms m ep req. serve (ms @ [m]) ep req = m req (serve ms ep))"

definition run_gateway ::
  "(middleware list \<Rightarrow> endpoint \<Rightarrow> endpoint) \<Rightarrow> gw_env \<Rightarrow> string option \<Rightarrow> middleware \<Rightarrow> endpoint \<Rightarrow> endpoint" where
  "run_gateway serve E secret cors ep = serve (gateway_middlewares E secret cors) ep"

section \<open>Properties of the policies\<close>

definition applicable_rules ::
  "policies \<Rightarrow> pyval list \<Rightarrow> resource_type \<Rightarrow> action_type \<Rightarrow> string option \<Rightarrow> policy_rule list" where
  "applicable_rules pols roles rt act rid =
     filter (rule_applies rt act rid)
       (concat (map (policy_rules \<circ> snd)
          (filter (\<lambda>(_, p). list_ex (role_in (policy_roles p)) roles) pols)))"

definition allows :: "policy_rule \<Rightarrow> bool" where
  "allows r \<longleftrightarrow> rule_effect r = ''allow''"

lemma check_rules_spec:
  "check_rules rt act rid rs allowed =
     (let app = filter (rule_applies rt act rid) rs in
      if list_all allows app then Some (allowed \<or> app \<noteq> []) else None)"
  by (induction rs arbitrary: allowed) (auto simp: Let_def allows_def)

lemma any_role_list [simp]: "any_role (PList roles) rs = Inr (list_ex (role_in rs) roles)"
  by (simp add: any_role_def)

lemma check_policies_spec:
  "check_policies (PList roles) rt act rid (map snd pols) allowed =
     Inr (list_all allows (applicable_rules pols roles rt act rid) \<and>
          (allowed \<or> applicable_rules pols roles rt act rid \<noteq> []))"
proof (induction pols arbitrary: allowed)
  case Nil
  then show ?case by (simp add: applicable_rules_def)
next
  case (Cons p pols)
  let ?app = "filter (rule_applies rt act rid) (policy_rules (snd p))"
  show ?case
  proof (cases "list_ex (role_in (policy_roles (snd p))) roles")
    case False
    then have "applicable_rules (p # pols) roles rt act rid = applicable_rules pols roles rt act rid"
      by (simp add: applicable_rules_def split_beta)
    with False Cons.IH show ?thesis by simp
  next
    case True
    then have "applicable_rules (p # pols) roles rt act rid = ?app @ applicable_rules pols roles rt act rid"
      by (simp add: applicable_rules_def split_beta)
    with True Cons.IH show ?thesis
      by (auto simp: check_rules_spec Let_def)
  qed
qed

text \<open>
  C9: access is decided by the applicable rules alone, whatever their order and that of the
  policies: a request is allowed when some rule of a policy for one of the caller's roles allows
  it and none denies it, so one deny wins over any number of allows.
\<close>
theorem evaluate_access_deny_overrides:
  "evaluate_access pols (PList roles) rt act rid =
     Inr (list_ex allows (applicable_rules pols roles rt act rid) \<and>
          \<not> list_ex (\<lambda>r. \<not> allows r) (applicable_rules pols roles rt act rid))"
proof -
  let ?rs = "applicable_rules pols roles rt act rid"
  have "list_all allows ?rs \<and> ?rs \<noteq> [] \<longleftrightarrow> list_ex allows ?rs \<and> \<not> list_ex (\<lambda>r. \<not> allows r) ?rs"
    by (cases ?rs) (auto simp: list_all_iff list_ex_iff)
  then show ?thesis by (simp add: evaluate_access_def check_policies_spec)
qed

lemma role_in_list: "list_ex (role_in allowed) (map PStr roles) \<longleftrightarrow> list_ex (\<lambda>s. s \<in> set allowed) roles"
  by (induction roles) (simp_all add: role_in_def)

lemma default_allows:
  "evaluate_access default_policies (PList roles) rt act rid =
     Inr (applicable_rules default_policies roles rt act rid \<noteq> [])"
proof -
  have "list_all allows (applicable_rules default_policies roles rt act rid)"
    by (auto simp: applicable_rules_def default_policies_def list_all_iff allows_def allow_rule_def
      read_only_policy_def admin_policy_def service_policy_def)
  then show ?thesis by (simp add: evaluate_access_def check_policies_spec)
qed

lemma allow_rule_applies:
  "rule_applies rt act rid (allow_rule rt' acts) \<longleftrightarrow> rt' = rt \<and> act \<in> set acts"
  by (simp add: rule_applies_def allow_rule_def)

lemma default_rules_apply:
  "list_ex (rule_applies rt act rid) (policy_rules read_only_policy) \<longleftrightarrow>
     act = READ \<and> rt \<in> {STRATEGY, NODE, EVENT}"
  "list_ex (rule_applies rt act rid) (policy_rules admin_policy) \<longleftrightarrow>
     act \<in> {READ, CREATE} \<or> act \<in> {UPDATE, DELETE} \<and> rt \<noteq> EVENT \<or> act = EXECUTE \<and> rt = STRATEGY"
  "list_ex (rule_applies rt act rid) (policy_rules service_policy) \<longleftrightarrow>
     rt \<noteq> STREAM \<and>
       (act \<in> {READ, CREATE} \<or> act = UPDATE \<and> rt \<in> {STRATEGY, NODE} \<or> act = EXECUTE \<and> rt = STRATEGY)"
  by ((cases rt; cases act;
       simp add: read_only_policy_def admin_policy_def service_policy_def allow_rule_applies)+)

text \<open>
  The decisions of the built-in policies. An administrator may read and create everything,
  update and delete everything but events, and execute strategies; a service has no access to
  streams, cannot delete, and updates only strategies and nodes; a user only reads strategies, nodes
  and events. Roles add up, and any other role gives nothing.
\<close>
theorem default_policies_decide:
  "evaluate_access default_policies (PList (map PStr roles)) rt act rid =
     Inr (''admin'' \<in> set roles \<and>
            (act \<in> {READ, CREATE} \<or> act \<in> {UPDATE, DELETE} \<and> rt \<noteq> EVENT \<or> act = EXECUTE \<and> rt = STRATEGY)
        \<or> ''service'' \<in> set roles \<and> rt \<noteq> STREAM \<and>
            (act \<in> {READ, CREATE} \<or> act = UPDATE \<and> rt \<in> {STRATEGY, NODE} \<or> act = EXECUTE \<and> rt = STRATEGY)
        \<or> ''user'' \<in> set roles \<and> act = READ \<and> rt \<in> {STRATEGY, NODE, EVENT})"
proof -
  have roles: "list_ex (role_in [r]) (map PStr roles) \<longleftrightarrow> r \<in> set roles" for r
    by (auto simp: role_in_list list_ex_iff role_in_def)
  have "applicable_rules default_policies (map PStr roles) rt act rid \<noteq> [] \<longleftrightarrow>
      list_ex (role_in (policy_roles read_only_policy)) (map PStr roles) \<and>
        list_ex (rule_applies rt act rid) (policy_rules read_only_policy)
      \<or> list_ex (role_in (policy_roles admin_policy)) (map PStr roles) \<and>
        list_ex (rule_applies rt act rid) (policy_rules admin_policy)
      \<or> list_ex (role_in (policy_roles service_policy)) (map PStr roles) \<and>
        list_ex (rule_applies rt act rid) (policy_rules service_policy)"
    by (auto simp: applicable_rules_def default_policies_def filter_empty_conv list_ex_iff)
  moreover have "policy_roles read_only_policy = [''user'']" "policy_roles admin_policy = [''admin'']"
    "policy_roles service_policy = [''service'']"
    by (simp_all add: read_only_policy_def admin_policy_def service_policy_def)
  ultimately have "applicable_rules default_policies (map PStr roles) rt act rid \<noteq> [] \<longleftrightarrow>
      ''user'' \<in> set roles \<and> list_ex (rule_applies rt act rid) (policy_rules read_only_policy)
      \<or> ''admin'' \<in> set roles \<and> list_ex (rule_applies rt act rid) (policy_rules admin_policy)
      \<or> ''service'' \<in> set roles \<and> list_ex (rule_applies rt act rid) (policy_rules service_policy)"
    by (simp only: roles)
  then show ?thesis
    unfolding default_allows default_rules_apply by (simp only: disj_ac)
qed

section \<open>Properties of the middlewares\<close>

text \<open>
  The error middleware lets responses through unchanged, keeps the status and headers of an
  HTTP exception, and answers 500 with a fixed text for any unexpected exception, so nothing about
  it reaches the client. What it cannot turn into a response is an exception outside
  \<open>Exception\<close> and error details that json cannot serialise, for which building the answer raises
  in its turn.
\<close>
theorem error_call_answers:
  "snd (error_call E req (\<lambda>_. (ls, Inr resp))) = Inr resp \<and>
   snd (error_call E req (\<lambda>_. (ls, Inl (OtherExc c msg)))) =
     Inr \<lparr>gw_status = 500, gw_content = GwJson (PDict [(''detail'', PStr ''Internal server error'')]),
          gw_headers = []\<rparr> \<and>
   snd (error_call E req (\<lambda>_. (ls, Inl (HttpExc code dtl (Some hs))))) =
     (if json_ok dtl
      then Inr \<lparr>gw_status = code, gw_content = GwJson (PDict [(''detail'', dtl)]), gw_headers = hs\<rparr>
      else Inl (OtherExc ''TypeError'' ''Object is not JSON serializable'')) \<and>
   (is_ok (snd (error_call E req call_next)) \<longleftrightarrow>
      (case snd (call_next req) of
         Inl (BaseExc _) \<Rightarrow> False
       | Inl (HttpExc _ d _) \<Rightarrow> json_ok d
       | Inl (RequestValidationExc _ d) \<Rightarrow> json_ok d
       | Inl (PydanticExc _ d) \<Rightarrow> json_ok d
       | _ \<Rightarrow> True))"
  by (cases "call_next req"; cases "snd (call_next req)")
    (auto simp: error_call_def handle_error_def handle_server_error_def handle_http_exception_def
      handle_validation_error_def handle_pydantic_error_def gw_json_response_def gw_raise_def
      split: gw_exn.splits)

text \<open>
  C38: the logging middleware writes the request first and the response or the failure last, returns
  exactly what the rest of the application returned, and never writes the caller's credentials:
  with another value in the \<open>authorization\<close> header the log of the same request is the same.
\<close>
theorem logging_keeps_credentials_out:
  "snd (logging_call E req call_next) = snd (call_next (req\<lparr>req_id := Some (uuid4 E)\<rparr>)) \<and>
   (\<exists>rest. fst (logging_call E req call_next) =
      log_request req (uuid4 E) # fst (call_next (req\<lparr>req_id := Some (uuid4 E)\<rparr>)) @ rest \<and> length rest \<le> 1) \<and>
   fst (logging_call E (req\<lparr>req_headers := AList.update ''authorization'' secret1 hs\<rparr>) (\<lambda>_. out)) =
   fst (logging_call E (req\<lparr>req_headers := AList.update ''authorization'' secret2 hs\<rparr>) (\<lambda>_. out))"
proof (intro conjI)
  let ?r = "req\<lparr>req_id := Some (uuid4 E)\<rparr>"
  have same: "log_request ?r i = log_request req i" for i
    by (simp add: log_request_def logged_body_def)
  show "snd (logging_call E req call_next) = snd (call_next ?r)"
    by (cases "call_next ?r") (simp add: logging_call_def Let_def split: sum.split gw_exn.split)
  show "\<exists>rest. fst (logging_call E req call_next) =
      log_request req (uuid4 E) # fst (call_next ?r) @ rest \<and> length rest \<le> 1"
    by (cases "call_next ?r") (simp add: logging_call_def Let_def same split: sum.split gw_exn.split)
  have "redact (AList.update ''authorization'' a hs) = AList.update ''authorization'' ''[REDACTED]'' hs" for a
    by (simp add: redact_def)
  then have "log_request (req\<lparr>req_headers := AList.update ''authorization'' a hs, req_id := j\<rparr>) i =
      log_request (req\<lparr>req_headers := AList.update ''authorization'' b hs, req_id := j\<rparr>) i" for a b i j
    by (simp add: log_request_def logged_body_def)
  then show "fst (logging_call E (req\<lparr>req_headers := AList.update ''authorization'' secret1 hs\<rparr>) (\<lambda>_. out)) =
    fst (logging_call E (req\<lparr>req_headers := AList.update ''authorization'' secret2 hs\<rparr>) (\<lambda>_. out))"
    by (cases out) (simp add: logging_call_def Let_def split: sum.split gw_exn.split)
qed

lemma acl_reached:
  assumes reaches: "acl_call cfg req k1 \<noteq> acl_call cfg req k2"
    and inside: "req_path req \<notin> set (acl_exclude cfg)" "starts_with (req_path req) ''/v1/gateway''"
  shows "req_method req = ''GET'' \<and> req_user req \<noteq> None \<and> req_user req \<noteq> Some []"
proof -
  have same: False if "\<And>k. acl_call cfg req k = out" for out
    using reaches that by simp
  have get: "req_method req = ''GET''"
  proof (rule ccontr)
    assume "req_method req \<noteq> ''GET''"
    with inside have "acl_call cfg req k = gw_raise only_get" for k
      by (simp add: acl_call_def)
    then show False by (rule same)
  qed
  have "req_user req \<noteq> None \<and> req_user req \<noteq> Some []"
  proof (rule ccontr)
    assume "\<not> (req_user req \<noteq> None \<and> req_user req \<noteq> Some [])"
    with inside get have "acl_call cfg req k = gw_raise (http_exc 401 ''Authentication required'')" for k
      by (auto simp: acl_call_def)
    then show False by (rule same)
  qed
  with get show ?thesis by simp
qed

text \<open>
  C16: the access control list is closed by default and read-only under \<open>/v1/gateway\<close>, whatever the
  rules: if the answer to a request outside the excluded paths depends on the rest of the
  application at all, then it is a GET by an authenticated caller, the first rule matching the path
  permits GET, and one of the caller's roles is among its roles.
\<close>
theorem acl_guards_the_application:
  assumes reaches: "acl_call cfg req k1 \<noteq> acl_call cfg req k2"
    and inside: "req_path req \<notin> set (acl_exclude cfg)" "starts_with (req_path req) ''/v1/gateway''"
    and closed: "default_deny cfg"
  shows "\<exists>u r. req_method req = ''GET'' \<and> req_user req = Some u \<and> u \<noteq> [] \<and>
    find_matching_rule cfg (req_path req) = Some r \<and> ''GET'' \<in> set (allowed_methods r) \<and>
    any_role (case map_of u ''roles'' of None \<Rightarrow> PList [] | Some v \<Rightarrow> v) (allowed_roles r) = Inr True"
proof -
  have same: False if "\<And>k. acl_call cfg req k = out" for out
    using reaches that by simp
  have get: "req_method req = ''GET''" and "req_user req \<noteq> None \<and> req_user req \<noteq> Some []"
    using acl_reached [OF reaches inside] by simp_all
  then obtain w ws where u: "req_user req = Some (w # ws)"
    by (metis list.exhaust not_None_eq)
  have "find_matching_rule cfg (req_path req) \<noteq> None"
  proof
    assume "find_matching_rule cfg (req_path req) = None"
    with inside get u closed
    have "acl_call cfg req k = gw_raise (http_exc 403 ''Access denied by default policy'')" for k
      by (simp add: acl_call_def)
    then show False by (rule same)
  qed
  then obtain r where r: "find_matching_rule cfg (req_path req) = Some r" by blast
  let ?roles = "case map_of (w # ws) ''roles'' of None \<Rightarrow> PList [] | Some v \<Rightarrow> v"
  have call: "acl_call cfg req k =
      (if ''GET'' \<notin> set (allowed_methods r) then gw_raise (http_exc 405 (''Method '' @ ''GET'' @ '' not allowed''))
       else case any_role ?roles (allowed_roles r) of
              Inl e \<Rightarrow> gw_raise e
            | Inr False \<Rightarrow> gw_raise (http_exc 403 ''Insufficient permissions'')
            | Inr True \<Rightarrow> k req)" for k
    unfolding acl_call_def u r get using inside by simp
  have "''GET'' \<in> set (allowed_methods r)"
    using reaches unfolding call by (auto split: if_splits)
  moreover have "any_role ?roles (allowed_roles r) = Inr True"
  proof (cases "any_role ?roles (allowed_roles r)")
    case (Inl e)
    with reaches show ?thesis unfolding call by (simp split: if_splits)
  next
    case (Inr b)
    with reaches show ?thesis unfolding call by (cases b) (simp_all split: if_splits)
  qed
  ultimately show ?thesis using get u r by blast
qed

definition demo_request :: gw_request where
  "demo_request =
     \<lparr>req_path = ''/v1/gateway/nodes'', req_method = ''GET'', req_query = [], req_headers = [],
      req_client = None, req_body = BodyEmpty, req_user = Some [(''roles'', PList [PStr ''user''])],
      req_id = None\<rparr>"

lemma demo_request_passes: "acl_call gateway_acl demo_request k = k demo_request"
  by (simp add: acl_call_def demo_request_def gateway_acl_def excluded_paths_def starts_with_def
    find_matching_rule_def default_acl_rules_def get_rule_def any_role_def role_in_def)

theorem acl_guards_the_application_witness:
  "acl_call gateway_acl demo_request (\<lambda>_. gw_raise (http_exc 1 '''')) \<noteq>
     acl_call gateway_acl demo_request (\<lambda>_. gw_raise (http_exc 2 '''')) \<and>
   (\<exists>u r. req_method demo_request = ''GET'' \<and> req_user demo_request = Some u \<and> u \<noteq> [] \<and>
    find_matching_rule gateway_acl (req_path demo_request) = Some r \<and> ''GET'' \<in> set (allowed_methods r) \<and>
    any_role (case map_of u ''roles'' of None \<Rightarrow> PList [] | Some v \<Rightarrow> v) (allowed_roles r) = Inr True)"
proof -
  have d: "acl_call gateway_acl demo_request (\<lambda>_. gw_raise (http_exc 1 '''')) \<noteq>
     acl_call gateway_acl demo_request (\<lambda>_. gw_raise (http_exc 2 ''''))"
    by (simp add: demo_request_passes gw_raise_def http_exc_def)
  have "req_path demo_request \<notin> set (acl_exclude gateway_acl)"
    "starts_with (req_path demo_request) ''/v1/gateway''" "default_deny gateway_acl"
    by (simp_all add: demo_request_def gateway_acl_def excluded_paths_def starts_with_def)
  from acl_guards_the_application [OF d this] d show ?thesis by blast
qed

section \<open>Properties of the application\<close>

lemma gateway_runs_acl_first:
  assumes "starlette_laws serve"
  shows "run_gateway serve E secret cors ep req =
    acl_call gateway_acl req
      (serve [cors, error_call E, logging_call E, jwt_call E (gateway_jwt secret)] ep)"
  using assms [unfolded starlette_laws_def, rule_format,
    of "[cors, error_call E, logging_call E, jwt_call E (gateway_jwt secret)]" "acl_call gateway_acl" ep req]
  by (simp add: run_gateway_def gateway_middlewares_def)

text \<open>
  C22: the stack of middlewares is upside down. The access control list is added last, so it runs
  first, before the token has been read: every request outside the excluded paths, with a valid
  token or without, ends in an HTTP exception that no middleware turns into a response, because the
  error middleware is further in. No handler of \<open>/v1/gateway\<close> is ever reached.
\<close>
theorem gateway_rejects_everyone:
  assumes "starlette_laws serve" and "req_path req \<notin> set excluded_paths" and "req_user req = None"
  shows "run_gateway serve E secret cors ep req =
    ([], Inl (if starts_with (req_path req) ''/v1/gateway'' \<and> req_method req \<noteq> ''GET'' then only_get
              else http_exc 401 ''Authentication required''))"
  using assms(2,3)
  by (simp add: gateway_runs_acl_first [OF assms(1)] acl_call_def gateway_acl_def gw_raise_def)

definition wrap_all :: "middleware list \<Rightarrow> endpoint \<Rightarrow> endpoint" where
  "wrap_all ms ep = foldl (\<lambda>app m req. m req app) ep ms"

lemma wrap_all_laws: "starlette_laws wrap_all"
  by (simp add: starlette_laws_def wrap_all_def)

definition gw_demo_env :: gw_env where
  "gw_demo_env =
     \<lparr>str_value = (\<lambda>_. ''value''), format_4f = (\<lambda>_. ''0.0000''), traceback_of = (\<lambda>_. ''trace''),
      jwt_decode = (\<lambda>_ _ _. Inr [(''roles'', PList [PStr ''admin''])]), jwt_encode = (\<lambda>_ _ _. ''token''),
      bearer_token = (\<lambda>_. Some ''token''), auth_time = 0, start_time = 0, end_time = 0, uuid4 = ''id''\<rparr>"

theorem gateway_rejects_everyone_witness:
  "run_gateway wrap_all gw_demo_env (Some ''secret'') (\<lambda>req app. app req) (gw_list_nodes default_policies)
     (demo_request\<lparr>req_user := None\<rparr>) = ([], Inl (http_exc 401 ''Authentication required''))"
  using gateway_rejects_everyone [OF wrap_all_laws, of "demo_request\<lparr>req_user := None\<rparr>" gw_demo_env "Some ''secret''"
      "\<lambda>req app. app req" "gw_list_nodes default_policies"]
  by (simp add: demo_request_def excluded_paths_def)

end
