(* ===== verification/SdkNode.thy ===== *)
theory SdkNode
  imports Errors DataNodes "HOL-Library.List_Lexorder" "HOL-Library.Char_ord"
begin

text \<open>
  The nodes of a pipeline (\<open>sdk/node.py\<close>) and the settings objects they carry
  (\<open>IntervalSettings\<close> and \<open>NodeStreamSettings\<close> of \<open>sdk/models.py\<close>).

  A callable is what the code sees of a Python function: its behaviour on keyword arguments (a
  wrong set of arguments is an exception of the call), the parameter names of its signature, its
  qualified name and the dump of its syntax tree. Its result depends on the arguments only, also that of the \<open>fetch\<close> of a
  source: what a function remembers between calls, reads from the world or does to it is not modelled, so a
  callable stands for what a function does at one point of time, and statements that compare several
  runs are about functions that do not change in between. Values are \<open>pyval\<close>, upstreams are names, and a
  settings object is a value of its own: nodes that share one Python object are not modelled. The
  MD5 function is a parameter.
\<close>

section \<open>Callables, settings and nodes\<close>

record callable =
  call :: "(string, pyval) dict \<Rightarrow> pyval res"
  param_names :: "string list"
  has_kwargs :: bool
  fn_qualname :: string
  fn_ast :: string

record interval_obj =
  obj_interval :: pyval
  obj_period :: pyval
  obj_max_history :: pyval

datatype setting = SettingObj interval_obj | SettingDict "(string, pyval) dict"

type_synonym intervals = "(string, setting) dict"

datatype node_kind = Processing | Source

record sdk_node =
  sdk_kind :: node_kind
  sdk_name :: string
  sdk_fn :: callable
  sdk_tags :: "string list"
  sdk_upstreams :: "string list"
  sdk_key_params :: "string list"
  sdk_settings :: "intervals option"
  sdk_kwargs :: "(string, pyval) dict"
  sdk_id :: string
  sdk_cache :: "(string, (string, pyval) dict list) dict"

text \<open>\<open>NodeStreamSettings.to_dict\<close>: the public attributes of a settings object, a dict as it is.\<close>

fun setting_to_dict :: "setting \<Rightarrow> pyval" where
  "setting_to_dict (SettingObj s) =
     PDict [(''interval'', obj_interval s), (''period'', obj_period s), (''max_history'', obj_max_history s)]"
| "setting_to_dict (SettingDict d) = PDict d"

definition intervals_to_dict :: "intervals \<Rightarrow> pyval" where
  "intervals_to_dict ivs = PDict (map (\<lambda>(k, v). (k, setting_to_dict v)) ivs)"

section \<open>Node ids\<close>

text \<open>\<open>json.dumps(v, sort_keys=True)\<close> is the text of the value with the keys of every dict sorted.\<close>

fun sort_keys :: "pyval \<Rightarrow> pyval" where
  "sort_keys (PList vs) = PList (map sort_keys vs)"
| "sort_keys (PDict d) = PDict (sort_key fst (map (\<lambda>(k, v). (k, sort_keys v)) d))"
| "sort_keys v = v"

definition key_params_dict :: "string list \<Rightarrow> (string, pyval) dict \<Rightarrow> (string, pyval) dict" where
  "key_params_dict ps kwargs =
     fold (\<lambda>p d. case map_of kwargs p of None \<Rightarrow> d | Some v \<Rightarrow> AList.update p v d) ps []"

definition signature_dict :: "sdk_node \<Rightarrow> pyval" where
  "signature_dict n =
     PDict [(''qualname'', PStr (fn_qualname (sdk_fn n))), (''ast'', PStr (fn_ast (sdk_fn n))),
            (''upstreams'', PList (map PStr (sdk_upstreams n))),
            (''stream_settings'', case sdk_settings n of None \<Rightarrow> PDict [] | Some ivs \<Rightarrow> intervals_to_dict ivs),
            (''key_params'', PDict (key_params_dict (sdk_key_params n) (sdk_kwargs n)))]"

definition generate_node_id :: "(json_text \<Rightarrow> string) \<Rightarrow> sdk_node \<Rightarrow> string res" where
  "generate_node_id md5 n =
     (case json_dumps (sort_keys (signature_dict n)) of
        None \<Rightarrow> raises TypeError ''Object is not JSON serializable''
      | Some t \<Rightarrow> Inr (md5 t))"

section \<open>Constructors\<close>

definition processing_node ::
  "(json_text \<Rightarrow> string) \<Rightarrow> string \<Rightarrow> callable \<Rightarrow> string list \<Rightarrow> string list \<Rightarrow> string list
     \<Rightarrow> intervals option \<Rightarrow> (string, pyval) dict \<Rightarrow> sdk_node res" where
  "processing_node md5 name fn tag_list upstreams key_params settings kwargs =
     (if upstreams = [] then raises ValueError ''ProcessingNode needs at least one upstream''
      else
        let n = \<lparr>sdk_kind = Processing, sdk_name = name, sdk_fn = fn, sdk_tags = tag_list,
                 sdk_upstreams = upstreams, sdk_key_params = key_params, sdk_settings = settings,
                 sdk_kwargs = kwargs, sdk_id = '''', sdk_cache = []\<rparr>
        in bind_res (generate_node_id md5 n) (\<lambda>i. Inr (n\<lparr>sdk_id := i\<rparr>)))"

definition source_node :: "string \<Rightarrow> callable \<Rightarrow> intervals option \<Rightarrow> string list \<Rightarrow> sdk_node" where
  "source_node name fetch settings tag_list =
     \<lparr>sdk_kind = Source, sdk_name = name, sdk_fn = fetch, sdk_tags = tag_list, sdk_upstreams = [],
      sdk_key_params = [], sdk_settings = settings, sdk_kwargs = [], sdk_id = name, sdk_cache = []\<rparr>"

section \<open>Execution\<close>

fun validate_upstreams :: "string \<Rightarrow> string list \<Rightarrow> (string, pyval) dict \<Rightarrow> unit res" where
  "validate_upstreams name [] inputs = Inr ()"
| "validate_upstreams name (u # us) inputs =
     (if has_key inputs u then validate_upstreams name us inputs
      else raises ValueError (''upstream '' @ u @ '' of node '' @ name @ '' is not among the inputs''))"

definition named_args :: "string list \<Rightarrow> (string, pyval) dict \<Rightarrow> (string, pyval) dict" where
  "named_args ps d = fold (\<lambda>p a. case map_of d p of None \<Rightarrow> a | Some v \<Rightarrow> AList.update p v a) ps []"

definition args_no_upstream :: "string \<Rightarrow> (string, pyval) dict \<Rightarrow> string list \<Rightarrow> (string, pyval) dict" where
  "args_no_upstream name inputs ps =
     (if has_key inputs ''value'' \<and> ''value'' \<in> set ps then [(''value'', the (map_of inputs ''value''))]
      else if ''value'' \<in> set ps \<and> length inputs = 1 then [(''value'', snd (hd inputs))]
      else if has_key inputs ''upstream'' \<and> ''value'' \<in> set ps then [(''value'', the (map_of inputs ''upstream''))]
      else if has_key inputs name \<and> length ps = 1 then [(hd ps, the (map_of inputs name))]
      else
        (case inputs of
           [] \<Rightarrow> []
         | (k, v) # _ \<Rightarrow>
             if k = [] then []
             else
               (case v of
                  PDict d \<Rightarrow>
                    (let a = named_args ps d in if a = [] \<and> length ps = 1 then [(hd ps, v)] else a)
                | _ \<Rightarrow> if length ps = 1 then [(hd ps, v)] else [])))"

definition args_single_upstream :: "string \<Rightarrow> pyval \<Rightarrow> string list \<Rightarrow> (string, pyval) dict" where
  "args_single_upstream u v ps = (if length ps = 1 then [(hd ps, v)] else [(u, v)])"

definition args_multi_upstream ::
  "string list \<Rightarrow> (string \<Rightarrow> pyval) \<Rightarrow> string list \<Rightarrow> bool \<Rightarrow> (string, pyval) dict" where
  "args_multi_upstream us value ps var_kw =
     (if var_kw then fold (\<lambda>u. AList.update u (value u)) us []
      else fold (\<lambda>(p, u). AList.update p (value u)) (zip ps us) [])"

definition build_fn_args :: "sdk_node \<Rightarrow> (string, pyval) dict \<Rightarrow> (string, pyval) dict" where
  "build_fn_args n inputs =
     (let ps = param_names (sdk_fn n); us = sdk_upstreams n; value = (\<lambda>u. the (map_of inputs u)) in
      if us = [] \<and> inputs \<noteq> [] then args_no_upstream (sdk_name n) inputs ps
      else if length us = 1 then args_single_upstream (hd us) (value (hd us)) ps
      else args_multi_upstream us value ps (has_kwargs (sdk_fn n)))"

definition add_kwargs :: "(string, pyval) dict \<Rightarrow> (string, pyval) dict \<Rightarrow> (string, pyval) dict" where
  "add_kwargs kwargs args = fold (\<lambda>(k, v) a. if has_key a k then a else AList.update k v a) kwargs args"

text \<open>
  \<open>_build_fn_args\<close> reads the inputs after \<open>_validate_upstreams\<close> has found them, so \<open>the\<close> is only
  applied to keys that are there.
\<close>

definition execute_processing :: "sdk_node \<Rightarrow> (string, pyval) dict \<Rightarrow> pyval res" where
  "execute_processing n inputs =
     bind_res (validate_upstreams (sdk_name n) (sdk_upstreams n) inputs) (\<lambda>_.
       case call (sdk_fn n) (add_kwargs (sdk_kwargs n) (build_fn_args n inputs)) of
         Inl e \<Rightarrow>
           if caught e then raises RuntimeError (''error while running node '' @ sdk_name n @ '': '' @ ex_msg e)
           else Inl e
       | Inr v \<Rightarrow> Inr v)"

definition execute_source :: "sdk_node \<Rightarrow> pyval res" where
  "execute_source n = call (sdk_fn n) []"

definition execute_node :: "sdk_node \<Rightarrow> (string, pyval) dict \<Rightarrow> pyval res" where
  "execute_node n inputs =
     (case sdk_kind n of Processing \<Rightarrow> execute_processing n inputs | Source \<Rightarrow> execute_source n)"

section \<open>History of a node\<close>

text \<open>
  Python equality of values that can be in a set (numbers of different types compare by value), and
  the removal of repeated values. A list or a dict cannot be put into a set.
\<close>

fun py_number :: "pyval \<Rightarrow> real option" where
  "py_number (PBool b) = Some (if b then 1 else 0)"
| "py_number (PInt i) = Some (real_of_int i)"
| "py_number (PFloat x) = Some x"
| "py_number _ = None"

definition py_same :: "pyval \<Rightarrow> pyval \<Rightarrow> bool" where
  "py_same v w =
     (case (py_number v, py_number w) of (Some x, Some y) \<Rightarrow> x = y | _ \<Rightarrow> v = w)"

fun hashable :: "pyval \<Rightarrow> bool" where
  "hashable (PList _) = False"
| "hashable (PDict _) = False"
| "hashable _ = True"

definition item_value :: "(string, pyval) dict \<Rightarrow> pyval" where
  "item_value item = (case map_of item ''value'' of None \<Rightarrow> PNone | Some v \<Rightarrow> v)"

fun unique_items :: "(string, pyval) dict list \<Rightarrow> pyval list \<Rightarrow> (string, pyval) dict list res" where
  "unique_items [] seen = Inr []"
| "unique_items (item # items) seen =
     (let v = item_value item in
      if \<not> hashable v then raises TypeError ''unhashable type''
      else if list_ex (py_same v) seen then unique_items items seen
      else bind_res (unique_items items (v # seen)) (\<lambda>us. Inr (item # us)))"

text \<open>\<open>xs[-count:][::-1]\<close>\<close>

definition last_reversed :: "int \<Rightarrow> 'a list \<Rightarrow> 'a list" where
  "last_reversed cnt xs =
     rev (if 0 < cnt then drop (length xs - nat cnt) xs else drop (nat (- cnt)) xs)"

definition node_get_history :: "sdk_node \<Rightarrow> string \<Rightarrow> int \<Rightarrow> pyval list res" where
  "node_get_history n iv cnt =
     (case map_of (sdk_cache n) iv of
        None \<Rightarrow> Inr []
      | Some items \<Rightarrow>
          bind_res (unique_items items []) (\<lambda>us.
            if list_all (\<lambda>item. has_key item ''value'') us then Inr (last_reversed cnt (map item_value us))
            else raises KeyError ''value''))"

section \<open>Properties\<close>

lemma map_of_key_params_dict:
  "map_of (key_params_dict ps kwargs) k = (if k \<in> set ps then map_of kwargs k else None)"
proof -
  have "map_of (fold (\<lambda>p d. case map_of kwargs p of None \<Rightarrow> d | Some v \<Rightarrow> AList.update p v d) ps d0) k =
      (if k \<in> set ps \<and> map_of kwargs k \<noteq> None then map_of kwargs k else map_of d0 k)" for d0
    by (induction ps arbitrary: d0) (auto split: option.split)
  then show ?thesis by (simp add: key_params_dict_def)
qed

lemma dict_ok_key_params_dict: "dict_ok (key_params_dict ps kwargs)"
proof -
  have "dict_ok d0 \<Longrightarrow>
      dict_ok (fold (\<lambda>p d. case map_of kwargs p of None \<Rightarrow> d | Some v \<Rightarrow> AList.update p v d) ps d0)" for d0
    by (induction ps arbitrary: d0) (auto split: option.split)
  then show ?thesis by (simp add: key_params_dict_def)
qed

text \<open>Sorting the keys makes dicts with the same entries equal.\<close>

lemma sort_dict_unique:
  fixes d e :: "(string, 'v) dict"
  assumes "dict_ok d" "dict_ok e" "map_of d = map_of e"
  shows "sort_key fst d = sort_key fst e"
proof (rule map_sorted_distinct_set_unique [where f = fst])
  have "set d = set e"
    using assms by (metis dict_ok_def graph_map_of_if_distinct_dom)
  then show "set (sort_key fst d) = set (sort_key fst e)" by simp
  show "inj_on fst (set (sort_key fst d) \<union> set (sort_key fst e))"
    using assms \<open>set d = set e\<close> by (simp add: dict_ok_def distinct_map)
  have "distinct (map fst (sort_key fst x))" if "dict_ok x" for x :: "(string, 'v) dict"
    using that by (simp add: dict_ok_def distinct_map)
  then show "distinct (map fst (sort_key fst d))" "distinct (map fst (sort_key fst e))"
    using assms by blast+
qed simp_all

lemma sort_keys_dict_unique:
  assumes "dict_ok d" "dict_ok e" "map_of d = map_of e"
  shows "sort_keys (PDict d) = sort_keys (PDict e)"
proof -
  have m: "map_of (map (\<lambda>(k, v). (k, sort_keys v)) x) = map_option sort_keys \<circ> map_of x" for x
    by (simp add: map_of_map)
  have ok: "dict_ok x \<Longrightarrow> dict_ok (map (\<lambda>(k, v). (k, sort_keys v)) x)" for x
    by (simp add: dict_ok_def comp_def split_beta)
  show ?thesis
    using sort_dict_unique [OF ok [OF assms(1)] ok [OF assms(2)]] m [of d] m [of e] assms(3) by simp
qed

lemma json_ok_dict_values:
  "dict_ok d \<Longrightarrow> json_ok (PDict d) \<longleftrightarrow> (\<forall>k v. map_of d k = Some v \<longrightarrow> json_ok v)"
  by (auto simp: list_all_iff map_of_in_set)

text \<open>
  The id of a node depends only on the function, the upstreams, the stream settings and the
  values of the key parameters: the name, the tags, the order in which the key parameters are
  listed and the keyword arguments that are not key parameters leave it unchanged.
\<close>
theorem node_id_ignores:
  assumes "set ps = set ps'" and "\<forall>p \<in> set ps. map_of kwargs p = map_of kwargs' p"
  shows "generate_node_id md5 (n\<lparr>sdk_name := name1, sdk_tags := tags1, sdk_key_params := ps, sdk_kwargs := kwargs\<rparr>) =
    generate_node_id md5 (n\<lparr>sdk_name := name2, sdk_tags := tags2, sdk_key_params := ps', sdk_kwargs := kwargs'\<rparr>)"
proof -
  let ?d = "key_params_dict ps kwargs" and ?e = "key_params_dict ps' kwargs'"
  have "map_of ?d = map_of ?e"
    using assms by (auto simp: map_of_key_params_dict fun_eq_iff)
  then have "sort_keys (PDict ?d) = sort_keys (PDict ?e)"
    by (intro sort_keys_dict_unique dict_ok_key_params_dict)
  then show ?thesis
    by (simp add: generate_node_id_def signature_dict_def del: sort_keys.simps(2) add: sort_keys.simps(2) [of "_ # _"])
qed

definition demo_fn :: callable where
  "demo_fn = \<lparr>call = (\<lambda>args. case map_of args ''x'' of Some v \<Rightarrow> Inr v | None \<Rightarrow> raises TypeError ''missing argument''),
     param_names = [''x'', ''y''], has_kwargs = False, fn_qualname = ''f'', fn_ast = ''Module()''\<rparr>"

definition demo_node :: sdk_node where
  "demo_node = \<lparr>sdk_kind = Processing, sdk_name = ''sum'', sdk_fn = demo_fn, sdk_tags = [], sdk_upstreams = [''a'', ''b''],
     sdk_key_params = [], sdk_settings = None, sdk_kwargs = [], sdk_id = '''', sdk_cache = []\<rparr>"

definition demo_md5 :: "json_text \<Rightarrow> string" where
  "demo_md5 t = show_nat (size t)"

theorem node_id_ignores_witness:
  "generate_node_id demo_md5 (demo_node\<lparr>sdk_name := ''n'', sdk_tags := [], sdk_key_params := [''w'', ''k''],
      sdk_kwargs := [(''k'', PInt 1), (''w'', PInt 2)]\<rparr>) =
   generate_node_id demo_md5 (demo_node\<lparr>sdk_name := ''m'', sdk_tags := [''t''], sdk_key_params := [''k'', ''w''],
      sdk_kwargs := [(''w'', PInt 2), (''debug'', PBool True), (''k'', PInt 1)]\<rparr>)"
  by (rule node_id_ignores) auto

lemma map_of_add_kwargs:
  assumes "dict_ok kwargs"
  shows "map_of (add_kwargs kwargs args) p = (case map_of args p of Some v \<Rightarrow> Some v | None \<Rightarrow> map_of kwargs p)"
proof -
  have "dict_ok kw \<Longrightarrow> map_of (fold (\<lambda>(k, v) a. if has_key a k then a else AList.update k v a) kw args) p =
    (case map_of args p of Some v \<Rightarrow> Some v | None \<Rightarrow> map_of kw p)" for kw
  proof (induction kw arbitrary: args)
    case Nil
    then show ?case by (simp split: option.split)
  next
    case (Cons e kw)
    obtain k v where e: "e = (k, v)" by fastforce
    have "k \<notin> fst ` set kw" "dict_ok kw" using Cons.prems e by (auto simp: dict_ok_def)
    then have "map_of kw k = None" by (simp add: map_of_eq_None_iff)
    then show ?case using Cons.IH [OF \<open>dict_ok kw\<close>] e
      by (auto simp: has_key_def split: option.splits)
  qed
  with assms show ?thesis by (simp add: add_kwargs_def)
qed

lemma map_of_positional_args:
  assumes "distinct ps"
  shows "map_of (fold (\<lambda>(p, u). AList.update p (f u)) (zip ps us) d) p =
    (case map_of (zip ps us) p of Some u \<Rightarrow> Some (f u) | None \<Rightarrow> map_of d p)"
  using assms
proof (induction ps us arbitrary: d rule: list_induct2')
  case (4 q ps u us)
  have "map_of (zip ps us) q = None"
    using 4 by (auto simp: map_of_eq_None_iff dest: in_set_zipE)
  with 4 show ?case by (auto split: option.split)
qed auto

lemma validate_upstreams_ok: "validate_upstreams name us inputs = Inr () \<longleftrightarrow> (\<forall>u \<in> set us. has_key inputs u)"
  by (induction us) auto

lemma map_of_kwargs_args:
  "map_of (fold (\<lambda>u. AList.update u (f u)) us d) p = (if p \<in> set us then Some (f p) else map_of d p)"
  by (induction us arbitrary: d) auto

text \<open>
  C28: the function of a node with several upstreams is called once all of them are among the
  inputs. If it takes \<open>**kwargs\<close> each upstream's value is passed under the upstream's name; if not, the i-th upstream's
  value is its i-th parameter, and values of upstreams beyond its parameters are dropped
  without a word. The node's own keyword arguments are passed where no upstream is. Its result is the node's, and an
  exception of it becomes a \<open>RuntimeError\<close>. A missing input is a \<open>ValueError\<close>.
\<close>
theorem execute_processing_spec:
  assumes "2 \<le> length (sdk_upstreams n)" "distinct (param_names (sdk_fn n))" "dict_ok (sdk_kwargs n)"
  shows "if \<forall>u \<in> set (sdk_upstreams n). has_key inputs u
    then \<exists>args.
      (\<forall>p. map_of args p =
         (case map_of (zip (if has_kwargs (sdk_fn n) then sdk_upstreams n else param_names (sdk_fn n)) (sdk_upstreams n)) p of
             Some u \<Rightarrow> map_of inputs u | None \<Rightarrow> map_of (sdk_kwargs n) p)) \<and>
      (\<forall>v. execute_processing n inputs = Inr v \<longleftrightarrow> call (sdk_fn n) args = Inr v) \<and>
      (\<forall>e. call (sdk_fn n) args = Inl e \<longrightarrow> caught e \<longrightarrow>
         (\<exists>msg. execute_processing n inputs = raises RuntimeError msg))
    else \<exists>msg. execute_processing n inputs = raises ValueError msg"
proof (cases "\<forall>u \<in> set (sdk_upstreams n). has_key inputs u")
  case False
  have "\<exists>msg. validate_upstreams name us inputs = raises ValueError msg"
    if "\<not> (\<forall>u \<in> set us. has_key inputs u)" for name us
    using that by (induction us) auto
  from this [OF False] obtain msg where
    "validate_upstreams (sdk_name n) (sdk_upstreams n) inputs = raises ValueError msg" by blast
  then have "execute_processing n inputs = raises ValueError msg" by (simp add: execute_processing_def)
  with False show ?thesis by auto
next
  case True
  let ?args = "add_kwargs (sdk_kwargs n) (build_fn_args n inputs)"
  define pairs where "pairs = zip (if has_kwargs (sdk_fn n) then sdk_upstreams n else param_names (sdk_fn n)) (sdk_upstreams n)"
  have "map_of (build_fn_args n inputs) p = map_option (\<lambda>u. the (map_of inputs u)) (map_of pairs p)" for p
  proof (cases "has_kwargs (sdk_fn n)")
    case True
    then have "build_fn_args n inputs = fold (\<lambda>u. AList.update u (the (map_of inputs u))) (sdk_upstreams n) []"
      using assms(1) by (auto simp: build_fn_args_def Let_def args_multi_upstream_def)
    moreover have "map_of (zip us us) p = (if p \<in> set us then Some p else None)" for us :: "string list"
      by (induction us) auto
    ultimately show ?thesis using True by (simp add: pairs_def map_of_kwargs_args)
  next
    case False
    then have "build_fn_args n inputs = fold (\<lambda>(p, u). AList.update p (the (map_of inputs u))) pairs []"
      using assms(1) by (auto simp: pairs_def build_fn_args_def Let_def args_multi_upstream_def)
    then show ?thesis
      using False map_of_positional_args [OF assms(2), of "\<lambda>u. the (map_of inputs u)" "sdk_upstreams n" "[]" p]
      by (simp add: pairs_def split: option.split)
  qed
  moreover have "Some (the (map_of inputs u)) = map_of inputs u" if "map_of pairs p = Some u" for p u
    using that True by (fastforce simp: pairs_def has_key_def dest: map_of_SomeD in_set_zipE)
  ultimately have args: "map_of ?args p = (case map_of pairs p of
      Some u \<Rightarrow> map_of inputs u | None \<Rightarrow> map_of (sdk_kwargs n) p)" for p
    by (auto simp: map_of_add_kwargs [OF assms(3)] split: option.split)
  have "validate_upstreams (sdk_name n) (sdk_upstreams n) inputs = Inr ()"
    using True by (simp add: validate_upstreams_ok)
  then have "execute_processing n inputs = (case call (sdk_fn n) ?args of
      Inl e \<Rightarrow> if caught e then raises RuntimeError (''error while running node '' @ sdk_name n @ '': '' @ ex_msg e) else Inl e
    | Inr v \<Rightarrow> Inr v)"
    by (simp add: execute_processing_def)
  then show ?thesis
    unfolding pairs_def [symmetric] using True args
    by (auto intro!: exI [of _ ?args] split: sum.splits if_splits)
qed

lemma demo_node_simps:
  "sdk_fn demo_node = demo_fn" "sdk_upstreams demo_node = [''a'', ''b'']" "sdk_kwargs demo_node = []"
  "param_names demo_fn = [''x'', ''y'']" "\<not> has_kwargs demo_fn"
  by (simp_all add: demo_node_def demo_fn_def)

definition demo_inputs :: "(string, pyval) dict" where
  "demo_inputs = [(''a'', PInt 1), (''b'', PInt 2)]"

theorem execute_processing_spec_witness:
  "\<exists>args. (\<forall>p. map_of args p =
      (case map_of (zip (param_names (sdk_fn demo_node)) (sdk_upstreams demo_node)) p of
         Some u \<Rightarrow> map_of demo_inputs u | None \<Rightarrow> map_of (sdk_kwargs demo_node) p)) \<and>
    (\<forall>v. execute_processing demo_node demo_inputs = Inr v \<longleftrightarrow> call (sdk_fn demo_node) args = Inr v)"
proof -
  have "\<forall>u \<in> set (sdk_upstreams demo_node). has_key demo_inputs u"
    by (simp add: demo_node_simps demo_inputs_def)
  moreover have "2 \<le> length (sdk_upstreams demo_node)" "\<not> has_kwargs (sdk_fn demo_node)" "distinct (param_names (sdk_fn demo_node))" "dict_ok (sdk_kwargs demo_node)"
    by (simp_all add: demo_node_simps)
  ultimately show ?thesis
    using execute_processing_spec [of demo_node demo_inputs] by auto
qed

end
