(* ===== verification/LocalEngine.thy ===== *)
theory LocalEngine
  imports SdkNode Graphs
begin

text \<open>
  The local execution engine (\<open>sdk/execution/local.py\<close>, \<open>sdk/execution/base.py\<close>): it runs the
  nodes of a pipeline in a given order and keeps a history of the results per node and interval.

  The state of the engine holds the two class variables \<open>history\<close> and \<open>_in_memory_cache\<close> with the
  results and execution times of the last run. \<open>clock\<close> gives the values \<open>time.time()\<close> returns
  one after the other, and \<open>ticks\<close> counts the calls. Debug output is not modelled, and interval keys
  are plain strings.
\<close>

section \<open>State\<close>

record item =
  it_time :: real
  it_value :: pyval
  it_expires :: "real option"

record engine =
  results :: "(string, pyval) dict"
  exec_times :: "(string, real) dict"
  history :: "(string, (string, item list) dict) dict"
  mem_cache :: "(string, item list) dict"
  ticks :: nat

type_synonym clock = "nat \<Rightarrow> real"

definition new_engine :: engine where
  "new_engine = \<lparr>results = [], exec_times = [], history = [], mem_cache = [], ticks = 0\<rparr>"

definition read_clock :: "clock \<Rightarrow> engine \<Rightarrow> real \<times> engine" where
  "read_clock clock s = (clock (ticks s), s\<lparr>ticks := Suc (ticks s)\<rparr>)"

definition cache_key :: "string \<Rightarrow> string \<Rightarrow> string" where
  "cache_key nid iv = nid @ '':'' @ iv"

definition history_of :: "engine \<Rightarrow> string \<Rightarrow> string \<Rightarrow> item list option" where
  "history_of s nid iv = (case map_of (history s) nid of None \<Rightarrow> None | Some h \<Rightarrow> map_of h iv)"

section \<open>Saving and reading interval data\<close>

text \<open>\<open>now + ttl if ttl and ttl > 0 else (now if ttl == 0 else None)\<close>\<close>

definition expires_at :: "real \<Rightarrow> pyval \<Rightarrow> real option res" where
  "expires_at now ttl =
     (case py_number ttl of
        Some x \<Rightarrow> Inr (if 0 < x then Some (now + x) else if x = 0 then Some now else None)
      | None \<Rightarrow> if py_truthy ttl then raises TypeError ''> not supported'' else Inr None)"

definition take_py :: "int \<Rightarrow> 'a list \<Rightarrow> 'a list" where
  "take_py i xs = (if 0 \<le> i then take (nat i) xs else take (length xs - nat (- i)) xs)"

text \<open>\<open>xs[:m]\<close>\<close>

fun slice :: "pyval \<Rightarrow> 'a list \<Rightarrow> 'a list res" where
  "slice PNone xs = Inr xs"
| "slice (PInt i) xs = Inr (take_py i xs)"
| "slice (PBool b) xs = Inr (take_py (if b then 1 else 0) xs)"
| "slice _ xs = raises TypeError ''slice indices must be integers or None''"

text \<open>\<open>if len(xs) > max_items: xs = xs[:max_items]\<close>\<close>

definition trim :: "pyval \<Rightarrow> 'a list \<Rightarrow> 'a list res" where
  "trim m xs =
     (case py_number m of
        None \<Rightarrow> raises TypeError ''> not supported''
      | Some x \<Rightarrow> if x < real (length xs) then slice m xs else Inr xs)"

definition set_history :: "string \<Rightarrow> string \<Rightarrow> item list \<Rightarrow> engine \<Rightarrow> engine" where
  "set_history nid iv xs s =
     s\<lparr>history := AList.update nid
         (AList.update iv xs (case map_of (history s) nid of None \<Rightarrow> [] | Some h \<Rightarrow> h)) (history s)\<rparr>"

definition set_cache :: "string \<Rightarrow> item list \<Rightarrow> engine \<Rightarrow> engine" where
  "set_cache k xs s = s\<lparr>mem_cache := AList.update k xs (mem_cache s)\<rparr>"

definition cache_push :: "string \<Rightarrow> string \<Rightarrow> item \<Rightarrow> pyval \<Rightarrow> engine \<Rightarrow> (engine, exn, unit) outcome" where
  "cache_push nid iv it m s =
     (let k = cache_key nid iv; xs = it # (case map_of (mem_cache s) k of None \<Rightarrow> [] | Some ys \<Rightarrow> ys) in
      case trim m xs of
        Inl e \<Rightarrow> (set_cache k xs s, Inl e)
      | Inr ys \<Rightarrow> (set_cache k ys s, Inr ()))"

definition history_push :: "string \<Rightarrow> string \<Rightarrow> item \<Rightarrow> pyval \<Rightarrow> engine \<Rightarrow> (engine, exn, unit) outcome" where
  "history_push nid iv it m s =
     (let xs = it # (case history_of s nid iv of None \<Rightarrow> [] | Some ys \<Rightarrow> ys) in
      case trim m xs of
        Inl e \<Rightarrow> (set_history nid iv xs s, Inl e)
      | Inr ys \<Rightarrow> (set_history nid iv ys s, Inr ()))"

definition save_interval_data ::
  "clock \<Rightarrow> string \<Rightarrow> string \<Rightarrow> pyval \<Rightarrow> pyval \<Rightarrow> pyval \<Rightarrow> engine \<Rightarrow> (engine, exn, unit) outcome" where
  "save_interval_data clock nid iv v m ttl s =
     (case read_clock clock s of (now, s1) \<Rightarrow>
        case expires_at now ttl of
          Inl e \<Rightarrow> (s1, Inl e)
        | Inr ex \<Rightarrow>
            (let it = \<lparr>it_time = now, it_value = v, it_expires = ex\<rparr> in
             and_then (cache_push nid iv it m s1) (\<lambda>_. history_push nid iv it m)))"

text \<open>\<open>not item.get("expires_at") or item["expires_at"] > current_time\<close>\<close>

definition unexpired :: "real \<Rightarrow> item \<Rightarrow> bool" where
  "unexpired now it = (case it_expires it of None \<Rightarrow> True | Some t \<Rightarrow> t = 0 \<or> now < t)"

definition stored_items :: "engine \<Rightarrow> string \<Rightarrow> string \<Rightarrow> item list" where
  "stored_items s nid iv =
     (case history_of s nid iv of
        Some xs \<Rightarrow> xs
      | None \<Rightarrow> (case map_of (mem_cache s) (cache_key nid iv) of Some xs \<Rightarrow> xs | None \<Rightarrow> []))"

definition get_interval_data :: "clock \<Rightarrow> string \<Rightarrow> string \<Rightarrow> int \<Rightarrow> engine \<Rightarrow> item list \<times> engine" where
  "get_interval_data clock nid iv limit s =
     (case read_clock clock s of (now, s1) \<Rightarrow>
        (take_py limit (filter (unexpired now) (stored_items s nid iv)), s1))"

section \<open>Cleaning up\<close>

definition prune :: "real \<Rightarrow> ('k, item list) dict \<Rightarrow> ('k, item list) dict" where
  "prune now d = filter (\<lambda>(_, xs). xs \<noteq> []) (map (\<lambda>(k, xs). (k, filter (unexpired now) xs)) d)"

definition cleanup_expired_data :: "clock \<Rightarrow> engine \<Rightarrow> engine" where
  "cleanup_expired_data clock s =
     (case read_clock clock s of (now, s1) \<Rightarrow>
        s1\<lparr>mem_cache := prune now (mem_cache s),
           history := filter (\<lambda>(_, h). h \<noteq> []) (map (\<lambda>(k, h). (k, prune now h)) (history s))\<rparr>)"

definition clear_cache :: "string option \<Rightarrow> string option \<Rightarrow> engine \<Rightarrow> engine" where
  "clear_cache node interval s =
     (case (node, interval) of
        (None, None) \<Rightarrow> s\<lparr>mem_cache := [], history := []\<rparr>
      | (None, Some iv) \<Rightarrow>
          s\<lparr>mem_cache := filter (\<lambda>(k, _). \<not> ends_with k ('':'' @ iv)) (mem_cache s),
            history := map (\<lambda>(n, h). (n, AList.delete iv h)) (history s)\<rparr>
      | (Some n, None) \<Rightarrow>
          s\<lparr>mem_cache := filter (\<lambda>(k, _). \<not> starts_with k (n @ '':'')) (mem_cache s),
            history := AList.delete n (history s)\<rparr>
      | (Some n, Some iv) \<Rightarrow>
          s\<lparr>mem_cache := AList.delete (cache_key n iv) (mem_cache s),
            history :=
              (case map_of (history s) n of
                 None \<Rightarrow> history s
               | Some h \<Rightarrow> AList.update n (AList.delete iv h) (history s))\<rparr>)"

text \<open>\<open>cache_key.split(":", 1)[1]\<close> of a key with a colon.\<close>

definition after_colon :: "string \<Rightarrow> string" where
  "after_colon k = tl (dropWhile (\<lambda>c. c \<noteq> CHR '':'') k)"

record node_metadata =
  meta_node :: string
  meta_intervals :: "(string, nat \<times> real \<times> real) dict"
  meta_last_time :: "real option"

definition interval_info :: "item list \<Rightarrow> nat \<times> real \<times> real" where
  "interval_info xs = (length xs, it_time (hd xs), it_time (last xs))"

definition get_node_metadata :: "string \<Rightarrow> engine \<Rightarrow> node_metadata" where
  "get_node_metadata nid s =
     (let own = fold (\<lambda>(iv, xs) d. if xs = [] then d else AList.update iv (interval_info xs) d)
                  (case map_of (history s) nid of None \<Rightarrow> [] | Some h \<Rightarrow> h) [];
          ivs = fold (\<lambda>(k, xs) d.
                  if starts_with k (nid @ '':'') \<and> \<not> has_key d (after_colon k) \<and> xs \<noteq> []
                  then AList.update (after_colon k) (interval_info xs) d else d) (mem_cache s) own
      in \<lparr>meta_node = nid, meta_intervals = ivs, meta_last_time = map_of (exec_times s) nid\<rparr>)"

record execution_stats =
  stat_times :: "(string, real) dict"
  stat_nodes :: nat
  stat_total :: real

definition get_execution_stats :: "engine \<Rightarrow> execution_stats" where
  "get_execution_stats s =
     \<lparr>stat_times = exec_times s, stat_nodes = length (exec_times s),
      stat_total = sum_list (map snd (exec_times s))\<rparr>"

section \<open>Running a pipeline\<close>

text \<open>\<open>if timeout\<close>: a timeout of zero is no timeout.\<close>

definition active :: "real option \<Rightarrow> bool" where
  "active timeout = (case timeout of None \<Rightarrow> False | Some t \<Rightarrow> t \<noteq> 0)"

definition check_timeout :: "clock \<Rightarrow> real option \<Rightarrow> real \<Rightarrow> engine \<Rightarrow> (engine, exn, unit) outcome" where
  "check_timeout clock timeout start s =
     (if active timeout then
        (case read_clock clock s of (now, s1) \<Rightarrow>
           (s1, if the timeout < now - start then raises TimeoutError ''pipeline timeout exceeded'' else Inr ()))
      else (s, Inr ()))"

fun collect_inputs :: "string \<Rightarrow> (string, pyval) dict \<Rightarrow> string list \<Rightarrow> (string, pyval) dict \<Rightarrow> (string, pyval) dict res" where
  "collect_inputs name rs [] acc = Inr acc"
| "collect_inputs name rs (u # us) acc =
     (case map_of rs u of
        None \<Rightarrow> raises ValueError (''no result of upstream '' @ u @ '' of node '' @ name)
      | Some v \<Rightarrow> collect_inputs name rs us (AList.update u v acc))"

definition prepare_node_inputs :: "sdk_node \<Rightarrow> (string, pyval) dict \<Rightarrow> (string, pyval) dict res" where
  "prepare_node_inputs n rs =
     (if has_key rs (sdk_name n) \<and> sdk_upstreams n = [] then Inr [(sdk_name n, the (map_of rs (sdk_name n)))]
      else collect_inputs (sdk_name n) rs (sdk_upstreams n) [])"

definition set_result :: "string \<Rightarrow> pyval \<Rightarrow> engine \<Rightarrow> engine" where
  "set_result name v s = s\<lparr>results := AList.update name v (results s)\<rparr>"

text \<open>
  With a timeout the node's function is replaced by \<open>timeout_checked_fn(**kwargs)\<close> for the time of
  the call, so the node sees a signature with the one parameter \<open>kwargs\<close>.
\<close>

definition with_timeout :: "real \<Rightarrow> real \<Rightarrow> real \<Rightarrow> real \<Rightarrow> sdk_node \<Rightarrow> sdk_node" where
  "with_timeout timeout start exec_start now n =
     n\<lparr>sdk_fn :=
         \<lparr>call = (\<lambda>args.
            if 5 / 100 < now - exec_start \<and> timeout < now - start
            then raises TimeoutError ''pipeline timeout exceeded''
            else call (sdk_fn n) args),
          param_names = [''kwargs''], has_kwargs = True,
          fn_qualname = ''timeout_checked_fn'', fn_ast = ''timeout_checked_fn''\<rparr>\<rparr>"

definition call_node ::
  "clock \<Rightarrow> real option \<Rightarrow> real \<Rightarrow> string \<Rightarrow> sdk_node \<Rightarrow> (string, pyval) dict \<Rightarrow> engine
     \<Rightarrow> (engine, exn, pyval) outcome" where
  "call_node clock timeout start name n inputs s =
     (case read_clock clock s of (exec_start, s1) \<Rightarrow>
        case (if active timeout
              then (case read_clock clock s1 of (now, s2) \<Rightarrow>
                      (s2, execute_node (with_timeout (the timeout) start exec_start now n) inputs))
              else (s1, execute_node n inputs)) of
          (s', Inl e) \<Rightarrow>
            (s', if caught e then raises RuntimeError (''error while running node '' @ name @ '': '' @ ex_msg e)
                 else Inl e)
        | (s', Inr v) \<Rightarrow> (s', Inr v))"

definition run_node ::
  "clock \<Rightarrow> real option \<Rightarrow> real \<Rightarrow> string \<Rightarrow> sdk_node \<Rightarrow> engine \<Rightarrow> (engine, exn, pyval) outcome" where
  "run_node clock timeout start name n s =
     (case prepare_node_inputs n (results s) of
        Inl e \<Rightarrow> (s, Inl e)
      | Inr inputs \<Rightarrow>
          (case read_clock clock s of (node_start, s1) \<Rightarrow>
             and_then (call_node clock timeout start name n inputs s1) (\<lambda>v s2.
               case read_clock clock (set_result name v s2) of (now, s3) \<Rightarrow>
                 and_then
                   (check_timeout clock timeout start
                      (s3\<lparr>exec_times := AList.update name (now - node_start) (exec_times s3)\<rparr>))
                   (\<lambda>_ s4. (s4, Inr v)))))"

text \<open>The settings of an interval as the engine reads them: the maximal length of the history and its lifetime.\<close>

definition ttl_of_interval :: "string \<Rightarrow> pyval" where
  "ttl_of_interval iv =
     (case py_int (butlast iv) of
        None \<Rightarrow> PNone
      | Some n \<Rightarrow>
          if last iv = CHR ''d'' then PInt (n * 86400)
          else if last iv = CHR ''h'' then PInt (n * 3600)
          else if last iv = CHR ''m'' then PInt (n * 60) else PNone)"

fun saved_limits :: "string \<Rightarrow> setting \<Rightarrow> pyval \<times> pyval" where
  "saved_limits iv (SettingDict d) =
     ((case map_of d ''max_history'' of None \<Rightarrow> PInt 100 | Some m \<Rightarrow> m),
      (case map_of d ''ttl'' of None \<Rightarrow> ttl_of_interval iv | Some PNone \<Rightarrow> ttl_of_interval iv | Some t \<Rightarrow> t))"
| "saved_limits iv (SettingObj _) = (PInt 100, PNone)"

definition record_result :: "clock \<Rightarrow> string \<Rightarrow> sdk_node \<Rightarrow> pyval \<Rightarrow> engine \<Rightarrow> (engine, exn, unit) outcome" where
  "record_result clock name n v s =
     (case sdk_settings n of
        Some (e # es) \<Rightarrow>
          each (\<lambda>(iv, st) t. case saved_limits iv st of (m, ttl) \<Rightarrow> save_interval_data clock name iv v m ttl t)
            (e # es) s
      | _ \<Rightarrow> save_interval_data clock name ''1d'' v (PInt 100) PNone s)"

text \<open>
  The branch for a node that has a result, no upstream and given inputs is left out: the two
  \<open>continue\<close>s before it take every node without upstreams when inputs are given.
\<close>

definition step_node ::
  "clock \<Rightarrow> (string, sdk_node) dict \<Rightarrow> (string, pyval) dict option \<Rightarrow> real option \<Rightarrow> real
     \<Rightarrow> string \<Rightarrow> engine \<Rightarrow> (engine, exn, unit) outcome" where
  "step_node clock ns inputs timeout start name s =
     and_then (check_timeout clock timeout start s) (\<lambda>_ s1.
       case map_of ns name of
         None \<Rightarrow> (s1, raises KeyError name)
       | Some n \<Rightarrow>
           if inputs \<noteq> None \<and> sdk_upstreams n = [] then
             (case map_of (the inputs) name of
                Some v \<Rightarrow> (set_result name v s1, Inr ())
              | None \<Rightarrow> (s1, Inr ()))
           else if has_key (results s1) name \<and> sdk_upstreams n = [] then
             record_result clock name n (the (map_of (results s1) name)) s1
           else and_then (run_node clock timeout start name n s1) (\<lambda>v. record_result clock name n v))"

text \<open>The limits enforced on every history at the end of a run.\<close>

fun enforced_limit :: "setting \<Rightarrow> pyval" where
  "enforced_limit (SettingObj st) = obj_max_history st"
| "enforced_limit (SettingDict _) = PInt 100"

definition enforce_interval :: "string \<Rightarrow> string \<times> setting \<Rightarrow> engine \<Rightarrow> (engine, exn, unit) outcome" where
  "enforce_interval name e s =
     (case e of (iv, st) \<Rightarrow>
        and_then
          (case history_of s name iv of
             None \<Rightarrow> (s, Inr ())
           | Some xs \<Rightarrow>
               (case slice (enforced_limit st) xs of
                  Inl x \<Rightarrow> (s, Inl x) | Inr ys \<Rightarrow> (set_history name iv ys s, Inr ())))
          (\<lambda>_ s1.
             case map_of (mem_cache s1) (cache_key name iv) of
               None \<Rightarrow> (s1, Inr ())
             | Some xs \<Rightarrow>
                 (case slice (enforced_limit st) xs of
                    Inl x \<Rightarrow> (s1, Inl x) | Inr ys \<Rightarrow> (set_cache (cache_key name iv) ys s1, Inr ()))))"

definition enforce_limits :: "string \<times> sdk_node \<Rightarrow> engine \<Rightarrow> (engine, exn, unit) outcome" where
  "enforce_limits e s =
     (case e of (name, n) \<Rightarrow>
        (case sdk_settings n of None \<Rightarrow> (s, Inr ()) | Some ivs \<Rightarrow> each (enforce_interval name) ivs s))"

definition execute_pipeline ::
  "clock \<Rightarrow> (string, sdk_node) dict \<Rightarrow> string list \<Rightarrow> (string, pyval) dict option \<Rightarrow> real option
     \<Rightarrow> engine \<Rightarrow> (engine, exn, (string, pyval) dict) outcome" where
  "execute_pipeline clock ns order inputs timeout s =
     (case read_clock clock s of (start, s1) \<Rightarrow>
        and_then
          (each (step_node clock ns inputs timeout start) order
             (s1\<lparr>results := (case inputs of None \<Rightarrow> [] | Some d \<Rightarrow> d)\<rparr>))
          (\<lambda>_ s2. case read_clock clock s2 of (_, s3) \<Rightarrow>
             and_then (each enforce_limits ns s3) (\<lambda>_ s4. (s4, Inr (results s4)))))"

section \<open>What the operations leave alone\<close>

lemma set_history_keeps [simp]:
  "results (set_history nid iv xs s) = results s" "exec_times (set_history nid iv xs s) = exec_times s"
  "mem_cache (set_history nid iv xs s) = mem_cache s" "ticks (set_history nid iv xs s) = ticks s"
  by (simp_all add: set_history_def)

lemma set_cache_keeps [simp]:
  "results (set_cache k xs s) = results s" "exec_times (set_cache k xs s) = exec_times s"
  "history (set_cache k xs s) = history s" "ticks (set_cache k xs s) = ticks s"
  by (simp_all add: set_cache_def)

lemma history_of_simps [simp]:
  "history_of (set_cache k xs s) = history_of s"
  "history_of (set_history nid iv xs s) n i = (if n = nid \<and> i = iv then Some xs else history_of s n i)"
  by (auto simp: history_of_def set_cache_def set_history_def fun_eq_iff split: option.split)

lemma save_keeps_results: "save_interval_data clock nid iv v m ttl s = (s', r) \<Longrightarrow> results s' = results s"
  by (auto simp: save_interval_data_def read_clock_def cache_push_def history_push_def Let_def and_then_def
      split: sum.splits)

lemma record_keeps_results: "record_result clock name n v s = (s', r) \<Longrightarrow> results s' = results s"
  unfolding record_result_def
  by (auto split: option.splits list.splits prod.splits dest!: save_keeps_results
      elim!: each_preserves [where f = results, rotated] simp del: each.simps)

lemma check_keeps: "check_timeout clock timeout start s = (s', r) \<Longrightarrow> results s' = results s"
  by (auto simp: check_timeout_def read_clock_def split: if_splits)

lemma set_result_results [simp]: "results (set_result name v s) = AList.update name v (results s)"
  by (simp add: set_result_def)

lemma call_node_keeps: "call_node clock timeout start name n inputs s = (s', r) \<Longrightarrow> results s' = results s"
  by (auto simp: call_node_def read_clock_def split: if_splits sum.splits)

text \<open>A node that ran has its result in the table, computed from the results of its upstreams.\<close>

lemma run_node_ok:
  assumes "run_node clock timeout start name n s = (s', Inr v)"
  obtains inputs s1 s2 where "prepare_node_inputs n (results s) = Inr inputs" "results s1 = results s"
    "call_node clock timeout start name n inputs s1 = (s2, Inr v)"
    "results s' = AList.update name v (results s)"
proof -
  from assms obtain inputs where i: "prepare_node_inputs n (results s) = Inr inputs"
    by (auto simp: run_node_def split: sum.splits)
  let ?s1 = "snd (read_clock clock s)"
  from assms i obtain s2 where c: "call_node clock timeout start name n inputs ?s1 = (s2, Inr v)"
    and k: "check_timeout clock timeout start (set_result name v s2
       \<lparr>ticks := Suc (ticks s2), exec_times := AList.update name (clock (ticks s2) - clock (ticks s)) (exec_times s2)\<rparr>)
       = (s', Inr ())"
    by (auto simp: run_node_def read_clock_def and_then_Inr set_result_def)
  have "results s2 = results s" using call_node_keeps [OF c] by (simp add: read_clock_def)
  then have "results s' = AList.update name v (results s)" using check_keeps [OF k] by simp
  from that [OF i _ c this] show thesis by (simp add: read_clock_def)
qed

lemma call_node_no_timeout:
  "call_node clock None start name n inputs s = (s', Inr v) \<Longrightarrow> execute_node n inputs = Inr v"
  by (auto simp: call_node_def read_clock_def active_def split: sum.splits if_splits)

section \<open>The results of a run\<close>

definition upstreams_of :: "(string, sdk_node) dict \<Rightarrow> string \<Rightarrow> string list" where
  "upstreams_of ns name = (case map_of ns name of None \<Rightarrow> [] | Some n \<Rightarrow> sdk_upstreams n)"

definition names_ok :: "(string, sdk_node) dict \<Rightarrow> bool" where
  "names_ok ns \<longleftrightarrow> (\<forall>name n. map_of ns name = Some n \<longrightarrow> sdk_name n = name)"

lemma collect_inputs_cong:
  "\<forall>u \<in> set us. map_of r u = map_of r' u \<Longrightarrow> collect_inputs name r us acc = collect_inputs name r' us acc"
  by (induction us arbitrary: acc) (auto split: option.split)

text \<open>\<open>computed ns r name v\<close>: \<open>v\<close> is what the node gives on the results of its upstreams in \<open>r\<close>.\<close>

definition computed :: "(string, sdk_node) dict \<Rightarrow> (string, pyval) dict \<Rightarrow> string \<Rightarrow> pyval \<Rightarrow> bool" where
  "computed ns r name v \<longleftrightarrow>
     (\<exists>n inputs. map_of ns name = Some n \<and>
        collect_inputs name r (sdk_upstreams n) [] = Inr inputs \<and> execute_node n inputs = Inr v)"

lemma computed_cong:
  assumes "\<forall>u \<in> set (upstreams_of ns name). map_of r u = map_of r' u"
  shows "computed ns r name v = computed ns r' name v"
  unfolding computed_def
  by (intro ex_cong1 conj_cong refl arg_cong2 [where f = "(=)"] collect_inputs_cong)
     (use assms in \<open>auto simp: upstreams_of_def\<close>)

lemma computed_unique: "computed ns r name v \<Longrightarrow> computed ns r name w \<Longrightarrow> v = w"
  by (auto simp: computed_def)

text \<open>
  The result of a node in the table \<open>r\<close> of a run with the given inputs: of a node without upstreams its input, if there
  are inputs (it is not run, and has none if it is given none), of any other node what its function gives.
\<close>

definition specified ::
  "(string, sdk_node) dict \<Rightarrow> (string, pyval) dict option \<Rightarrow> (string, pyval) dict \<Rightarrow> string \<Rightarrow> bool" where
  "specified ns inputs r name \<longleftrightarrow>
     (if inputs \<noteq> None \<and> upstreams_of ns name = [] then map_of r name = map_of (the inputs) name
      else \<exists>v. map_of r name = Some v \<and> computed ns r name v)"

lemma specified_cong:
  assumes "\<forall>u \<in> set (upstreams_of ns name). map_of r u = map_of r' u" "map_of r name = map_of r' name"
  shows "specified ns inputs r name = specified ns inputs r' name"
  using computed_cong [OF assms(1)] assms(2) by (simp add: specified_def)

lemma specified_unique:
  assumes "specified ns inputs r name" "specified ns inputs r' name"
    and "\<forall>u \<in> set (upstreams_of ns name). map_of r u = map_of r' u"
  shows "map_of r name = map_of r' name"
  using assms(1,2) computed_cong [OF assms(3)] computed_unique unfolding specified_def
  by (metis option.sel)

definition start_results :: "(string, pyval) dict option \<Rightarrow> (string, pyval) dict" where
  "start_results inputs = (case inputs of None \<Rightarrow> [] | Some d \<Rightarrow> d)"

definition results_sound ::
  "(string, sdk_node) dict \<Rightarrow> (string, pyval) dict option \<Rightarrow> string list \<Rightarrow> engine \<Rightarrow> bool" where
  "results_sound ns inputs done s \<longleftrightarrow> topo_order (upstreams_of ns) done \<and>
     (\<forall>name. name \<notin> set done \<longrightarrow> map_of (results s) name = map_of (start_results inputs) name) \<and>
     (\<forall>name \<in> set done. specified ns inputs (results s) name)"

text \<open>A step changes at most the result of its own node, which is the specified one.\<close>

lemma step_node_result:
  assumes "step_node clock ns inputs None start name s = (s', Inr ())" "names_ok ns"
    and "map_of (results s) name = map_of (start_results inputs) name" "name \<notin> set (upstreams_of ns name)"
  shows "(\<forall>u. u \<noteq> name \<longrightarrow> map_of (results s') u = map_of (results s) u) \<and> specified ns inputs (results s') name"
proof -
  obtain n where n: "map_of ns name = Some n"
    using assms(1) by (auto simp: step_node_def and_then_Inr split: option.splits)
  then have ups: "upstreams_of ns name = sdk_upstreams n" by (simp add: upstreams_of_def)
  show ?thesis
  proof (cases "inputs \<noteq> None \<and> sdk_upstreams n = []")
    case True
    then obtain d where d: "inputs = Some d" by blast
    have "results s' = (case map_of d name of Some v \<Rightarrow> AList.update name v (results s) | None \<Rightarrow> results s)"
      using assms(1) n True d
      by (auto simp: step_node_def and_then_Inr check_timeout_def active_def split: option.splits)
    then show ?thesis
      using assms(3) True d ups by (auto simp: specified_def start_results_def split: option.splits)
  next
    case False
    then have other: "\<not> (has_key (results s) name \<and> sdk_upstreams n = [])"
      using assms(3) by (auto simp: start_results_def has_key_def)
    obtain v t where run: "run_node clock None start name n s = (t, Inr v)"
      and rec: "record_result clock name n v t = (s', Inr ())"
      using assms(1) n False other
      by (auto simp: step_node_def and_then_Inr check_timeout_def active_def split: if_splits)
    obtain ins s1 s2 where i: "prepare_node_inputs n (results s) = Inr ins"
      and c: "call_node clock None start name n ins s1 = (s2, Inr v)"
      and t: "results t = AList.update name v (results s)"
      using run_node_ok [OF run] .
    have r: "results s' = AList.update name v (results s)"
      using record_keeps_results [OF rec] t by simp
    have "sdk_name n = name" using assms(2) n by (simp add: names_ok_def)
    with i other have "collect_inputs name (results s) (sdk_upstreams n) [] = Inr ins"
      by (auto simp: prepare_node_inputs_def split: if_splits)
    then have "computed ns (results s) name v"
      using n call_node_no_timeout [OF c] by (auto simp: computed_def)
    moreover have "\<forall>u \<in> set (upstreams_of ns name). map_of (results s) u = map_of (results s') u"
      using assms(4) r by auto
    ultimately have "computed ns (results s') name v" using computed_cong by metis
    then show ?thesis using r False ups by (auto simp: specified_def)
  qed
qed

lemma step_node_sound:
  assumes "results_sound ns inputs done s" "step_node clock ns inputs None start name s = (s', Inr ())"
    "topo_order (upstreams_of ns) (done @ [name])" "names_ok ns"
  shows "results_sound ns inputs (done @ [name]) s'"
proof -
  have new: "name \<notin> set done" and ups: "set (upstreams_of ns name) \<subseteq> set done"
    using assms(3) by (simp_all add: topo_order_snoc)
  have old: "map_of (results s) name = map_of (start_results inputs) name"
    using assms(1) new by (simp add: results_sound_def)
  have "name \<notin> set (upstreams_of ns name)" using new ups by blast
  note step = step_node_result [OF assms(2,4) old this]
  have "specified ns inputs (results s') m" if "m \<in> set done" for m
  proof -
    have "topo_order (upstreams_of ns) done" using assms(1) by (simp add: results_sound_def)
    then have "set (upstreams_of ns m) \<subseteq> set done" by (rule topo_order_closed) (rule that)
    then have "\<forall>u \<in> set (upstreams_of ns m). map_of (results s) u = map_of (results s') u"
      using step new by (metis subsetD)
    moreover have "map_of (results s) m = map_of (results s') m" using step new that by metis
    moreover have "specified ns inputs (results s) m" using assms(1) that by (simp add: results_sound_def)
    ultimately show ?thesis using specified_cong by metis
  qed
  then show ?thesis
    using assms(1,3) step by (auto simp: results_sound_def)
qed

lemma run_steps_sound:
  assumes "each (step_node clock ns inputs None start) order s = (s', Inr ())"
    "results s = start_results inputs" "topo_order (upstreams_of ns) order" "names_ok ns"
  shows "results_sound ns inputs order s'"
proof -
  have "\<exists>zs. order = xs @ zs \<Longrightarrow> each (step_node clock ns inputs None start) xs s = (t, Inr ()) \<Longrightarrow>
      results_sound ns inputs xs t" for xs t
  proof (induction xs arbitrary: t rule: rev_induct)
    case Nil
    then show ?case using assms(2) by (simp add: results_sound_def)
  next
    case (snoc x xs)
    then obtain u where u: "each (step_node clock ns inputs None start) xs s = (u, Inr ())"
      and x: "step_node clock ns inputs None start x u = (t, Inr ())"
      by (auto simp: each_snoc)
    have "results_sound ns inputs xs u" using snoc.IH [OF _ u] snoc.prems(1) by auto
    moreover have "topo_order (upstreams_of ns) (xs @ [x])"
      using snoc.prems(1) assms(3) by (auto simp: topo_order_def topo_from_append)
    ultimately show ?case using step_node_sound x assms(4) by blast
  qed
  from this [of order s'] assms(1) show ?thesis by simp
qed

lemma enforce_keeps_results: "enforce_interval name e s = (s', r) \<Longrightarrow> results s' = results s"
  by (cases e) (auto simp: enforce_interval_def and_then_def split: option.splits sum.splits prod.splits)

lemma enforce_limits_keeps: "enforce_limits e s = (s', r) \<Longrightarrow> results s' = results s"
  by (cases e)
    (auto simp: enforce_limits_def split: option.splits
      elim!: each_preserves [where f = results, rotated] dest: enforce_keeps_results)

lemma execute_pipeline_ok:
  assumes "execute_pipeline clock ns order inputs timeout s = (s', Inr r)"
  obtains start s1 s2 where "results s1 = (case inputs of None \<Rightarrow> [] | Some d \<Rightarrow> d)"
    "each (step_node clock ns inputs timeout start) order s1 = (s2, Inr ())" "results s2 = r"
proof -
  let ?s1 = "(snd (read_clock clock s))\<lparr>results := (case inputs of None \<Rightarrow> [] | Some d \<Rightarrow> d)\<rparr>"
  from assms obtain s2 where
    e: "each (step_node clock ns inputs timeout (clock (ticks s))) order ?s1 = (s2, Inr ())"
    and f: "each enforce_limits ns (snd (read_clock clock s2)) = (s', Inr ())" and r: "r = results s'"
    by (auto simp: execute_pipeline_def read_clock_def and_then_Inr)
  have "results s' = results (snd (read_clock clock s2))"
    by (rule each_preserves [where f = results, OF _ f]) (rule enforce_limits_keeps)
  then have "results s2 = r" using r by (simp add: read_clock_def)
  from that [OF _ e this] show thesis by simp
qed

lemma execute_pipeline_sound:
  assumes "execute_pipeline clock ns order inputs None s = (s', Inr r)"
    "topo_order (upstreams_of ns) order" "names_ok ns" "name \<in> set order"
  shows "specified ns inputs r name"
proof -
  from execute_pipeline_ok [OF assms(1)] obtain start s1 s2 where
    "each (step_node clock ns inputs None start) order s1 = (s2, Inr ())" "results s1 = start_results inputs" "results s2 = r"
    by (metis start_results_def)
  then have "results_sound ns inputs order s2" using run_steps_sound assms(2,3) by blast
  with \<open>results s2 = r\<close> show ?thesis using assms(4) by (simp add: results_sound_def)
qed

text \<open>
  Two successful runs of the same nodes on the same inputs, in any two topological orders, at any time and on any
  engine, give every node the same result.
\<close>

lemma results_agree:
  assumes "execute_pipeline clock ns order inputs None s = (s1, Inr r)"
    and "execute_pipeline clock' ns order' inputs None s' = (s1', Inr r')"
    and "topo_order (upstreams_of ns) order" "topo_order (upstreams_of ns) order'"
    and "set order' = set order" "names_ok ns" "name \<in> set order"
  shows "map_of r name = map_of r' name"
proof -
  have agree: "map_of r m = map_of r' m" if "order = xs @ ys" "m \<in> set xs" for xs ys m
    using that
  proof (induction xs arbitrary: ys m rule: rev_induct)
    case Nil
    then show ?case by simp
  next
    case (snoc x xs)
    show ?case
    proof (cases "m = x")
      case False
      with snoc show ?thesis by simp
    next
      case True
      have "set (upstreams_of ns x) \<subseteq> set xs"
        using topo_order_before [of "upstreams_of ns" xs x ys] assms(3) snoc.prems(1) by simp
      then have ups: "\<forall>u \<in> set (upstreams_of ns x). map_of r u = map_of r' u"
        using snoc.IH [of "x # ys"] snoc.prems(1) by auto
      have "x \<in> set order" using snoc.prems(1) by simp
      with execute_pipeline_sound [OF assms(1,3,6)] execute_pipeline_sound [OF assms(2,4,6)] assms(5)
      show ?thesis using True specified_unique [OF _ _ ups] by blast
    qed
  qed
  from agree [of order "[]" name] assms(7) show ?thesis by simp
qed

definition demo_source :: "string \<Rightarrow> int \<Rightarrow> sdk_node" where
  "demo_source name i =
     source_node name \<lparr>call = (\<lambda>_. Inr (PInt i)), param_names = [], has_kwargs = False, fn_qualname = ''s'', fn_ast = ''''\<rparr> None []"

definition demo_nodes :: "(string, sdk_node) dict" where
  "demo_nodes = [(''a'', demo_source ''a'' 1), (''b'', demo_source ''b'' 2), (''sum'', demo_node)]"

definition demo_results :: "(string, pyval) dict" where
  "demo_results = [(''a'', PInt 1), (''b'', PInt 2), (''sum'', PInt 1)]"

lemmas engine_defs = execute_pipeline_def read_clock_def and_then_def step_node_def check_timeout_def
  active_def run_node_def prepare_node_inputs_def call_node_def execute_node_def execute_source_def
  execute_processing_def build_fn_args_def Let_def set_result_def record_result_def save_interval_data_def
  expires_at_def cache_push_def history_push_def trim_def set_history_def set_cache_def history_of_def
  enforce_limits_def new_engine_def cache_key_def

lemma demo_node_full:
  "demo_node = \<lparr>sdk_kind = Processing, sdk_name = ''sum'', sdk_fn = demo_fn, sdk_tags = [], sdk_upstreams = [''a'', ''b''],
     sdk_key_params = [], sdk_settings = None, sdk_kwargs = [], sdk_id = '''', sdk_cache = []\<rparr>"
  by (simp add: demo_node_def)

lemma demo_run:
  "snd (execute_pipeline (\<lambda>_. 0) demo_nodes [''a'', ''b'', ''sum''] None None new_engine) = Inr demo_results"
  "snd (execute_pipeline (\<lambda>_. 0) demo_nodes [''b'', ''a'', ''sum''] None None new_engine) =
     Inr [(''b'', PInt 2), (''a'', PInt 1), (''sum'', PInt 1)]"
  by (simp_all add: engine_defs demo_nodes_def demo_source_def source_node_def demo_node_def demo_fn_def
      demo_results_def args_multi_upstream_def add_kwargs_def)

lemma demo_upstreams:
  "upstreams_of demo_nodes ''a'' = []" "upstreams_of demo_nodes ''b'' = []"
  "upstreams_of demo_nodes ''sum'' = [''a'', ''b'']" "names_ok demo_nodes"
  by (auto simp: upstreams_of_def demo_nodes_def demo_source_def source_node_def demo_node_def names_ok_def)

section \<open>Runs with inputs\<close>

text \<open>Every result of a node without upstreams comes from the inputs.\<close>

lemma step_node_inputs:
  assumes "step_node clock ns (Some d) timeout start name s = (s', Inr ())" "names_ok ns"
    and "\<And>u m. map_of ns u = Some m \<Longrightarrow> sdk_upstreams m = [] \<Longrightarrow> has_key (results s) u \<Longrightarrow> has_key d u"
  shows "(\<forall>u m. map_of ns u = Some m \<longrightarrow> sdk_upstreams m = [] \<longrightarrow> has_key (results s') u \<longrightarrow> has_key d u) \<and>
    (\<forall>n u m. map_of ns name = Some n \<longrightarrow> u \<in> set (sdk_upstreams n) \<longrightarrow> map_of ns u = Some m \<longrightarrow>
       sdk_upstreams m = [] \<longrightarrow> has_key d u)"
proof -
  obtain s1 n where s1: "check_timeout clock timeout start s = (s1, Inr ())" and n: "map_of ns name = Some n"
    using assms(1) by (auto simp: step_node_def and_then_Inr split: option.splits)
  have r1: "results s1 = results s" using check_keeps [OF s1] .
  show ?thesis
  proof (cases "sdk_upstreams n = []")
    case True
    then have "results s' = (case map_of d name of Some v \<Rightarrow> AList.update name v (results s) | None \<Rightarrow> results s)"
      using assms(1) s1 n r1 by (auto simp: step_node_def split: option.splits)
    then show ?thesis
      using assms(3) n True by (auto simp: has_key_def split: option.splits if_splits)
  next
    case False
    then obtain v t where run: "run_node clock timeout start name n s1 = (t, Inr v)"
      and rec: "record_result clock name n v t = (s', Inr ())"
      using assms(1) s1 n by (auto simp: step_node_def and_then_Inr)
    obtain inputs where i: "prepare_node_inputs n (results s) = Inr inputs"
      and t: "results t = AList.update name v (results s)"
      using run_node_ok [OF run] r1 by metis
    have r': "results s' = AList.update name v (results s)"
      using record_keeps_results [OF rec] t by simp
    have "collect_inputs nm rs us acc = Inr w \<Longrightarrow> \<forall>u \<in> set us. has_key rs u" for nm rs us acc w
      by (induction us arbitrary: acc) (auto simp: has_key_def split: option.splits)
    moreover have "collect_inputs (sdk_name n) (results s) (sdk_upstreams n) [] = Inr inputs"
      using i False by (simp add: prepare_node_inputs_def)
    ultimately have "\<forall>u \<in> set (sdk_upstreams n). has_key (results s) u" by blast
    then show ?thesis using assms(3) n r' False by auto
  qed
qed

text \<open>
  When inputs are given the nodes without upstreams are not run at all: a run that succeeds had
  an input for every such node that some node of the order depends on. With one of them missing the
  run fails instead of fetching the source.
\<close>
theorem inputs_replace_sources:
  assumes "execute_pipeline clock ns order (Some d) timeout s = (s', Inr r)" "names_ok ns"
    and "name \<in> set order" "map_of ns name = Some n" "u \<in> set (sdk_upstreams n)"
    and "map_of ns u = Some m" "sdk_upstreams m = []"
  shows "has_key d u"
proof -
  let ?ok = "\<lambda>s. \<forall>u m. map_of ns u = Some m \<longrightarrow> sdk_upstreams m = [] \<longrightarrow> has_key (results s) u \<longrightarrow> has_key d u"
  let ?used = "\<lambda>name. \<forall>n u m. map_of ns name = Some n \<longrightarrow> u \<in> set (sdk_upstreams n) \<longrightarrow> map_of ns u = Some m \<longrightarrow>
       sdk_upstreams m = [] \<longrightarrow> has_key d u"
  from execute_pipeline_ok [OF assms(1)] obtain start s1 s2 where
    run: "each (step_node clock ns (Some d) timeout start) order s1 = (s2, Inr ())" and r: "results s1 = d"
    by (metis option.simps(5))
  have "?ok s2 \<and> (\<forall>name \<in> set order. ?used name)"
  proof (rule each_invariant [OF run, where P = "\<lambda>ys t. ?ok t \<and> (\<forall>name \<in> set ys. ?used name)"])
    show "?ok s1 \<and> (\<forall>name \<in> set []. ?used name)" using r by simp
  next
    fix ys x t t'
    assume inv: "?ok t \<and> (\<forall>name \<in> set ys. ?used name)"
      and step: "step_node clock ns (Some d) timeout start x t = (t', Inr ())"
    from step_node_inputs [OF step assms(2)] inv have "?ok t' \<and> ?used x" by blast
    with inv show "?ok t' \<and> (\<forall>name \<in> set (ys @ [x]). ?used name)"
      by (simp only: set_append ball_Un list.set ball_simps simp_thms) blast
  qed
  with assms(3-7) show ?thesis by blast
qed

lemma demo_run_inputs:
  "snd (execute_pipeline (\<lambda>_. 0) demo_nodes [''a'', ''b'', ''sum''] (Some demo_inputs) None new_engine) = Inr demo_results"
  by (simp add: engine_defs demo_nodes_def demo_source_def source_node_def demo_node_def demo_fn_def
      demo_results_def demo_inputs_def args_multi_upstream_def add_kwargs_def)

theorem inputs_replace_sources_witness: "has_key demo_inputs ''a''"
proof -
  obtain s1 where a: "execute_pipeline (\<lambda>_. 0) demo_nodes [''a'', ''b'', ''sum''] (Some demo_inputs) None new_engine
      = (s1, Inr demo_results)"
    by (metis demo_run_inputs prod.collapse)
  have "map_of demo_nodes ''sum'' = Some demo_node" "map_of demo_nodes ''a'' = Some (demo_source ''a'' 1)"
    "sdk_upstreams (demo_source ''a'' 1) = []"
    by (simp_all add: demo_nodes_def demo_source_def source_node_def)
  then show ?thesis
    by (intro inputs_replace_sources [OF a demo_upstreams(4), of "''sum''" demo_node "''a''"])
      (simp_all add: demo_node_simps)
qed

section \<open>Runs with a timeout\<close>

text \<open>
  C30: a timeout breaks the nodes with one upstream. The wrapper around the node's function has the
  signature \<open>(**kwargs)\<close>, whose only parameter the node takes for the function's own: where the
  function would get its parameter, it gets an argument named \<open>kwargs\<close>. A function that rejects
  unknown arguments makes every such run fail, although the same node runs without a timeout.
\<close>
theorem timeout_breaks_single_upstream:
  assumes "sdk_kind n = Processing" "sdk_upstreams n = [u]" "param_names (sdk_fn n) = [p]" "sdk_kwargs n = []"
    and "map_of inputs u = Some v" "call (sdk_fn n) [(p, v)] = Inr w"
    and "call (sdk_fn n) [(''kwargs'', v)] = raises TypeError msg" "t \<noteq> 0"
  shows "snd (call_node clock None start name n inputs s) = Inr w \<and>
    (\<exists>msg'. snd (call_node clock (Some t) start name n inputs s) = raises RuntimeError msg')"
proof
  have valid: "validate_upstreams (sdk_name n) [u] inputs = Inr ()"
    using assms(5) by (simp add: has_key_def)
  have "build_fn_args n inputs = [(p, v)]"
    using assms(2,3,5) by (simp add: build_fn_args_def args_single_upstream_def)
  then show "snd (call_node clock None start name n inputs s) = Inr w"
    using assms(1,2,4,6) valid
    by (simp add: call_node_def read_clock_def active_def execute_node_def execute_processing_def add_kwargs_def)
  have args: "build_fn_args (with_timeout t start es now n) inputs = [(''kwargs'', v)]" for es now
    using assms(2,5) by (simp add: build_fn_args_def with_timeout_def args_single_upstream_def)
  have fail: "\<exists>m. execute_node (with_timeout t start es now n) inputs = raises RuntimeError m" for es now
  proof -
    have c: "caught (exn_of TypeError msg)" "caught (exn_of TimeoutError m)" for m
      by (simp_all add: caught_iff)
    have "sdk_kind (with_timeout t start es now n) = Processing"
      "sdk_name (with_timeout t start es now n) = sdk_name n"
      "sdk_upstreams (with_timeout t start es now n) = [u]" "sdk_kwargs (with_timeout t start es now n) = []"
      using assms(1,2,4) by (simp_all add: with_timeout_def)
    moreover obtain e where "call (sdk_fn (with_timeout t start es now n)) [(''kwargs'', v)] = Inl e" "caught e"
    proof -
      have "call (sdk_fn (with_timeout t start es now n)) [(''kwargs'', v)] \<in>
          {raises TimeoutError ''pipeline timeout exceeded'', raises TypeError msg}"
        by (simp add: with_timeout_def assms(7))
      then show thesis using that c by blast
    qed
    ultimately show ?thesis
      using valid args [of es now] by (simp add: execute_node_def execute_processing_def add_kwargs_def)
  qed
  obtain m where m: "execute_node (with_timeout t start (clock (ticks s)) (clock (Suc (ticks s))) n) inputs
      = raises RuntimeError m"
    using fail by blast
  have "caught (exn_of RuntimeError m)" by (simp add: caught_iff)
  then show "\<exists>msg'. snd (call_node clock (Some t) start name n inputs s) = raises RuntimeError msg'"
    using m assms(8) by (simp add: call_node_def read_clock_def active_def)
qed

definition double_fn :: callable where
  "double_fn =
     \<lparr>call = (\<lambda>args. case args of
         [(k, PInt i)] \<Rightarrow> if k = ''x'' then Inr (PInt (2 * i)) else raises TypeError ''unexpected keyword argument''
       | _ \<Rightarrow> raises TypeError ''unexpected keyword argument''),
      param_names = [''x''], has_kwargs = False, fn_qualname = ''double'', fn_ast = ''''\<rparr>"

definition double_node :: sdk_node where
  "double_node = \<lparr>sdk_kind = Processing, sdk_name = ''double'', sdk_fn = double_fn, sdk_tags = [],
     sdk_upstreams = [''a''], sdk_key_params = [], sdk_settings = None, sdk_kwargs = [], sdk_id = '''', sdk_cache = []\<rparr>"

theorem timeout_breaks_single_upstream_witness:
  "snd (call_node (\<lambda>_. 0) None 0 ''double'' double_node [(''a'', PInt 3)] new_engine) = Inr (PInt 6) \<and>
    (\<exists>msg. snd (call_node (\<lambda>_. 0) (Some 60) 0 ''double'' double_node [(''a'', PInt 3)] new_engine) = raises RuntimeError msg)"
  by (rule timeout_breaks_single_upstream [of double_node "''a''" "''x''" "[(''a'', PInt 3)]" "PInt 3" "PInt 6"
        "''unexpected keyword argument''" 60])
    (simp_all add: double_node_def double_fn_def)

section \<open>The history as a bounded log\<close>

text \<open>
  The operations on the stored data, with limits and lifetimes that are ints, and what they mean on
  the abstract log: for every node and interval the saved items, newest first.
\<close>

datatype store_op =
    Save string string pyval int "int option"
  | Cleanup
  | Clear "string option" "string option"
  | Read string string int

definition ttl_value :: "int option \<Rightarrow> pyval" where
  "ttl_value ttl = (case ttl of None \<Rightarrow> PNone | Some i \<Rightarrow> PInt i)"

fun store_step :: "clock \<Rightarrow> engine \<Rightarrow> store_op \<Rightarrow> engine" where
  "store_step clock s (Save nid iv v m ttl) = fst (save_interval_data clock nid iv v (PInt m) (ttl_value ttl) s)"
| "store_step clock s Cleanup = cleanup_expired_data clock s"
| "store_step clock s (Clear n i) = clear_cache n i s"
| "store_step clock s (Read nid iv limit) = snd (get_interval_data clock nid iv limit s)"

type_synonym log = "string \<Rightarrow> string \<Rightarrow> item list"

definition log_of :: "engine \<Rightarrow> log" where
  "log_of s nid iv = (case history_of s nid iv of None \<Rightarrow> [] | Some xs \<Rightarrow> xs)"

definition expiry :: "real \<Rightarrow> int option \<Rightarrow> real option" where
  "expiry now ttl =
     (case ttl of None \<Rightarrow> None | Some i \<Rightarrow> if 0 < i then Some (now + real_of_int i) else if i = 0 then Some now else None)"

fun log_step :: "real \<Rightarrow> log \<Rightarrow> store_op \<Rightarrow> log" where
  "log_step now l (Save nid iv v m ttl) =
     (\<lambda>n i. if n = nid \<and> i = iv
        then take_py m (\<lparr>it_time = now, it_value = v, it_expires = expiry now ttl\<rparr> # l nid iv) else l n i)"
| "log_step now l Cleanup = (\<lambda>n i. filter (unexpired now) (l n i))"
| "log_step now l (Clear n0 i0) =
     (\<lambda>n i. if (n0 = None \<or> n0 = Some n) \<and> (i0 = None \<or> i0 = Some i) then [] else l n i)"
| "log_step now l (Read _ _ _) = l"

fun store_run :: "clock \<Rightarrow> engine \<Rightarrow> store_op list \<Rightarrow> engine" where
  "store_run clock s [] = s"
| "store_run clock s (p # ps) = store_run clock (store_step clock s p) ps"

fun log_run :: "clock \<Rightarrow> nat \<Rightarrow> log \<Rightarrow> store_op list \<Rightarrow> log" where
  "log_run clock k l [] = l"
| "log_run clock k l (p # ps) =
     log_run clock (case p of Clear _ _ \<Rightarrow> k | _ \<Rightarrow> Suc k) (log_step (clock k) l p) ps"

definition engine_ok :: "engine \<Rightarrow> bool" where
  "engine_ok s \<longleftrightarrow> dict_ok (history s) \<and> (\<forall>n h. map_of (history s) n = Some h \<longrightarrow> dict_ok h)"

lemma trim_int: "trim (PInt m) (x # xs) = Inr (take_py m (x # xs))"
proof (cases "m < int (length (x # xs))")
  case True
  then have "real_of_int m < real (length (x # xs))" by linarith
  then show ?thesis by (simp add: trim_def)
next
  case False
  then have "\<not> real_of_int m < real (length (x # xs))" "0 \<le> m" "length (x # xs) \<le> nat m" by auto
  then show ?thesis by (simp add: trim_def take_py_def del: list.size)
qed

lemma save_history:
  "save_interval_data clock nid iv v (PInt m) (ttl_value ttl) s = (s', r) \<Longrightarrow>
     r = Inr () \<and> ticks s' = Suc (ticks s) \<and>
     history s' = history (set_history nid iv
       (take_py m (\<lparr>it_time = clock (ticks s), it_value = v, it_expires = expiry (clock (ticks s)) ttl\<rparr> # log_of s nid iv)) s)"
proof -
  have "expires_at now (ttl_value ttl) = Inr (expiry now ttl)" for now
    by (auto simp: expires_at_def ttl_value_def expiry_def split: option.split)
  then show "save_interval_data clock nid iv v (PInt m) (ttl_value ttl) s = (s', r) \<Longrightarrow> ?thesis"
    by (auto simp: save_interval_data_def read_clock_def cache_push_def history_push_def trim_int log_of_def
        history_of_def set_history_def set_cache_def Let_def)
qed

lemma log_of_set_history:
  "history s' = history (set_history nid iv xs s) \<Longrightarrow>
     log_of s' n i = (if n = nid \<and> i = iv then xs else log_of s n i)"
  by (auto simp: log_of_def history_of_def set_history_def split: option.split)

lemma engine_ok_set_history:
  "engine_ok s \<Longrightarrow> history s' = history (set_history nid iv xs s) \<Longrightarrow> engine_ok s'"
  by (auto simp: engine_ok_def set_history_def split: option.split)

text \<open>Filtering the entries of a dict.\<close>

lemma map_of_filter_dict:
  "dict_ok d \<Longrightarrow> map_of (filter (\<lambda>(k, v). P k v) d) k =
     (case map_of d k of None \<Rightarrow> None | Some v \<Rightarrow> if P k v then Some v else None)"
  by (induction d) (auto simp: dict_ok_def map_of_eq_None_iff split: option.split)

lemma dict_ok_filter: "dict_ok d \<Longrightarrow> dict_ok (filter P d)"
  by (auto simp: dict_ok_def distinct_map intro: inj_on_subset)

lemma dict_ok_map_values [simp]: "dict_ok (map (\<lambda>(k, v). (k, f v)) d) \<longleftrightarrow> dict_ok d"
  by (simp add: dict_ok_def comp_def split_beta)

lemma map_of_prune:
  assumes "dict_ok d"
  shows "map_of (prune now d) k = (case map_of d k of
      None \<Rightarrow> None
    | Some xs \<Rightarrow> (case filter (unexpired now) xs of [] \<Rightarrow> None | y # ys \<Rightarrow> Some (y # ys)))"
  using assms unfolding prune_def
  by (subst map_of_filter_dict) (auto simp: map_of_map split: option.split list.split)

lemma dict_ok_prune: "dict_ok d \<Longrightarrow> dict_ok (prune now d)"
  by (simp add: prune_def dict_ok_filter)

lemma cleanup_history:
  assumes "engine_ok s"
  shows "log_of (cleanup_expired_data clock s) n i = filter (unexpired (clock (ticks s))) (log_of s n i)"
    and "engine_ok (cleanup_expired_data clock s)"
proof -
  let ?now = "clock (ticks s)"
  let ?h = "filter (\<lambda>(_, h). h \<noteq> []) (map (\<lambda>(k, h). (k, prune ?now h)) (history s))"
  have ok: "dict_ok (history s)" "\<And>n h. map_of (history s) n = Some h \<Longrightarrow> dict_ok h"
    using assms by (auto simp: engine_ok_def)
  have m: "map_of ?h n = (case map_of (history s) n of None \<Rightarrow> None
      | Some h \<Rightarrow> if prune ?now h \<noteq> [] then Some (prune ?now h) else None)" for n
    using ok(1) by (subst map_of_filter_dict) (auto simp: map_of_map split: option.split)
  have hist: "history (cleanup_expired_data clock s) = ?h"
    by (simp add: cleanup_expired_data_def read_clock_def)
  show "log_of (cleanup_expired_data clock s) n i = filter (unexpired ?now) (log_of s n i)"
  proof (cases "map_of (history s) n")
    case None
    then show ?thesis by (simp add: log_of_def history_of_def hist m)
  next
    case (Some h)
    note p = map_of_prune [OF ok(2) [OF Some], of ?now i]
    have "(case (if prune ?now h \<noteq> [] then Some (prune ?now h) else None) of None \<Rightarrow> None | Some h \<Rightarrow> map_of h i)
        = map_of (prune ?now h) i" by simp
    with Some p show ?thesis
      by (auto simp: log_of_def history_of_def hist m split: option.splits list.splits)
  qed
  show "engine_ok (cleanup_expired_data clock s)"
    using ok by (auto simp: engine_ok_def hist m dict_ok_prune intro!: dict_ok_filter split: option.splits if_splits)
qed

lemma clear_history:
  assumes "engine_ok s"
  shows "log_of (clear_cache n0 i0 s) n i =
      (if (n0 = None \<or> n0 = Some n) \<and> (i0 = None \<or> i0 = Some i) then [] else log_of s n i)"
    and "engine_ok (clear_cache n0 i0 s)"
proof -
  have ok: "dict_ok (history s)" "\<And>n h. map_of (history s) n = Some h \<Longrightarrow> dict_ok h"
    using assms by (auto simp: engine_ok_def)
  show "log_of (clear_cache n0 i0 s) n i =
      (if (n0 = None \<or> n0 = Some n) \<and> (i0 = None \<or> i0 = Some i) then [] else log_of s n i)"
    by (cases n0; cases i0)
      (auto simp: clear_cache_def log_of_def history_of_def map_of_map split: option.split)
  show "engine_ok (clear_cache n0 i0 s)"
    using ok
    by (cases n0; cases i0)
      (auto simp: clear_cache_def engine_ok_def map_of_map split: option.splits if_splits)
qed

text \<open>
  C25: the history is a bounded log per node and interval. Whatever the order of saves, clean-ups,
  clearings and reads, each of them acts on the stored history exactly as its specification on the
  log: a save puts the item in front and cuts the log at its limit, a clean-up drops the expired
  items, a clearing empties the logs it names and no other, and a read changes nothing.
\<close>
theorem history_refines_log:
  assumes "engine_ok s"
  shows "log_of (store_run clock s ops) = log_run clock (ticks s) (log_of s) ops"
  using assms
proof (induction ops arbitrary: s)
  case Nil
  then show ?case by simp
next
  case (Cons p ops)
  have "log_of (store_step clock s p) = log_step (clock (ticks s)) (log_of s) p \<and>
    ticks (store_step clock s p) = (case p of Clear _ _ \<Rightarrow> ticks s | _ \<Rightarrow> Suc (ticks s)) \<and>
    engine_ok (store_step clock s p)"
  proof (cases p)
    case (Save nid iv v m ttl)
    obtain s' r where s': "save_interval_data clock nid iv v (PInt m) (ttl_value ttl) s = (s', r)" by fastforce
    note h = save_history [OF s']
    then show ?thesis
      using Save s' log_of_set_history [of s'] engine_ok_set_history [OF Cons.prems, of s'] by (auto simp: fun_eq_iff)
  next
    case Cleanup
    then show ?thesis using cleanup_history [OF Cons.prems]
      by (auto simp: fun_eq_iff cleanup_expired_data_def read_clock_def)
  next
    case (Clear n i)
    then show ?thesis using clear_history [OF Cons.prems]
      by (auto simp: fun_eq_iff clear_cache_def split: option.split)
  next
    case (Read n i l)
    then show ?thesis using Cons.prems
      by (auto simp: get_interval_data_def read_clock_def log_of_def history_of_def engine_ok_def fun_eq_iff)
  qed
  with Cons.IH [of "store_step clock s p"] show ?case by simp
qed

definition demo_ops :: "store_op list" where
  "demo_ops = [Save ''n'' ''1d'' (PInt 1) 2 None, Save ''n'' ''1d'' (PInt 2) 2 (Some 5), Save ''n'' ''1d'' (PInt 3) 2 None,
     Clear None (Some ''1h''), Cleanup]"

theorem history_refines_log_witness:
  "map it_value (log_of (store_run real new_engine demo_ops) ''n'' ''1d'') = [PInt 3, PInt 2]"
proof -
  have "engine_ok new_engine" by (simp add: engine_ok_def new_engine_def)
  from history_refines_log [OF this, of real demo_ops] show ?thesis
    by (simp add: demo_ops_def take_py_def expiry_def unexpired_def new_engine_def log_of_def history_of_def)
qed

text \<open>
  What is cleared is gone: after \<open>clear_cache\<close> a read of any node and interval it names returns
  nothing, although reads fall back to a second cache whose keys are joined with a colon.
\<close>
theorem cleared_data_is_gone:
  assumes "engine_ok s" "dict_ok (mem_cache s)"
    and "node = None \<or> node = Some nid" "interval = None \<or> interval = Some iv"
  shows "fst (get_interval_data clock nid iv limit (clear_cache node interval s)) = []"
proof -
  let ?s = "clear_cache node interval s"
  have empty: "map_of (filter (\<lambda>(k, _). P k) d) k = None" if "dict_ok d" "\<not> P k" for P d and k :: string
    using that by (subst map_of_filter_dict) (auto split: option.split)
  have "history_of ?s nid iv = None"
    using assms(3,4) by (auto simp: clear_cache_def history_of_def map_of_map split: option.splits)
  moreover have "map_of (mem_cache ?s) (cache_key nid iv) = None"
  proof -
    have s: "starts_with (cache_key nid iv) (nid @ '':'')" "ends_with (cache_key nid iv) ('':'' @ iv)"
      by (auto simp: cache_key_def starts_with_iff ends_with_iff)
    from assms(3,4) show ?thesis
      using assms(2) s by (auto simp: clear_cache_def empty)
  qed
  ultimately have "stored_items ?s nid iv = []" by (simp add: stored_items_def)
  then show ?thesis by (simp add: get_interval_data_def read_clock_def stored_items_def history_of_def take_py_def)
qed

definition demo_engine :: engine where
  "demo_engine = new_engine\<lparr>history := [(''n'', [(''1d'', [\<lparr>it_time = 1, it_value = PInt 1, it_expires = None\<rparr>])])],
     mem_cache := [(''n:1d'', [\<lparr>it_time = 1, it_value = PInt 1, it_expires = None\<rparr>])]\<rparr>"

theorem cleared_data_is_gone_witness:
  "fst (get_interval_data real ''n'' ''1d'' 10 demo_engine) \<noteq> [] \<and>
   fst (get_interval_data real ''n'' ''1d'' 10 (clear_cache None (Some ''1d'') demo_engine)) = []"
proof
  show "fst (get_interval_data real ''n'' ''1d'' 10 demo_engine) \<noteq> []"
    by (simp add: get_interval_data_def read_clock_def stored_items_def history_of_def demo_engine_def
        take_py_def unexpired_def)
  show "fst (get_interval_data real ''n'' ''1d'' 10 (clear_cache None (Some ''1d'') demo_engine)) = []"
    by (rule cleared_data_is_gone) (auto simp: demo_engine_def engine_ok_def new_engine_def dict_ok_def)
qed

end
