(* ===== verification/Pipeline.thy ===== *)
theory Pipeline
  imports LocalEngine
begin

text \<open>
  Pipelines (\<open>sdk/pipeline.py\<close>): adding nodes with the default intervals, the execution order,
  queries over the nodes, and the run on the local engine.

  The order in which a Python set of names is iterated is the parameter \<open>ord\<close>, the random choice
  of \<open>random.sample\<close> the parameter \<open>sample\<close>, the Redis state manager and the protobuf messages of
  settings are parameters where they are used. The first argument of the sort is the number of
  Python stack frames left.
\<close>

section \<open>State\<close>

record selector =
  sel_mode :: string
  sel_batch :: "int option"
  sel_sample :: "int option"
  sel_meta :: "(string, pyval) dict"

record query_node =
  q_name :: string
  q_tags :: "string list"
  q_interval :: "string option"
  q_period :: pyval
  q_settings :: "intervals option"
  q_selectors :: "selector list"

record pipeline =
  pl_name :: string
  pl_kwargs :: "(string, pyval) dict"
  pl_nodes :: "(string, sdk_node) dict"
  pl_query :: "(string, query_node) dict"
  pl_order :: "string list"
  pl_cache :: "(string, pyval) dict"
  pl_defaults :: intervals
  pl_engine :: bool

definition new_pipeline :: "string \<Rightarrow> intervals option \<Rightarrow> (string, pyval) dict \<Rightarrow> pipeline" where
  "new_pipeline name defaults kwargs =
     \<lparr>pl_name = name, pl_kwargs = kwargs, pl_nodes = [], pl_query = [], pl_order = [], pl_cache = [],
      pl_defaults = (case defaults of None \<Rightarrow> [] | Some d \<Rightarrow> d), pl_engine = False\<rparr>"

section \<open>Default intervals\<close>

text \<open>\<open>getattr(v, "period", None)\<close>, and the same with \<open>v.get("period")\<close> as the second try.\<close>

fun period_attr :: "setting \<Rightarrow> pyval" where
  "period_attr (SettingObj st) = obj_period st"
| "period_attr (SettingDict _) = PNone"

fun period_of :: "setting \<Rightarrow> pyval" where
  "period_of (SettingObj st) = (if py_truthy (obj_period st) then obj_period st else PNone)"
| "period_of (SettingDict d) = (case map_of d ''period'' of None \<Rightarrow> PNone | Some v \<Rightarrow> v)"

fun interval_field :: "setting \<Rightarrow> pyval" where
  "interval_field (SettingObj st) = (if py_truthy (obj_interval st) then obj_interval st else PNone)"
| "interval_field (SettingDict d) = (case map_of d ''interval'' of None \<Rightarrow> PNone | Some v \<Rightarrow> v)"

text \<open>\<open>intervals[k].period = default_setting.period\<close>: only the settings objects have that attribute.\<close>

fun take_period :: "setting \<Rightarrow> setting \<Rightarrow> setting res" where
  "take_period (SettingObj st) (SettingObj d) = Inr (SettingObj (st\<lparr>obj_period := obj_period d\<rparr>))"
| "take_period _ _ = raises AttributeError ''dict object has no attribute period''"

definition merge_default :: "string \<times> setting \<Rightarrow> intervals \<Rightarrow> (intervals, exn, unit) outcome" where
  "merge_default e ivs =
     (case e of (k, d) \<Rightarrow>
        (case map_of ivs k of
           None \<Rightarrow> (AList.update k d ivs, Inr ())
         | Some st \<Rightarrow>
             if period_attr st = PNone \<or> py_same (period_attr st) (PInt 1) then
               (case take_period st d of
                  Inl x \<Rightarrow> (ivs, Inl x)
                | Inr st' \<Rightarrow> (AList.update k st' ivs, Inr ()))
             else (ivs, Inr ())))"

fun check_periods :: "string \<Rightarrow> intervals \<Rightarrow> unit res" where
  "check_periods name [] = Inr ()"
| "check_periods name ((k, st) # ivs) =
     (if period_of st = PNone
      then raises ValueError (''interval '' @ k @ '' of node '' @ name @ '' has no period'')
      else check_periods name ivs)"

fun check_interval_fields :: "string \<Rightarrow> intervals \<Rightarrow> unit res" where
  "check_interval_fields name [] = Inr ()"
| "check_interval_fields name ((k, st) # ivs) =
     (if \<not> py_truthy (interval_field st)
      then raises ValueError (''intervals['' @ k @ ''] of node '' @ name @ '' has no interval field'')
      else check_interval_fields name ivs)"

text \<open>\<open>dict(d).update(e)\<close>\<close>

definition dict_update :: "('k, 'v) dict \<Rightarrow> ('k, 'v) dict \<Rightarrow> ('k, 'v) dict" where
  "dict_update d e = fold (\<lambda>(k, v). AList.update k v) e d"

text \<open>
  \<open>new_settings\<close> is the constructor \<open>NodeStreamSettings\<close> as far as it may raise, which builds a protobuf message of the
  intervals (\<open>new_stream_settings\<close> of SdkModels). It is called for a node that has no intervals.
\<close>

definition merge_defaults :: "intervals \<Rightarrow> intervals \<Rightarrow> (intervals option, exn, unit) outcome" where
  "merge_defaults defaults ivs = (case each merge_default defaults ivs of (ivs', r) \<Rightarrow> (Some ivs', r))"

definition apply_default_intervals ::
  "(intervals \<Rightarrow> unit res) \<Rightarrow> intervals \<Rightarrow> string \<Rightarrow> intervals option \<Rightarrow> (intervals option, exn, unit) outcome" where
  "apply_default_intervals new_settings defaults name settings =
     (if (settings = None \<or> settings = Some []) \<and> defaults = [] then
        (settings, raises ValueError (''node '' @ name @ '' has no intervals and the pipeline no default_intervals''))
      else
        (case (case settings of
                 None \<Rightarrow> (case new_settings defaults of Inl e \<Rightarrow> (None, Inl e) | Inr _ \<Rightarrow> merge_defaults defaults defaults)
               | Some [] \<Rightarrow> (case new_settings defaults of Inl e \<Rightarrow> (Some [], Inl e) | Inr _ \<Rightarrow> (Some defaults, Inr ()))
               | Some ivs \<Rightarrow> merge_defaults defaults ivs) of
           (s, Inl e) \<Rightarrow> (s, Inl e)
         | (s, Inr _) \<Rightarrow>
             (s,
              bind_res (check_periods name (dict_update defaults (the s))) (\<lambda>_.
                if the s = [] then raises ValueError (''the intervals of node '' @ name @ '' are empty'')
                else check_interval_fields name (the s)))))"

section \<open>Adding nodes\<close>

definition pipeline_add_node ::
  "(intervals \<Rightarrow> unit res) \<Rightarrow> sdk_node \<Rightarrow> pipeline \<Rightarrow> (pipeline, exn, sdk_node) outcome" where
  "pipeline_add_node new_settings n p =
     (if has_key (pl_nodes p) (sdk_name n) then
        (p, raises ValueError (''node '' @ sdk_name n @ '' is already in the pipeline''))
      else
        (case apply_default_intervals new_settings (pl_defaults p) (sdk_name n) (sdk_settings n) of
           (ivs, Inl e) \<Rightarrow> (p, Inl e)
         | (ivs, Inr _) \<Rightarrow>
             (let n' = n\<lparr>sdk_settings := ivs\<rparr> in
              (p\<lparr>pl_nodes := AList.update (sdk_name n) n' (pl_nodes p), pl_order := []\<rparr>, Inr n'))))"

definition add_query_node ::
  "(intervals \<Rightarrow> unit res) \<Rightarrow> query_node \<Rightarrow> pipeline \<Rightarrow> (pipeline, exn, string) outcome" where
  "add_query_node new_settings q p =
     (if has_key (pl_nodes p) (q_name q) \<or> has_key (pl_query p) (q_name q) then
        (p, raises ValueError (''node '' @ q_name q @ '' is already in the pipeline''))
      else
        (case apply_default_intervals new_settings (pl_defaults p) (q_name q) (q_settings q) of
           (ivs, Inl e) \<Rightarrow> (p, Inl e)
         | (ivs, Inr _) \<Rightarrow>
             (p\<lparr>pl_query := AList.update (q_name q) (q\<lparr>q_settings := ivs\<rparr>) (pl_query p), pl_order := []\<rparr>,
              Inr (q_name q))))"

definition pipeline_get_node :: "pipeline \<Rightarrow> string \<Rightarrow> sdk_node option" where
  "pipeline_get_node p name = map_of (pl_nodes p) name"

definition pipeline_dependencies :: "pipeline \<Rightarrow> (string, string set) dict" where
  "pipeline_dependencies p = map (\<lambda>(name, n). (name, set (sdk_upstreams n))) (pl_nodes p)"

section \<open>The execution order\<close>

definition check_upstream :: "(string, sdk_node) dict \<Rightarrow> string \<Rightarrow> string \<Rightarrow> unit \<Rightarrow> (unit, exn, unit) outcome" where
  "check_upstream ns name u s =
     (s, if has_key ns u then Inr ()
         else raises ValueError (''node '' @ name @ '' refers to the unknown upstream '' @ u))"

definition validate_dependencies :: "pipeline \<Rightarrow> bool res" where
  "validate_dependencies p =
     (case each (\<lambda>(name, n). each (check_upstream (pl_nodes p) name) (sdk_upstreams n)) (pl_nodes p) () of
        (_, Inl e) \<Rightarrow> Inl e
      | (_, Inr _) \<Rightarrow> Inr True)"

record order_state =
  colour :: "(string, nat) dict"
  sorted_names :: "string list"

definition paint :: "string \<Rightarrow> nat \<Rightarrow> order_state \<Rightarrow> order_state" where
  "paint name c s = s\<lparr>colour := AList.update name c (colour s)\<rparr>"

definition finish :: "string \<Rightarrow> order_state \<Rightarrow> order_state" where
  "finish name s = (paint name 2 s)\<lparr>sorted_names := sorted_names s @ [name]\<rparr>"

definition graph_deps :: "(string, string list) dict \<Rightarrow> string \<Rightarrow> string list" where
  "graph_deps g name = (case map_of g name of None \<Rightarrow> [] | Some us \<Rightarrow> us)"

fun order_dfs :: "(string, string list) dict \<Rightarrow> nat \<Rightarrow> string \<Rightarrow> order_state \<Rightarrow> (order_state, exn, unit) outcome" where
  "order_dfs g 0 name s = (s, raises RecursionError ''maximum recursion depth exceeded'')"
| "order_dfs g (Suc k) name s =
     (case map_of (colour s) name of
        None \<Rightarrow> (s, raises KeyError name)
      | Some c \<Rightarrow>
          if c = 2 then (s, Inr ())
          else if c = 1 then (s, raises ValueError (''cyclic dependency: '' @ name))
          else and_then (each (order_dfs g k) (graph_deps g name) (paint name 1 s)) (\<lambda>_ t. (finish name t, Inr ())))"

text \<open>The keys of \<open>visited\<close> are those of the graph, so reading \<open>visited[node]\<close> in the driver loop never fails.\<close>

definition order_drive :: "(string, string list) dict \<Rightarrow> nat \<Rightarrow> string \<Rightarrow> order_state \<Rightarrow> (order_state, exn, unit) outcome" where
  "order_drive g k name s =
     (if map_of (colour s) name = Some 0 \<or> map_of (colour s) name = None then order_dfs g k name s else (s, Inr ()))"

definition order_graph :: "(string list \<Rightarrow> string list) \<Rightarrow> pipeline \<Rightarrow> (string, string list) dict" where
  "order_graph ord p = map (\<lambda>(name, n). (name, ord (sdk_upstreams n))) (pl_nodes p)"

definition order_start :: "(string, string list) dict \<Rightarrow> order_state" where
  "order_start g = \<lparr>colour = map (\<lambda>(name, _). (name, 0)) g, sorted_names = []\<rparr>"

definition topological_sort :: "nat \<Rightarrow> (string list \<Rightarrow> string list) \<Rightarrow> pipeline \<Rightarrow> string list res" where
  "topological_sort k ord p =
     bind_res (validate_dependencies p) (\<lambda>_.
       let g = order_graph ord p in
       case each (order_drive g k) (map fst g) (order_start g) of
         (_, Inl e) \<Rightarrow> Inl e
       | (s, Inr _) \<Rightarrow> Inr (sorted_names s))"

definition ensure_order :: "nat \<Rightarrow> (string list \<Rightarrow> string list) \<Rightarrow> pipeline \<Rightarrow> (pipeline, exn, unit) outcome" where
  "ensure_order k ord p =
     (if pl_order p = [] then
        (case topological_sort k ord p of
           Inl e \<Rightarrow> (p, Inl e)
         | Inr order \<Rightarrow> (p\<lparr>pl_order := order\<rparr>, Inr ()))
      else (p, Inr ()))"

definition get_execution_order ::
  "nat \<Rightarrow> (string list \<Rightarrow> string list) \<Rightarrow> pipeline \<Rightarrow> (pipeline, exn, string list) outcome" where
  "get_execution_order k ord p = and_then (ensure_order k ord p) (\<lambda>_ p'. (p', Inr (pl_order p')))"

section \<open>The execution order is correct\<close>

definition set_order :: "(string list \<Rightarrow> string list) \<Rightarrow> bool" where
  "set_order ord \<longleftrightarrow> (\<forall>us. set (ord us) = set us \<and> distinct (ord us))"

definition is_cycle_error :: "exn \<Rightarrow> bool" where
  "is_cycle_error e \<longleftrightarrow> (\<exists>name. e = exn_of ValueError (''cyclic dependency: '' @ name))"

definition coloured :: "nat \<Rightarrow> order_state \<Rightarrow> string set" where
  "coloured c s = {name. map_of (colour s) name = Some c}"

definition order_inv :: "(string, string list) dict \<Rightarrow> order_state \<Rightarrow> bool" where
  "order_inv g s \<longleftrightarrow> (\<forall>name. has_key (colour s) name \<longleftrightarrow> has_key g name) \<and>
     (\<forall>name c. map_of (colour s) name = Some c \<longrightarrow> c \<le> 2)"

lemma paint_simps [simp]:
  "colour (paint name c s) = AList.update name c (colour s)" "sorted_names (paint name c s) = sorted_names s"
  "colour (finish name s) = AList.update name 2 (colour s)"
  "sorted_names (finish name s) = sorted_names s @ [name]"
  by (simp_all add: paint_def finish_def)

interpretation sorter: dfs_topo "graph_deps g" "has_key g" "order_inv g" "coloured 1" "coloured 2"
  "\<lambda>name. paint name 1" finish is_cycle_error "\<lambda>name s. \<exists>c. map_of (colour s) name = Some (Suc c)"
  "order_dfs g" sorted_names
  for g
proof (unfold_locales, goal_cases)
  case (1 s)
  then show ?case by (auto simp: coloured_def)
next
  case (2 n s)
  then show ?case by (simp add: is_cycle_error_def)
next
  case (3 s n k)
  then show ?case by (simp add: coloured_def)
next
  case (4 s n k)
  then show ?case by (auto simp: coloured_def is_cycle_error_def)
next
  case (5 s n k)
  then have "\<not> has_key (colour s) n" by (simp add: order_inv_def)
  then have "map_of (colour s) n = None" by (simp add: has_key_def)
  then show ?case by (auto simp: is_cycle_error_def)
next
  case (6 s n k)
  then have "has_key (colour s) n" by (simp add: order_inv_def)
  then obtain c where "map_of (colour s) n = Some c" by (auto simp: has_key_def)
  with 6 show ?case by (auto simp: coloured_def)
next
  case (7 s n)
  then show ?case by (auto simp: order_inv_def coloured_def split: if_splits)
next
  case (8 s n)
  then show ?case by (auto simp: order_inv_def coloured_def split: if_splits)
next
  case (9 s n)
  then obtain c where c: "map_of (colour s) n = Some (Suc c)" by auto
  have "Suc c \<le> 2" using 9(1) c unfolding order_inv_def by blast
  moreover have "n \<notin> coloured 1 s" using 9(2) by simp
  then have "Suc c \<noteq> 1" using c by (auto simp: coloured_def)
  ultimately have "Suc c = 2" by linarith
  then show ?case using c by (simp add: coloured_def)
qed simp_all

abbreviation sort_skip :: "string \<Rightarrow> order_state \<Rightarrow> bool" where
  "sort_skip name s \<equiv> \<exists>c. map_of (colour s) name = Some (Suc c)"

lemma order_driver: "order_drive g k = dfs_search.drive sort_skip (order_dfs g) k"
proof (intro ext)
  fix name s
  have "sort_skip name s \<longleftrightarrow> \<not> (map_of (colour s) name = Some 0 \<or> map_of (colour s) name = None)"
    by (cases "map_of (colour s) name") (auto simp: not0_implies_Suc)
  then show "order_drive g k name s = dfs_search.drive sort_skip (order_dfs g) k name s"
    unfolding order_drive_def sorter.drive_def by (simp only: if_not_P if_P not_not split: if_split) blast
qed

lemma order_start:
  "order_inv g (order_start g)" "coloured 1 (order_start g) = {}" "coloured 2 (order_start g) = {}"
  "sorted_names (order_start g) = []"
proof -
  have m: "map_of (colour (order_start g)) name = (if has_key g name then Some 0 else None)" for name
  proof -
    have "map_of (map (\<lambda>(name, _). (name, 0)) g) name = (if has_key g name then Some 0 else None)"
      by (induction g) auto
    then show ?thesis by (simp add: order_start_def)
  qed
  then show "order_inv g (order_start g)" by (auto simp: order_inv_def has_key_def split: if_splits)
  show "coloured 1 (order_start g) = {}" "coloured 2 (order_start g) = {}"
    using m by (auto simp: coloured_def)
  show "sorted_names (order_start g) = []" by (simp add: order_start_def)
qed

lemma each_check_upstream:
  "each (check_upstream ns name) us () =
     ((), if \<exists>u \<in> set us. \<not> has_key ns u
          then raises ValueError (''node '' @ name @ '' refers to the unknown upstream '' @
                 hd (filter (\<lambda>u. \<not> has_key ns u) us))
          else Inr ())"
  by (induction us) (auto simp: check_upstream_def)

lemma check_upstreams_loop:
  "if \<exists>e \<in> set es. \<exists>u \<in> set (sdk_upstreams (snd e)). \<not> has_key ns u
   then \<exists>name u. each (\<lambda>(name, n). each (check_upstream ns name) (sdk_upstreams n)) es () =
     ((), raises ValueError (''node '' @ name @ '' refers to the unknown upstream '' @ u))
   else each (\<lambda>(name, n). each (check_upstream ns name) (sdk_upstreams n)) es () = ((), Inr ())"
proof (induction es)
  case Nil
  then show ?case by simp
next
  case (Cons e es)
  let ?body = "\<lambda>(name, n). each (check_upstream ns name) (sdk_upstreams n)"
  have one: "if \<exists>u \<in> set (sdk_upstreams (snd e)). \<not> has_key ns u
      then \<exists>name u. ?body e () = ((), raises ValueError (''node '' @ name @ '' refers to the unknown upstream '' @ u))
      else ?body e () = ((), Inr ())"
    by (cases e) (simp only: each_check_upstream prod.case snd_conv split: if_split, blast)
  show ?case
  proof (cases "\<exists>u \<in> set (sdk_upstreams (snd e)). \<not> has_key ns u")
    case True
    with one obtain name u where
      "?body e () = ((), raises ValueError (''node '' @ name @ '' refers to the unknown upstream '' @ u))" by auto
    then have "each ?body (e # es) () = ((), raises ValueError (''node '' @ name @ '' refers to the unknown upstream '' @ u))"
      by (simp only: each.simps prod.case sum.case)
    moreover have "\<exists>e \<in> set (e # es). \<exists>u \<in> set (sdk_upstreams (snd e)). \<not> has_key ns u"
      using True by (meson list.set_intros(1))
    ultimately show ?thesis by (simp only: if_True) blast
  next
    case False
    with one have "?body e () = ((), Inr ())" by (simp only: if_False)
    then have e: "each ?body (e # es) () = each ?body es ()"
      by (simp only: each.simps prod.case sum.case)
    have c: "(\<exists>x \<in> set (e # es). \<exists>u \<in> set (sdk_upstreams (snd x)). \<not> has_key ns u) \<longleftrightarrow>
        (\<exists>x \<in> set es. \<exists>u \<in> set (sdk_upstreams (snd x)). \<not> has_key ns u)"
      using False by simp
    show ?thesis unfolding c e by (rule Cons.IH)
  qed
qed

lemma unknown_upstream_iff:
  assumes "dict_ok ns"
  shows "(\<exists>e \<in> set ns. \<exists>u \<in> set (sdk_upstreams (snd e)). \<not> has_key ns u) \<longleftrightarrow>
    (\<exists>name u. u \<in> set (upstreams_of ns name) \<and> \<not> has_key ns u)"
proof
  assume "\<exists>e \<in> set ns. \<exists>u \<in> set (sdk_upstreams (snd e)). \<not> has_key ns u"
  then obtain name n u where e: "(name, n) \<in> set ns" "u \<in> set (sdk_upstreams n)" "\<not> has_key ns u" by auto
  then have "map_of ns name = Some n" using map_of_in_set [OF assms] by simp
  then have "u \<in> set (upstreams_of ns name)" using e by (simp add: upstreams_of_def)
  with e show "\<exists>name u. u \<in> set (upstreams_of ns name) \<and> \<not> has_key ns u" by blast
next
  assume "\<exists>name u. u \<in> set (upstreams_of ns name) \<and> \<not> has_key ns u"
  then obtain name u where u: "u \<in> set (upstreams_of ns name)" "\<not> has_key ns u" by blast
  then obtain n where e: "map_of ns name = Some n" "u \<in> set (sdk_upstreams n)" "\<not> has_key ns u"
    by (cases "map_of ns name") (simp_all add: upstreams_of_def)
  then have "(name, n) \<in> set ns" by (simp add: map_of_SomeD)
  with e show "\<exists>e \<in> set ns. \<exists>u \<in> set (sdk_upstreams (snd e)). \<not> has_key ns u" by force
qed

lemma validate_dependencies_spec:
  assumes "dict_ok (pl_nodes p)"
  shows "if \<exists>name u. u \<in> set (upstreams_of (pl_nodes p) name) \<and> \<not> has_key (pl_nodes p) u
    then \<exists>name u. validate_dependencies p = raises ValueError (''node '' @ name @ '' refers to the unknown upstream '' @ u)
    else validate_dependencies p = Inr True"
proof (cases "\<exists>name u. u \<in> set (upstreams_of (pl_nodes p) name) \<and> \<not> has_key (pl_nodes p) u")
  case True
  with check_upstreams_loop [of "pl_nodes p" "pl_nodes p", unfolded unknown_upstream_iff [OF assms]]
  obtain name u where "each (\<lambda>(name, n). each (check_upstream (pl_nodes p) name) (sdk_upstreams n)) (pl_nodes p) () =
      ((), raises ValueError (''node '' @ name @ '' refers to the unknown upstream '' @ u))" by auto
  then have "validate_dependencies p = raises ValueError (''node '' @ name @ '' refers to the unknown upstream '' @ u)"
    by (simp only: validate_dependencies_def prod.case sum.case)
  with True show ?thesis by (simp only: if_True) blast
next
  case False
  with check_upstreams_loop [of "pl_nodes p" "pl_nodes p", unfolded unknown_upstream_iff [OF assms]]
  have "each (\<lambda>(name, n). each (check_upstream (pl_nodes p) name) (sdk_upstreams n)) (pl_nodes p) () = ((), Inr ())"
    by (simp only: if_False)
  then have "validate_dependencies p = Inr True" by (simp add: validate_dependencies_def)
  with False show ?thesis by (simp only: if_False)
qed

lemma topo_order_cong:
  assumes "\<And>n. set (deps n) = set (deps' n)"
  shows "topo_order deps xs = topo_order deps' xs"
proof -
  have "topo_from deps S xs = topo_from deps' S xs" for S
    using assms by (induction xs arbitrary: S) auto
  then show ?thesis by (simp add: topo_order_def)
qed

lemma graph_keys: "map fst (order_graph ord p) = map fst (pl_nodes p)"
  by (simp add: order_graph_def split_beta)

lemma graph_has_key: "has_key (order_graph ord p) name \<longleftrightarrow> name \<in> fst ` set (pl_nodes p)"
  by (metis graph_keys has_key_iff list.set_map)

lemma graph_deps_set:
  assumes "set_order ord"
  shows "set (graph_deps (order_graph ord p) name) = set (upstreams_of (pl_nodes p) name)"
proof -
  have "map_of (order_graph ord p) name = map_option (ord \<circ> sdk_upstreams) (map_of (pl_nodes p) name)"
    by (simp add: order_graph_def map_of_map comp_def)
  then show ?thesis
    using assms by (simp add: graph_deps_def upstreams_of_def set_order_def split: option.split)
qed

lemma order_search_ok:
  assumes "set_order ord"
    and "each (dfs_search.drive sort_skip (order_dfs (order_graph ord p)) k) (map fst (order_graph ord p))
      (order_start (order_graph ord p)) = (s, Inr ())"
  shows "topo_order (upstreams_of (pl_nodes p)) (sorted_names s) \<and> set (sorted_names s) = fst ` set (pl_nodes p)"
proof
  note t = sorter.drive_topo_order [OF assms(2) order_start]
  show "topo_order (upstreams_of (pl_nodes p)) (sorted_names s)"
    using t(1) topo_order_cong [OF graph_deps_set [OF assms(1)]] by simp
  show "set (sorted_names s) = fst ` set (pl_nodes p)"
    using t(2,3) graph_has_key graph_keys by (metis list.set_map subsetI subset_antisym)
qed

lemma topological_sort_ok:
  assumes "topological_sort k ord p = Inr order" "set_order ord"
  shows "topo_order (upstreams_of (pl_nodes p)) order \<and> set order = fst ` set (pl_nodes p)"
proof -
  from assms(1) obtain s where s: "sorted_names s = order"
    "each (order_drive (order_graph ord p) k) (map fst (order_graph ord p)) (order_start (order_graph ord p)) = (s, Inr ())"
    by (auto simp: topological_sort_def bind_res_Inr Let_def split: prod.splits sum.splits)
  from order_search_ok [OF assms(2) s(2) [unfolded order_driver]] s(1) show ?thesis by simp
qed

lemma known_upstreams_order:
  assumes "set_order ord" "length (pl_nodes p) < k" "validate_dependencies p = Inr True"
    and known_up: "\<not> (\<exists>name u. u \<in> set (upstreams_of (pl_nodes p) name) \<and> \<not> has_key (pl_nodes p) u)"
  shows "if acyclic (dep_edges (upstreams_of (pl_nodes p)) (fst ` set (pl_nodes p)))
    then \<exists>order. topological_sort k ord p = Inr order \<and> distinct order \<and>
      set order = fst ` set (pl_nodes p) \<and> topo_order (upstreams_of (pl_nodes p)) order
    else \<exists>name. topological_sort k ord p = raises ValueError (''cyclic dependency: '' @ name)"
proof -
  let ?g = "order_graph ord p" and ?V = "fst ` set (pl_nodes p)" and ?up = "upstreams_of (pl_nodes p)"
  note known = graph_has_key [of ord p] and deps = graph_deps_set [OF assms(1), of p]
  have edges: "dep_edges (graph_deps ?g) V = dep_edges ?up V" for V
    by (auto simp: dep_edges_def deps)
  obtain s r where run: "each (dfs_search.drive sort_skip (order_dfs ?g) k) (map fst ?g) (order_start ?g) = (s, r)"
    by fastforce
  then have sort: "topological_sort k ord p = (case r of Inl e \<Rightarrow> Inl e | Inr _ \<Rightarrow> Inr (sorted_names s))"
    by (simp add: topological_sort_def assms(3) order_driver Let_def)
  show ?thesis
  proof (cases r)
    case (Inr x)
    with run have ok: "each (dfs_search.drive sort_skip (order_dfs ?g) k) (map fst ?g) (order_start ?g) = (s, Inr ())"
      by simp
    then have topo: "topo_order ?up (sorted_names s)" and names: "set (sorted_names s) = ?V"
      using order_search_ok [OF assms(1)] by blast+
    then have "acyclic (dep_edges ?up ?V)" using topo_order_acyclic [OF topo] names by simp
    with topo names show ?thesis using sort Inr by (auto dest: topo_order_distinct)
  next
    case (Inl e)
    with run have loop: "each (dfs_search.drive sort_skip (order_dfs ?g) k) (map fst ?g) (order_start ?g) = (s, Inl e)"
      by simp
    have closed: "has_key ?g m \<and> set (graph_deps ?g m) \<subseteq> ?V" if "m \<in> ?V" for m
    proof
      show "has_key ?g m" using that known by blast
      show "set (graph_deps ?g m) \<subseteq> ?V" using known_up by (auto simp: deps has_key_iff)
    qed
    have "card ?V < k"
      using assms(2) card_length [of "map fst (pl_nodes p)"] by simp
    moreover have "set (map fst ?g) \<subseteq> ?V" using graph_keys by (metis list.set_map order_refl)
    ultimately have cyc: "is_cycle_error e"
      using sorter.drive_enough [OF _ closed _ _ order_start(1,2) loop] by simp
    from sorter.drive_cycle [OF loop cyc order_start(1,2)]
    have "\<not> acyclic (dep_edges ?up (Collect (has_key ?g)))" by (simp add: edges)
    moreover have "Collect (has_key ?g) = ?V" using known by blast
    ultimately have "\<not> acyclic (dep_edges ?up ?V)" by simp
    moreover obtain name where "topological_sort k ord p = raises ValueError (''cyclic dependency: '' @ name)"
      using sort Inl cyc by (auto simp: is_cycle_error_def)
    ultimately show ?thesis by auto
  qed
qed

text \<open>
  C3: with enough stack the execution order of a pipeline lists each node once, after all its
  upstreams, exactly when every upstream is a node of the pipeline and the dependencies are
  acyclic, whatever order the sets of upstreams are iterated in; an unknown upstream and a cycle
  are each reported by a \<open>ValueError\<close> of their own. Query nodes do not count as nodes.
\<close>
theorem execution_order_correct:
  assumes "set_order ord" "dict_ok (pl_nodes p)" "length (pl_nodes p) < k"
  shows "if \<exists>name u. u \<in> set (upstreams_of (pl_nodes p) name) \<and> \<not> has_key (pl_nodes p) u
    then \<exists>name u. topological_sort k ord p =
      raises ValueError (''node '' @ name @ '' refers to the unknown upstream '' @ u)
    else if acyclic (dep_edges (upstreams_of (pl_nodes p)) (fst ` set (pl_nodes p)))
    then \<exists>order. topological_sort k ord p = Inr order \<and> distinct order \<and>
      set order = fst ` set (pl_nodes p) \<and> topo_order (upstreams_of (pl_nodes p)) order
    else \<exists>name. topological_sort k ord p = raises ValueError (''cyclic dependency: '' @ name)"
proof (cases "\<exists>name u. u \<in> set (upstreams_of (pl_nodes p) name) \<and> \<not> has_key (pl_nodes p) u")
  case True
  with validate_dependencies_spec [OF assms(2)] obtain name u where
    "validate_dependencies p = raises ValueError (''node '' @ name @ '' refers to the unknown upstream '' @ u)"
    by auto
  then have "topological_sort k ord p = raises ValueError (''node '' @ name @ '' refers to the unknown upstream '' @ u)"
    by (simp add: topological_sort_def)
  with True show ?thesis by (simp only: if_True) blast
next
  case False
  with validate_dependencies_spec [OF assms(2)] have "validate_dependencies p = Inr True"
    by (simp only: if_False)
  from known_upstreams_order [OF assms(1,3) this False] False show ?thesis by (simp only: if_False)
qed

definition set_order_demo :: "string list \<Rightarrow> string list" where
  "set_order_demo = remdups"

definition demo_pipeline :: pipeline where
  "demo_pipeline = (new_pipeline ''demo'' None [])\<lparr>pl_nodes := demo_nodes\<rparr>"

lemma demo_pipeline_simps:
  "pl_nodes demo_pipeline = demo_nodes" "dict_ok demo_nodes" "length demo_nodes = 3" "set_order set_order_demo"
  by (simp_all add: demo_pipeline_def demo_nodes_def dict_ok_def set_order_def set_order_demo_def)

theorem execution_order_correct_witness:
  "if \<exists>name u. u \<in> set (upstreams_of demo_nodes name) \<and> \<not> has_key demo_nodes u
    then \<exists>name u. topological_sort 4 set_order_demo demo_pipeline =
      raises ValueError (''node '' @ name @ '' refers to the unknown upstream '' @ u)
    else if acyclic (dep_edges (upstreams_of demo_nodes) (fst ` set demo_nodes))
    then \<exists>order. topological_sort 4 set_order_demo demo_pipeline = Inr order \<and> distinct order \<and>
      set order = fst ` set demo_nodes \<and> topo_order (upstreams_of demo_nodes) order
    else \<exists>name. topological_sort 4 set_order_demo demo_pipeline = raises ValueError (''cyclic dependency: '' @ name)"
  by (rule execution_order_correct [of set_order_demo demo_pipeline 4, unfolded demo_pipeline_simps(1)])
    (simp_all add: demo_pipeline_simps)

section \<open>Queries\<close>

text \<open>
  The attributes \<open>interval\<close> and \<open>period\<close> of a settings object; a dict has neither. A node without
  stream settings has no \<open>interval_settings\<close> attribute either, which the code would try next.
\<close>

definition any_setting :: "(interval_obj \<Rightarrow> bool) \<Rightarrow> sdk_node \<Rightarrow> bool" where
  "any_setting P n =
     (case sdk_settings n of
        None \<Rightarrow> False
      | Some ivs \<Rightarrow> list_ex (\<lambda>(_, st). case st of SettingObj ob \<Rightarrow> P ob | SettingDict _ \<Rightarrow> False) ivs)"

definition query_matches :: "query_node \<Rightarrow> sdk_node \<Rightarrow> bool" where
  "query_matches q n \<longleftrightarrow>
     list_all (\<lambda>t. t \<in> set (sdk_tags n)) (q_tags q) \<and>
     (case q_interval q of
        None \<Rightarrow> True
      | Some iv \<Rightarrow> iv = [] \<or> any_setting (\<lambda>ob. obj_interval ob = PStr iv) n) \<and>
     (\<not> py_truthy (q_period q) \<or> any_setting (\<lambda>ob. py_same (obj_period ob) (q_period q)) n)"

definition find_nodes_by_query :: "pipeline \<Rightarrow> query_node \<Rightarrow> sdk_node list" where
  "find_nodes_by_query p q = filter (query_matches q) (map snd (pl_nodes p))"

section \<open>Selectors\<close>

function (sequential) batches :: "nat \<Rightarrow> 'a list \<Rightarrow> 'a list list" where
  "batches b [] = []"
| "batches 0 (x # xs) = [[x]]"
| "batches (Suc b) (x # xs) = take (Suc b) (x # xs) # batches (Suc b) (drop (Suc b) (x # xs))"
  by pat_completeness auto
termination by (relation "measure (\<lambda>(b, xs). length xs)") auto

definition node_attr :: "sdk_node \<Rightarrow> string \<Rightarrow> pyval option" where
  "node_attr n k =
     map_of [(''name'', PStr (sdk_name n)), (''tags'', PList (map PStr (sdk_tags n))),
             (''upstreams'', PList (map PStr (sdk_upstreams n))),
             (''key_params'', PList (map PStr (sdk_key_params n))),
             (''kwargs'', PDict (sdk_kwargs n)), (''node_id'', PStr (sdk_id n))] k"

definition obj_attr :: "setting \<Rightarrow> string \<Rightarrow> pyval option" where
  "obj_attr st k =
     (case st of
        SettingObj ob \<Rightarrow>
          map_of [(''interval'', obj_interval ob), (''period'', obj_period ob), (''max_history'', obj_max_history ob)] k
      | SettingDict _ \<Rightarrow> None)"

definition attr_is :: "pyval option \<Rightarrow> pyval \<Rightarrow> bool" where
  "attr_is a v = (case a of None \<Rightarrow> False | Some w \<Rightarrow> py_same w v)"

text \<open>\<open>d.items()\<close> of a value that has to be a dict.\<close>

definition items_of :: "pyval \<Rightarrow> (string, pyval) dict res" where
  "items_of v = (case v of PDict d \<Rightarrow> Inr d | _ \<Rightarrow> raises AttributeError (''no attribute items''))"

fun match_intervals :: "intervals \<Rightarrow> (string, pyval) dict \<Rightarrow> bool res" where
  "match_intervals ivs [] = Inr True"
| "match_intervals ivs ((k, v) # ks) =
     (case map_of ivs k of
        None \<Rightarrow> Inr False
      | Some st \<Rightarrow>
          bind_res (items_of v) (\<lambda>attrs.
            if list_all (\<lambda>(a, w). attr_is (obj_attr st a) w) attrs then match_intervals ivs ks else Inr False))"

definition match_stream_settings :: "sdk_node \<Rightarrow> (string, pyval) dict \<Rightarrow> bool res" where
  "match_stream_settings n v =
     (case map_of v ''intervals'' of
        None \<Rightarrow> Inr True
      | Some w \<Rightarrow>
          (case sdk_settings n of
             None \<Rightarrow> Inr False
           | Some ivs \<Rightarrow> bind_res (items_of w) (match_intervals ivs)))"

definition match_interval_settings :: "sdk_node \<Rightarrow> (string, pyval) dict \<Rightarrow> bool" where
  "match_interval_settings n v =
     (case sdk_settings n of
        None \<Rightarrow> False
      | Some ivs \<Rightarrow> list_all (\<lambda>(a, w). list_ex (\<lambda>(_, st). attr_is (obj_attr st a) w) ivs) v)"

text \<open>
  The local function \<open>match\<close>: after a \<open>stream_settings\<close> or \<open>interval_settings\<close> entry that fits it
  returns at once. Their values are dicts.
\<close>

fun match_node :: "sdk_node \<Rightarrow> (string, pyval) dict \<Rightarrow> bool res" where
  "match_node n [] = Inr True"
| "match_node n ((k, v) # meta) =
     (if k = ''stream_settings'' then bind_res (items_of v) (match_stream_settings n)
      else if k = ''interval_settings'' then bind_res (items_of v) (\<lambda>d. Inr (match_interval_settings n d))
      else if attr_is (node_attr n k) v then match_node n meta else Inr False)"

fun filter_nodes :: "(string, pyval) dict \<Rightarrow> sdk_node list \<Rightarrow> sdk_node list res" where
  "filter_nodes meta [] = Inr []"
| "filter_nodes meta (n # ns) =
     bind_res (match_node n meta) (\<lambda>b. bind_res (filter_nodes meta ns) (\<lambda>ms. Inr (if b then n # ms else ms)))"

definition or_one :: "int option \<Rightarrow> int" where
  "or_one i = (case i of None \<Rightarrow> 1 | Some j \<Rightarrow> if j = 0 then 1 else j)"

fun apply_selectors ::
  "(nat \<Rightarrow> sdk_node list \<Rightarrow> sdk_node list) \<Rightarrow> sdk_node list \<Rightarrow> selector list \<Rightarrow> sdk_node list res" where
  "apply_selectors sample ns [] = Inr ns"
| "apply_selectors sample ns (s # ss) =
     (if sel_mode s = ''list'' then apply_selectors sample ns ss
      else if sel_mode s = ''batch'' then
        apply_selectors sample (if 0 < or_one (sel_batch s) then concat (batches (nat (or_one (sel_batch s))) ns) else []) ss
      else if sel_mode s = ''random'' then
        (if ns = [] then apply_selectors sample ns ss
         else if or_one (sel_sample s) < 0 then raises ValueError ''Sample larger than population or is negative''
         else apply_selectors sample (sample (nat (min (or_one (sel_sample s)) (int (length ns)))) ns) ss)
      else if sel_mode s = ''filter'' then bind_res (filter_nodes (sel_meta s) ns) (\<lambda>ms. apply_selectors sample ms ss)
      else apply_selectors sample ns ss)"

section \<open>Running a pipeline\<close>

definition pipeline_inputs :: "sdk_node \<Rightarrow> (string, pyval) dict \<Rightarrow> (string, pyval) dict res" where
  "pipeline_inputs n rs = collect_inputs (sdk_name n) rs (sdk_upstreams n) []"

fun query_results :: "(string, pyval) dict \<Rightarrow> sdk_node list \<Rightarrow> (string, pyval) dict \<Rightarrow> (string, pyval) dict res" where
  "query_results rs [] acc = Inr acc"
| "query_results rs (n # ns) acc =
     (case map_of rs (sdk_name n) of
        Some v \<Rightarrow> query_results rs ns (AList.update (sdk_name n) v acc)
      | None \<Rightarrow>
          bind_res (pipeline_inputs n rs) (\<lambda>inputs.
            case execute_node n inputs of
              Inr v \<Rightarrow> query_results rs ns (AList.update (sdk_name n) v acc)
            | Inl e \<Rightarrow> if caught e then query_results rs ns (AList.update (sdk_name n) PNone acc) else Inl e))"

definition selectors_for :: "(string, selector list) dict option \<Rightarrow> query_node \<Rightarrow> selector list" where
  "selectors_for sels q =
     (case sels of None \<Rightarrow> q_selectors q | Some d \<Rightarrow> (case map_of d (q_name q) of Some ss \<Rightarrow> ss | None \<Rightarrow> q_selectors q))"

fun run_queries ::
  "(nat \<Rightarrow> sdk_node list \<Rightarrow> sdk_node list) \<Rightarrow> pipeline \<Rightarrow> (string, selector list) dict option
     \<Rightarrow> (string, query_node) dict \<Rightarrow> (string, pyval) dict \<Rightarrow> (string, pyval) dict res" where
  "run_queries sample p sels [] acc = Inr acc"
| "run_queries sample p sels ((name, q) # qs) acc =
     bind_res (apply_selectors sample (find_nodes_by_query p q) (selectors_for sels q)) (\<lambda>ns.
     bind_res (query_results (pl_cache p) ns []) (\<lambda>rs.
       run_queries sample p sels qs (AList.update name (PDict rs) acc)))"

record run_options =
  opt_inputs :: "(string, pyval) dict option"
  opt_timeout :: "real option"
  opt_background :: bool
  opt_parallel :: bool
  opt_selectors :: "(string, selector list) dict option"

text \<open>The engine is a new object, but its history and cache are class variables and stay.\<close>

definition run_pipeline ::
  "nat \<Rightarrow> (string list \<Rightarrow> string list) \<Rightarrow> (nat \<Rightarrow> sdk_node list \<Rightarrow> sdk_node list) \<Rightarrow> clock \<Rightarrow> run_options
     \<Rightarrow> pipeline \<times> engine \<Rightarrow> (pipeline \<times> engine, exn, (string, pyval) dict) outcome" where
  "run_pipeline k ord sample clock opts pe =
     (case pe of (p, s) \<Rightarrow>
        case ensure_order k ord p of
          (p1, Inl e) \<Rightarrow> ((p1, s), Inl e)
        | (p1, Inr _) \<Rightarrow>
            (case run_queries sample p1 (opt_selectors opts) (pl_query p1) [] of
               Inl e \<Rightarrow> ((p1, s), Inl e)
             | Inr qrs \<Rightarrow>
                 if opt_parallel opts \<or> opt_background opts
                 then ((p1, s), raises NotImplementedError ''only LocalExecutionEngine is supported'')
                 else
                   (case execute_pipeline clock (pl_nodes p1) (pl_order p1) (opt_inputs opts) (opt_timeout opts)
                           (s\<lparr>results := [], exec_times := []\<rparr>) of
                      (s1, Inl e) \<Rightarrow> ((p1, s1), Inl e)
                    | (s1, Inr rs) \<Rightarrow>
                        ((p1\<lparr>pl_cache := rs, pl_engine := True\<rparr>, s1), Inr (dict_update rs qrs)))))"

section \<open>History of a pipeline\<close>

text \<open>
  \<open>remote\<close> is the \<open>get_history\<close> of a Redis state manager for a URI, node id, interval, count and
  time bounds. Locally the items of the engine are shown with their repeated values removed.
\<close>

definition engine_item :: "item \<Rightarrow> (string, pyval) dict" where
  "engine_item it =
     [(''timestamp'', PFloat (it_time it)), (''value'', it_value it),
      (''expires_at'', case it_expires it of None \<Rightarrow> PNone | Some t \<Rightarrow> PFloat t)]"

definition pipeline_get_history ::
  "(string \<Rightarrow> string \<Rightarrow> string \<Rightarrow> int \<Rightarrow> int option \<Rightarrow> int option \<Rightarrow> pyval list res) \<Rightarrow> pipeline \<Rightarrow> engine
     \<Rightarrow> string \<Rightarrow> string \<Rightarrow> int \<Rightarrow> int option \<Rightarrow> int option \<Rightarrow> string \<Rightarrow> pyval list res" where
  "pipeline_get_history remote p s name iv cnt t0 t1 uri =
     (case map_of (pl_nodes p) name of
        None \<Rightarrow> raises ValueError (''unknown node: '' @ name)
      | Some n \<Rightarrow>
          if uri \<noteq> [] \<and> uri \<noteq> ''local'' then
            (case remote uri (sdk_id n) iv cnt t0 t1 of Inl e \<Rightarrow> (if caught e then Inr [] else Inl e) | Inr vs \<Rightarrow> Inr vs)
          else
            (case map_of (pl_cache p) name of
               Some v \<Rightarrow> Inr [v]
             | None \<Rightarrow>
                 bind_res (if sdk_kind n = Processing then node_get_history n iv cnt else Inr []) (\<lambda>vs.
                   if vs \<noteq> [] then Inr vs
                   else
                     (case (if pl_engine p then history_of s name iv else None) of
                        Some items \<Rightarrow>
                          bind_res (unique_items (map engine_item items) []) (\<lambda>us. Inr (last_reversed cnt (map item_value us)))
                      | None \<Rightarrow>
                          (case map_of (sdk_cache n) iv of
                             Some items \<Rightarrow> bind_res (unique_items items []) (\<lambda>us. Inr (last_reversed cnt (map item_value us)))
                           | None \<Rightarrow> Inr [])))))"

text \<open>If the first item is a dict with a value, the values alone.\<close>

fun value_of_item :: "pyval \<Rightarrow> pyval res" where
  "value_of_item (PDict d) = (case map_of d ''value'' of Some v \<Rightarrow> Inr v | None \<Rightarrow> raises KeyError ''value'')"
| "value_of_item _ = raises TypeError ''indices must be integers''"

fun values_of_items :: "pyval list \<Rightarrow> pyval list res" where
  "values_of_items [] = Inr []"
| "values_of_items (v # vs) = bind_res (value_of_item v) (\<lambda>x. bind_res (values_of_items vs) (\<lambda>xs. Inr (x # xs)))"

definition pipeline_get_interval_data ::
  "(string \<Rightarrow> string \<Rightarrow> string \<Rightarrow> int \<Rightarrow> int option \<Rightarrow> int option \<Rightarrow> pyval list res) \<Rightarrow> pipeline \<Rightarrow> engine
     \<Rightarrow> string \<Rightarrow> string \<Rightarrow> int \<Rightarrow> int option \<Rightarrow> int option \<Rightarrow> string \<Rightarrow> pyval list res" where
  "pipeline_get_interval_data remote p s name iv cnt t0 t1 uri =
     bind_res (pipeline_get_history remote p s name iv cnt t0 t1 uri) (\<lambda>h.
       case h of
         PDict d # _ \<Rightarrow> if has_key d ''value'' then values_of_items h else Inr h
       | _ \<Rightarrow> Inr h)"

text \<open>\<open>remote\<close> is now the \<open>get_history_metadata\<close> of the state manager.\<close>

definition pipeline_node_metadata ::
  "(string \<Rightarrow> string \<Rightarrow> string \<Rightarrow> (string, pyval) dict res) \<Rightarrow> pipeline \<Rightarrow> engine \<Rightarrow> string \<Rightarrow> string \<Rightarrow> string
     \<Rightarrow> (string, pyval) dict res" where
  "pipeline_node_metadata remote p s name iv uri =
     (case map_of (pl_nodes p) name of
        None \<Rightarrow> raises ValueError (''unknown node: '' @ name)
      | Some n \<Rightarrow>
          (case history_of s name iv of
             Some xs \<Rightarrow>
               Inr [(''count'', PInt (int (length xs))),
                    (''last_update'', if xs = [] then PNone else PFloat (it_time (hd xs))),
                    (''source'', PStr ''local'')]
           | None \<Rightarrow>
               (case remote uri (sdk_id n) iv of
                  Inl e \<Rightarrow>
                    if caught e then Inr [(''count'', PInt 0), (''last_update'', PNone), (''source'', PStr ''none'')] else Inl e
                | Inr meta \<Rightarrow>
                    if meta \<noteq> [] then Inr (AList.update ''source'' (PStr ''redis'') meta)
                    else Inr [(''count'', PInt 0), (''last_update'', PNone), (''source'', PStr ''none'')])))"

text \<open>\<open>to_proto\<close> gives the protobuf message of stream settings.\<close>

definition node_to_definition :: "(intervals \<Rightarrow> pyval) \<Rightarrow> sdk_node \<Rightarrow> pyval" where
  "node_to_definition to_proto n =
     PDict [(''name'', PStr (sdk_name n)), (''node_id'', PStr (sdk_id n)),
            (''tags'', PList (map PStr (sdk_tags n))), (''upstreams'', PList (map PStr (sdk_upstreams n))),
            (''key_params'', PList (map PStr (sdk_key_params n))),
            (''stream_settings'', case sdk_settings n of None \<Rightarrow> PDict [] | Some ivs \<Rightarrow> to_proto ivs)]"

definition query_to_definition :: "(intervals \<Rightarrow> pyval) \<Rightarrow> query_node \<Rightarrow> pyval" where
  "query_to_definition to_proto q =
     PDict [(''name'', PStr (q_name q)), (''node_id'', PStr (q_name q)),
            (''tags'', PList (map PStr (q_tags q))), (''upstreams'', PList []), (''key_params'', PList []),
            (''stream_settings'', case q_settings q of None \<Rightarrow> PDict [] | Some ivs \<Rightarrow> to_proto ivs),
            (''interval'', case q_interval q of None \<Rightarrow> PNone | Some iv \<Rightarrow> PStr iv),
            (''period'', q_period q), (''query_tags'', PList (map PStr (q_tags q)))]"

definition pipeline_to_definition :: "(intervals \<Rightarrow> pyval) \<Rightarrow> pipeline \<Rightarrow> pyval" where
  "pipeline_to_definition to_proto p =
     PDict [(''name'', PStr (pl_name p)),
            (''nodes'', PList (map (node_to_definition to_proto \<circ> snd) (pl_nodes p))),
            (''query_nodes'', PList (map (query_to_definition to_proto \<circ> snd) (pl_query p))),
            (''metadata'', PDict (pl_kwargs p))]"

section \<open>What adding a node guarantees\<close>

definition setting_ok :: "setting \<Rightarrow> bool" where
  "setting_ok st \<longleftrightarrow> period_of st \<noteq> PNone \<and> py_truthy (interval_field st)"

definition settings_ok :: "intervals option \<Rightarrow> bool" where
  "settings_ok s = (case s of None \<Rightarrow> False | Some ivs \<Rightarrow> ivs \<noteq> [] \<and> list_all (\<lambda>(_, st). setting_ok st) ivs)"

definition pipeline_ok :: "pipeline \<Rightarrow> bool" where
  "pipeline_ok p \<longleftrightarrow> dict_ok (pl_nodes p) \<and> dict_ok (pl_query p) \<and> names_ok (pl_nodes p) \<and>
     (\<forall>n \<in> snd ` set (pl_nodes p). settings_ok (sdk_settings n)) \<and>
     (\<forall>q \<in> snd ` set (pl_query p). settings_ok (q_settings q))"

lemma check_periods_ok: "check_periods name ivs = Inr () \<longleftrightarrow> (\<forall>(_, st) \<in> set ivs. period_of st \<noteq> PNone)"
  by (induction ivs) (auto split: if_splits)

lemma check_interval_fields_ok: "check_interval_fields name ivs = Inr () \<longleftrightarrow> (\<forall>(_, st) \<in> set ivs. py_truthy (interval_field st))"
  by (induction ivs) (auto split: if_splits)

lemma dict_ok_dict_update: "dict_ok d \<Longrightarrow> dict_ok (dict_update d e)"
proof -
  have "dict_ok d \<Longrightarrow> dict_ok (fold (\<lambda>(k, v). AList.update k v) e d)" for d :: "('a, 'b) dict"
    by (induction e arbitrary: d) auto
  then show "dict_ok d \<Longrightarrow> dict_ok (dict_update d e)" by (simp add: dict_update_def)
qed

lemma map_of_dict_update:
  assumes "dict_ok e"
  shows "map_of (dict_update d e) k = (case map_of e k of None \<Rightarrow> map_of d k | Some v \<Rightarrow> Some v)"
proof -
  have "dict_ok e \<Longrightarrow> map_of (fold (\<lambda>(k, v). AList.update k v) e d) k =
      (case map_of e k of None \<Rightarrow> map_of d k | Some v \<Rightarrow> Some v)"
  proof (induction e arbitrary: d)
    case Nil
    then show ?case by simp
  next
    case (Cons x e)
    then have "dict_ok e" "map_of e (fst x) = None" by (auto simp: dict_ok_def map_of_eq_None_iff)
    with Cons.IH [OF this(1)] show ?case by (cases x) (auto split: option.split)
  qed
  with assms show ?thesis by (simp add: dict_update_def)
qed

lemma merge_default_ok: "merge_default e ivs = (ivs', r) \<Longrightarrow> dict_ok ivs \<Longrightarrow> dict_ok ivs'"
  by (cases e) (auto simp: merge_default_def split: option.splits if_splits sum.splits)

lemma each_merge_ok: "each merge_default ds ivs = (ivs', r) \<Longrightarrow> dict_ok ivs \<Longrightarrow> dict_ok ivs'"
  by (induction ds arbitrary: ivs) (auto split: prod.splits sum.splits dest: merge_default_ok)

text \<open>Settings are dicts; a successful \<open>apply_default_intervals\<close> leaves only complete settings.\<close>

definition intervals_ok :: "intervals option \<Rightarrow> bool" where
  "intervals_ok s = (case s of None \<Rightarrow> True | Some ivs \<Rightarrow> dict_ok ivs)"

lemma apply_default_settings_ok:
  assumes "apply_default_intervals new_settings ds name s = (s', Inr ())" "dict_ok ds" "intervals_ok s"
  shows "settings_ok s'"
proof -
  obtain ivs where s': "s' = Some ivs" and ne: "ivs \<noteq> []" and ok: "dict_ok ivs"
    and c: "check_periods name (dict_update ds ivs) = Inr ()" "check_interval_fields name ivs = Inr ()"
    using assms
    by (auto simp: apply_default_intervals_def merge_defaults_def bind_res_Inr intervals_ok_def
        split: if_splits prod.splits sum.splits option.splits list.splits dest: each_merge_ok)
  have "period_of st \<noteq> PNone" if "(k, st) \<in> set ivs" for k st
  proof -
    have "map_of ivs k = Some st" using that map_of_in_set [OF ok] by simp
    then have "map_of (dict_update ds ivs) k = Some st" by (simp add: map_of_dict_update [OF ok])
    then have "(k, st) \<in> set (dict_update ds ivs)"
      using map_of_in_set [OF dict_ok_dict_update [OF assms(2)]] by simp
    then show ?thesis using c(1) by (auto simp: check_periods_ok)
  qed
  with c(2) ne s' show ?thesis
    by (auto simp: settings_ok_def list_all_iff setting_ok_def check_interval_fields_ok)
qed

lemma pipeline_ok_add_node:
  assumes "pipeline_ok p" "dict_ok (pl_defaults p)" "intervals_ok (sdk_settings n)"
  shows "pipeline_ok (fst (pipeline_add_node new_settings n p)) \<and> pl_defaults (fst (pipeline_add_node new_settings n p)) = pl_defaults p"
proof (cases "has_key (pl_nodes p) (sdk_name n)")
  case True
  with assms(1) show ?thesis by (simp add: pipeline_add_node_def)
next
  case False
  obtain s' r where s': "apply_default_intervals new_settings (pl_defaults p) (sdk_name n) (sdk_settings n) = (s', r)" by fastforce
  show ?thesis
  proof (cases r)
    case (Inl e)
    with False s' assms(1) show ?thesis by (simp add: pipeline_add_node_def)
  next
    case (Inr u)
    with s' apply_default_settings_ok assms(2,3) have "settings_ok s'" by simp
    moreover have "fst (pipeline_add_node new_settings n p) =
        p\<lparr>pl_nodes := pl_nodes p @ [(sdk_name n, n\<lparr>sdk_settings := s'\<rparr>)], pl_order := []\<rparr>"
      using False s' Inr by (simp add: pipeline_add_node_def Let_def update_new)
    moreover have "dict_ok (pl_nodes p @ [(sdk_name n, n\<lparr>sdk_settings := s'\<rparr>)])"
      using assms(1) False by (auto simp: pipeline_ok_def dict_ok_def has_key_iff)
    moreover have "names_ok (pl_nodes p @ [(sdk_name n, n\<lparr>sdk_settings := s'\<rparr>)])"
      using assms(1) False by (auto simp: pipeline_ok_def names_ok_def map_add_def has_key_def split: option.splits)
    ultimately show ?thesis using assms(1) by (auto simp: pipeline_ok_def)
  qed
qed

lemma pipeline_ok_add_query:
  assumes "pipeline_ok p" "dict_ok (pl_defaults p)" "intervals_ok (q_settings q)"
  shows "pipeline_ok (fst (add_query_node new_settings q p)) \<and> pl_defaults (fst (add_query_node new_settings q p)) = pl_defaults p"
proof (cases "has_key (pl_nodes p) (q_name q) \<or> has_key (pl_query p) (q_name q)")
  case True
  with assms(1) show ?thesis by (auto simp: add_query_node_def)
next
  case False
  obtain s' r where s': "apply_default_intervals new_settings (pl_defaults p) (q_name q) (q_settings q) = (s', r)" by fastforce
  show ?thesis
  proof (cases r)
    case (Inl e)
    with False s' assms(1) show ?thesis by (simp add: add_query_node_def)
  next
    case (Inr u)
    with s' apply_default_settings_ok assms(2,3) have "settings_ok s'" by simp
    moreover have "fst (add_query_node new_settings q p) =
        p\<lparr>pl_query := pl_query p @ [(q_name q, q\<lparr>q_settings := s'\<rparr>)], pl_order := []\<rparr>"
      using False s' Inr by (simp add: add_query_node_def update_new)
    moreover have "dict_ok (pl_query p @ [(q_name q, q\<lparr>q_settings := s'\<rparr>)])"
      using assms(1) False by (auto simp: pipeline_ok_def dict_ok_def has_key_iff)
    ultimately show ?thesis using assms(1) by (auto simp: pipeline_ok_def)
  qed
qed

datatype build_op = AddNode sdk_node | AddQuery query_node

fun build_step :: "(intervals \<Rightarrow> unit res) \<Rightarrow> build_op \<Rightarrow> pipeline \<Rightarrow> pipeline" where
  "build_step new_settings (AddNode n) p = fst (pipeline_add_node new_settings n p)"
| "build_step new_settings (AddQuery q) p = fst (add_query_node new_settings q p)"

fun op_ok :: "build_op \<Rightarrow> bool" where
  "op_ok (AddNode n) = intervals_ok (sdk_settings n)"
| "op_ok (AddQuery q) = intervals_ok (q_settings q)"

text \<open>
  C32: a pipeline built by any sequence of additions, failed ones included, holds each node under
  its own name once, and every node and query node in it has at least one interval, each with a
  period and an interval field: an addition completes the settings from the defaults or is refused.
\<close>
theorem built_pipeline_ok:
  assumes "list_all op_ok ops" "dict_ok defaults"
  shows "pipeline_ok (fold (build_step new_settings) ops (new_pipeline name (Some defaults) kwargs))"
proof -
  have "pipeline_ok p \<Longrightarrow> pl_defaults p = defaults \<Longrightarrow>
      pipeline_ok (fold (build_step new_settings) ops p) \<and> pl_defaults (fold (build_step new_settings) ops p) = defaults" for p
    using assms(1)
  proof (induction ops arbitrary: p)
    case Nil
    then show ?case by simp
  next
    case (Cons x ops)
    have "pipeline_ok (build_step new_settings x p) \<and> pl_defaults (build_step new_settings x p) = defaults"
      using Cons.prems assms(2) pipeline_ok_add_node [of p _ new_settings] pipeline_ok_add_query [of p _ new_settings] by (cases x) auto
    with Cons show ?case by simp
  qed
  moreover have "pipeline_ok (new_pipeline name (Some defaults) kwargs)"
    "pl_defaults (new_pipeline name (Some defaults) kwargs) = defaults"
    by (simp_all add: new_pipeline_def pipeline_ok_def names_ok_def)
  ultimately show ?thesis by blast
qed

definition day_setting :: setting where
  "day_setting = SettingObj \<lparr>obj_interval = PStr ''1d'', obj_period = PInt 30, obj_max_history = PInt 100\<rparr>"

theorem built_pipeline_ok_witness:
  "pipeline_ok (fold (build_step (\<lambda>_. Inr ())) [AddNode (demo_source ''a'' 1), AddNode demo_node, AddNode demo_node]
     (new_pipeline ''demo'' (Some [(''1d'', day_setting)]) []))"
  by (rule built_pipeline_ok)
    (simp_all add: intervals_ok_def demo_source_def source_node_def demo_node_def dict_ok_def)

section \<open>Running is deterministic\<close>

lemma run_pipeline_ok:
  assumes "run_pipeline k ord sample clock opts (p, s) = (pe', Inr rs)"
    and "pl_order p = []" "pl_query p = []" "opt_timeout opts = None"
  obtains order s1 where "topological_sort k ord p = Inr order"
    "execute_pipeline clock (pl_nodes p) order (opt_inputs opts) None (s\<lparr>results := [], exec_times := []\<rparr>) = (s1, Inr rs)"
  using assms
  by (auto simp: run_pipeline_def ensure_order_def dict_update_def split: sum.splits prod.splits if_splits)

text \<open>
  C7: the result of running a pipeline is determined by its nodes and the inputs: two successful runs give every
  node the same result, whatever order sets of upstreams are iterated in, whatever time it is and
  whatever the engine has in its history. The result of a node without upstreams is its input when there are
  inputs (it is not run then, and has no result if it is given none); that of any other node is what its function gives on the
  results of its upstreams. The runs are without a timeout, the pipeline has no query nodes and has not computed its
  execution order before. As everywhere in the model a function, a source's \<open>fetch\<close> included, gives a result that
  depends on its arguments only. A run calls each at most once, so that for one run this says no more than
  what the call gave; that two runs agree is meant for functions that really are such.
\<close>
theorem pipeline_run_deterministic:
  assumes "run_pipeline k ord sample clock opts (p, s) = (pe1, Inr rs1)"
    and "run_pipeline k ord' sample clock' opts (p, s') = (pe2, Inr rs2)"
    and "set_order ord" "set_order ord'" "pipeline_ok p"
    and "pl_order p = []" "pl_query p = []" "opt_timeout opts = None"
    and "has_key (pl_nodes p) name"
  shows "map_of rs1 name = map_of rs2 name \<and> specified (pl_nodes p) (opt_inputs opts) rs1 name"
proof -
  have ok: "dict_ok (pl_nodes p)" "names_ok (pl_nodes p)" using assms(5) by (simp_all add: pipeline_ok_def)
  obtain order1 t1 where r1: "topological_sort k ord p = Inr order1"
    "execute_pipeline clock (pl_nodes p) order1 (opt_inputs opts) None (s\<lparr>results := [], exec_times := []\<rparr>) = (t1, Inr rs1)"
    using run_pipeline_ok [OF assms(1,6-8)] .
  obtain order2 t2 where r2: "topological_sort k ord' p = Inr order2"
    "execute_pipeline clock' (pl_nodes p) order2 (opt_inputs opts) None (s'\<lparr>results := [], exec_times := []\<rparr>) = (t2, Inr rs2)"
    using run_pipeline_ok [OF assms(2,6-8)] .
  note s1 = topological_sort_ok [OF r1(1) assms(3)] and s2 = topological_sort_ok [OF r2(1) assms(4)]
  have "name \<in> set order1" using s1 assms(9) by (simp add: has_key_iff)
  moreover have "set order2 = set order1" using s1 s2 by simp
  ultimately show ?thesis
    using results_agree [OF r1(2) r2(2) _ _ _ ok(2)] execute_pipeline_sound [OF r1(2) _ ok(2)] s1 s2 by blast
qed

definition plain_run :: run_options where
  "plain_run = \<lparr>opt_inputs = None, opt_timeout = None, opt_background = False, opt_parallel = False, opt_selectors = None\<rparr>"

definition demo_built :: pipeline where
  "demo_built = fold (build_step (\<lambda>_. Inr ())) [AddNode demo_node, AddNode (demo_source ''b'' 2), AddNode (demo_source ''a'' 1)]
     (new_pipeline ''demo'' (Some [(''1d'', day_setting)]) [])"

lemma merge_day: "merge_defaults [(k, day_setting)] [(k, day_setting)] = (Some [(k, day_setting)], Inr ())"
  by (simp add: merge_defaults_def merge_default_def day_setting_def)

lemma apply_day:
  "apply_default_intervals (\<lambda>_. Inr ()) [(k, day_setting)] name None = (Some [(k, day_setting)], Inr ())"
  "apply_default_intervals (\<lambda>_. Inr ()) [(k, day_setting)] name (Some [(k, day_setting)]) = (Some [(k, day_setting)], Inr ())"
  by (simp_all add: apply_default_intervals_def merge_day) (simp_all add: dict_update_def day_setting_def bind_res_def)

lemma demo_built_simps:
  "demo_built = \<lparr>pl_name = ''demo'', pl_kwargs = [],
     pl_nodes = [(''sum'', demo_node\<lparr>sdk_settings := Some [(''1d'', day_setting)]\<rparr>),
                 (''b'', (demo_source ''b'' 2)\<lparr>sdk_settings := Some [(''1d'', day_setting)]\<rparr>),
                 (''a'', (demo_source ''a'' 1)\<lparr>sdk_settings := Some [(''1d'', day_setting)]\<rparr>)],
     pl_query = [], pl_order = [], pl_cache = [], pl_defaults = [(''1d'', day_setting)], pl_engine = False\<rparr>"
  by (simp add: demo_built_def pipeline_add_node_def apply_day new_pipeline_def demo_node_def
      demo_source_def source_node_def Let_def)

lemma demo_orders:
  "topological_sort 5 remdups demo_built = Inr [''a'', ''b'', ''sum'']"
  "topological_sort 5 (rev \<circ> remdups) demo_built = Inr [''b'', ''a'', ''sum'']"
  by (simp_all add: demo_built_simps topological_sort_def validate_dependencies_def check_upstream_def Let_def
      order_graph_def order_start_def order_drive_def demo_node_def demo_source_def source_node_def
      graph_deps_def paint_def finish_def eval_nat_numeral)

lemma demo_pipeline_run:
  "snd (run_pipeline 5 remdups (\<lambda>_. id) (\<lambda>_. 0) plain_run (demo_built, new_engine)) =
     Inr [(''a'', PInt 1), (''b'', PInt 2), (''sum'', PInt 1)]"
  "snd (run_pipeline 5 (rev \<circ> remdups) (\<lambda>_. id) real plain_run (demo_built, new_engine)) =
     Inr [(''b'', PInt 2), (''a'', PInt 1), (''sum'', PInt 1)]"
  using demo_orders
  by (simp_all add: run_pipeline_def ensure_order_def plain_run_def demo_built_simps engine_defs demo_source_def
      source_node_def demo_node_def demo_fn_def args_multi_upstream_def add_kwargs_def dict_update_def
      day_setting_def enforce_interval_def take_py_def)

theorem pipeline_run_deterministic_witness:
  "computed (pl_nodes demo_built) [(''a'', PInt 1), (''b'', PInt 2), (''sum'', PInt 1)] ''sum'' (PInt 1)"
proof -
  obtain pe1 where a: "run_pipeline 5 remdups (\<lambda>_. id) (\<lambda>_. 0) plain_run (demo_built, new_engine) =
      (pe1, Inr [(''a'', PInt 1), (''b'', PInt 2), (''sum'', PInt 1)])"
    by (metis demo_pipeline_run(1) prod.collapse)
  obtain pe2 where b: "run_pipeline 5 (rev \<circ> remdups) (\<lambda>_. id) real plain_run (demo_built, new_engine) =
      (pe2, Inr [(''b'', PInt 2), (''a'', PInt 1), (''sum'', PInt 1)])"
    by (metis demo_pipeline_run(2) prod.collapse)
  have "set_order remdups" "set_order (rev \<circ> remdups)" by (simp_all add: set_order_def)
  moreover have "pipeline_ok demo_built"
    by (auto simp: demo_built_simps pipeline_ok_def dict_ok_def names_ok_def settings_ok_def setting_ok_def
        day_setting_def demo_node_def demo_source_def source_node_def)
  moreover have "pl_order demo_built = []" "pl_query demo_built = []" "has_key (pl_nodes demo_built) ''sum''"
    by (simp_all add: demo_built_simps)
  moreover have "opt_timeout plain_run = None" by (simp add: plain_run_def)
  ultimately have "specified (pl_nodes demo_built) (opt_inputs plain_run) [(''a'', PInt 1), (''b'', PInt 2), (''sum'', PInt 1)] ''sum''"
    using pipeline_run_deterministic [OF a b] by blast
  then show ?thesis by (simp add: specified_def plain_run_def)
qed

section \<open>Query nodes\<close>

text \<open>
  A query over nodes that have upstreams makes the first run of a pipeline fail: queries are
  answered before the engine runs and from the results of the previous run, of which there are
  none, so the inputs of the first matching node that has upstreams are missing.
\<close>
theorem first_query_fails:
  assumes "topological_sort k ord p = Inr order" "pl_order p = []" "pl_cache p = []"
    and "pl_query p = (qname, q) # qs" "q_selectors q = []" "opt_selectors opts = None"
    and "find_nodes_by_query p q = n # ns" "sdk_upstreams n \<noteq> []"
  shows "\<exists>msg p'. run_pipeline k ord sample clock opts (p, s) = ((p', s), raises ValueError msg)"
proof -
  obtain u us where u: "sdk_upstreams n = u # us" using assms(8) by (cases "sdk_upstreams n") auto
  let ?p = "p\<lparr>pl_order := order\<rparr>"
  let ?msg = "''no result of upstream '' @ u @ '' of node '' @ sdk_name n"
  have "find_nodes_by_query ?p q = n # ns" using assms(7) by (simp add: find_nodes_by_query_def)
  moreover have "selectors_for None q = []" using assms(5) by (simp add: selectors_for_def)
  ultimately have "run_queries sample ?p None ((qname, q) # qs) [] = raises ValueError ?msg"
    using assms(3) u by (simp add: pipeline_inputs_def)
  then have "run_pipeline k ord sample clock opts (p, s) = ((?p, s), raises ValueError ?msg)"
    using assms(1,2,4,6) by (simp add: run_pipeline_def ensure_order_def)
  then show ?thesis by blast
qed

definition demo_query :: query_node where
  "demo_query = \<lparr>q_name = ''q'', q_tags = [], q_interval = Some ''1d'', q_period = PNone,
     q_settings = Some [(''1d'', day_setting)], q_selectors = []\<rparr>"

theorem first_query_fails_witness:
  "\<exists>msg p'. run_pipeline 5 remdups (\<lambda>_. id) real plain_run (demo_built\<lparr>pl_query := [(''q'', demo_query)]\<rparr>, new_engine) =
     ((p', new_engine), raises ValueError msg)"
proof -
  let ?p = "demo_built\<lparr>pl_query := [(''q'', demo_query)]\<rparr>"
  have "topological_sort 5 remdups ?p = topological_sort 5 remdups demo_built"
    by (simp add: topological_sort_def validate_dependencies_def order_graph_def)
  then have order: "topological_sort 5 remdups ?p = Inr [''a'', ''b'', ''sum'']" using demo_orders by simp
  have nodes: "find_nodes_by_query ?p demo_query = map snd (pl_nodes demo_built)"
    by (simp add: find_nodes_by_query_def demo_built_simps query_matches_def demo_query_def any_setting_def day_setting_def)
  show ?thesis
    by (rule first_query_fails [OF order, of "''q''" demo_query "[]" plain_run
          "demo_node\<lparr>sdk_settings := Some [(''1d'', day_setting)]\<rparr>"])
      (use nodes in \<open>simp_all add: demo_built_simps demo_query_def plain_run_def demo_node_def\<close>)
qed

section \<open>Selectors\<close>

lemma concat_batches: "concat (batches (Suc b) xs) = xs"
  by (induction "Suc b" xs rule: batches.induct) (auto simp del: take_Suc_Cons drop_Suc_Cons)

lemma filter_nodes_subset: "filter_nodes meta ns = Inr ms \<Longrightarrow> set ms \<subseteq> set ns"
  by (induction ns arbitrary: ms) (auto simp: bind_res_Inr split: if_splits)

text \<open>
  Selectors only ever narrow the nodes a query found: whatever their modes and sizes, the
  result is a part of the nodes given, provided \<open>random.sample\<close> draws from its argument; the modes
  \<open>list\<close> and \<open>batch\<close> with a positive size change nothing at all, since the batches are flattened again.
\<close>
theorem selectors_narrow:
  assumes "\<forall>k xs. set (sample k xs) \<subseteq> set xs"
  shows "(\<forall>ms. apply_selectors sample ns ss = Inr ms \<longrightarrow> set ms \<subseteq> set ns) \<and>
    (list_all (\<lambda>s. sel_mode s = ''list'' \<or> sel_mode s = ''batch'' \<and> 0 < or_one (sel_batch s)) ss \<longrightarrow>
       apply_selectors sample ns ss = Inr ns)"
proof
  show "\<forall>ms. apply_selectors sample ns ss = Inr ms \<longrightarrow> set ms \<subseteq> set ns"
  proof (induction ss arbitrary: ns)
    case Nil
    then show ?case by simp
  next
    case (Cons s ss)
    have b: "set (concat (batches (nat i) ns)) \<subseteq> set ns" if "0 < i" for i :: int
      using that concat_batches [of "nat i - 1" ns] by simp
    show ?case
    proof (intro allI impI)
      fix ms
      assume r: "apply_selectors sample ns (s # ss) = Inr ms"
      obtain ns' where "apply_selectors sample ns' ss = Inr ms" "set ns' \<subseteq> set ns"
        using r b assms filter_nodes_subset
        by (fastforce simp: bind_res_Inr split: if_splits)
      with Cons.IH show "set ms \<subseteq> set ns" by blast
    qed
  qed
  show "list_all (\<lambda>s. sel_mode s = ''list'' \<or> sel_mode s = ''batch'' \<and> 0 < or_one (sel_batch s)) ss \<longrightarrow>
       apply_selectors sample ns ss = Inr ns"
  proof (induction ss)
    case Nil
    then show ?case by simp
  next
    case (Cons s ss)
    have "concat (batches (nat i) ns) = ns" if "0 < i" for i :: int
      using that concat_batches [of "nat i - 1" ns] by simp
    with Cons show ?case by auto
  qed
qed

theorem selectors_narrow_witness:
  "apply_selectors take [demo_node] [\<lparr>sel_mode = ''batch'', sel_batch = Some 2, sel_sample = None, sel_meta = []\<rparr>] =
     Inr [demo_node]"
proof -
  have "\<forall>k xs. set (take k xs) \<subseteq> set (xs :: sdk_node list)" by (simp add: set_take_subset)
  show ?thesis
    by (rule mp [OF conjunct2 [OF selectors_narrow [OF \<open>\<forall>k xs. set (take k xs) \<subseteq> set (xs :: sdk_node list)\<close>]]])
      (simp add: or_one_def)
qed

end
