(* ===== verification/Callbacks.thy ===== *)
theory Callbacks
  imports RegistryApi
begin

text \<open>
  Node callbacks: \<open>NodeCallbackService\<close> (\<open>registry/services/node/callback.py\<close>) and its HTTP routes
  (\<open>registry/api_callback.py\<close>). The callback types are the enum of \<open>protos/qmtl_callback.proto\<close>,
  whose fields hold any int. Building a request or an event message from the JSON body is a
  parameter.
\<close>

section \<open>The service\<close>

record callback_info =
  cb_url :: string
  cb_metadata :: "(string, string) dict"

type_synonym callbacks = "(string, (int, callback_info list) dict) dict"

record callback_request =
  cbr_node :: string
  cbr_type :: int
  cbr_url :: string
  cbr_metadata :: "(string, string) dict"

record callback_event =
  cbe_node :: string
  cbe_type :: int

record callback_response =
  cb_success :: bool
  cb_message :: string

definition callbacks_of :: "callbacks \<Rightarrow> string \<Rightarrow> int \<Rightarrow> callback_info list" where
  "callbacks_of cbs nid ty =
     (case map_of cbs nid of
        None \<Rightarrow> []
      | Some d \<Rightarrow> (case map_of d ty of None \<Rightarrow> [] | Some l \<Rightarrow> l))"

definition register_callback :: "callback_request \<Rightarrow> callbacks \<Rightarrow> callbacks \<times> callback_response" where
  "register_callback req cbs =
     (let node_cbs = (case map_of cbs (cbr_node req) of None \<Rightarrow> [] | Some d \<Rightarrow> d);
          cb_list = (case map_of node_cbs (cbr_type req) of None \<Rightarrow> [] | Some l \<Rightarrow> l);
          cb = \<lparr>cb_url = cbr_url req, cb_metadata = cbr_metadata req\<rparr>
      in (AList.update (cbr_node req) (AList.update (cbr_type req) (cb_list @ [cb]) node_cbs) cbs,
          \<lparr>cb_success = True, cb_message = ''Callback registered.''\<rparr>))"

text \<open>For an unknown node \<open>get\<close> gives a fresh dict, and what is stored in it is lost.\<close>

definition unregister_callback :: "string \<Rightarrow> int \<Rightarrow> string \<Rightarrow> callbacks \<Rightarrow> callbacks \<times> callback_response" where
  "unregister_callback nid ty url cbs =
     (let cb_list = callbacks_of cbs nid ty;
          kept = filter (\<lambda>cb. cb_url cb \<noteq> url) cb_list;
          removed = (length cb_list \<noteq> length kept)
      in (case map_of cbs nid of
            None \<Rightarrow> cbs
          | Some d \<Rightarrow> AList.update nid (AList.update ty kept d) cbs,
          \<lparr>cb_success = removed,
           cb_message = (if removed then ''Callback unregistered.'' else ''Not found.'')\<rparr>))"

text \<open>\<open>NodeCallbackType.Name\<close> and \<open>NodeCallbackType.Value\<close>, which raise \<open>ValueError\<close> on anything else.\<close>

definition callback_names :: "(int \<times> string) list" where
  "callback_names = [(0, ''ON_EXECUTE''), (1, ''ON_STOP''), (2, ''ON_REFCOUNT_ZERO'')]"

definition callback_type_name :: "int \<Rightarrow> string res" where
  "callback_type_name ty =
     (case map_of callback_names ty of
        None \<Rightarrow> raises ValueError ''Enum has no name defined for value''
      | Some s \<Rightarrow> Inr s)"

definition callback_type_value :: "string \<Rightarrow> int res" where
  "callback_type_value s =
     (case map_of (map prod.swap callback_names) s of
        None \<Rightarrow> raises ValueError ''Enum has no value defined for name''
      | Some ty \<Rightarrow> Inr ty)"

fun label_callbacks ::
  "(int, callback_info list) dict \<Rightarrow> (string, callback_info list) dict \<Rightarrow> (string, callback_info list) dict res" where
  "label_callbacks [] out = Inr out"
| "label_callbacks ((ty, l) # d) out =
     bind_res (callback_type_name ty) (\<lambda>s. label_callbacks d (AList.update (map to_lower s) l out))"

definition list_callbacks :: "callbacks \<Rightarrow> string \<Rightarrow> (string, callback_info list) dict res" where
  "list_callbacks cbs nid = label_callbacks (case map_of cbs nid of None \<Rightarrow> [] | Some d \<Rightarrow> d) []"

definition trigger_callbacks :: "callback_event \<Rightarrow> callbacks \<Rightarrow> callback_response list" where
  "trigger_callbacks ev cbs =
     map (\<lambda>cb. \<lparr>cb_success = True, cb_message = ''Callback to '' @ cb_url cb @ '' triggered.''\<rparr>)
       (callbacks_of cbs (cbe_node ev) (cbe_type ev))"

section \<open>The routes\<close>

text \<open>\<open>data["callback_type"] = data["callback_type"].upper()\<close>\<close>

definition upper_type :: "(string, pyval) dict \<Rightarrow> (string, pyval) dict res" where
  "upper_type d =
     (case map_of d ''callback_type'' of
        None \<Rightarrow> Inr d
      | Some (PStr s) \<Rightarrow> Inr (AList.update ''callback_type'' (PStr (map to_upper s)) d)
      | Some _ \<Rightarrow> raises AttributeError ''no attribute upper'')"

definition register_callback_route ::
  "((string, pyval) dict \<Rightarrow> callback_request res) \<Rightarrow> string \<Rightarrow> (string, pyval) dict \<Rightarrow> callbacks
     \<Rightarrow> (callbacks, exn, callback_response) outcome" where
  "register_callback_route parse nid body cbs =
     (case bind_res (upper_type body) parse of
        Inl e \<Rightarrow> (cbs, Inl e)
      | Inr req \<Rightarrow>
          if nid \<noteq> cbr_node req then (cbs, abort 400 ''Node ID mismatch'')
          else (case register_callback req cbs of (cbs', r) \<Rightarrow> (cbs', Inr r)))"

definition unregister_callback_route ::
  "string \<Rightarrow> string \<Rightarrow> string \<Rightarrow> callbacks \<Rightarrow> (callbacks, exn, callback_response) outcome" where
  "unregister_callback_route nid ty url cbs =
     (case callback_type_value (map to_upper ty) of
        Inl e \<Rightarrow> (cbs, Inl e)
      | Inr i \<Rightarrow> (case unregister_callback nid i url cbs of (cbs', r) \<Rightarrow> (cbs', Inr r)))"

definition list_callbacks_route :: "string \<Rightarrow> callbacks \<Rightarrow> (callbacks, exn, (string, callback_info list) dict) outcome" where
  "list_callbacks_route nid cbs = (cbs, list_callbacks cbs nid)"

definition trigger_callbacks_route ::
  "((string, pyval) dict \<Rightarrow> callback_event res) \<Rightarrow> string \<Rightarrow> (string, pyval) dict \<Rightarrow> callbacks
     \<Rightarrow> (callbacks, exn, callback_response list) outcome" where
  "trigger_callbacks_route parse nid body cbs =
     (cbs, bind_res (upper_type body) (\<lambda>d. bind_res (parse d) (\<lambda>ev.
        if nid \<noteq> cbe_node ev then abort 400 ''Node ID mismatch'' else Inr (trigger_callbacks ev cbs))))"

section \<open>Properties\<close>

lemma callbacks_of_update:
  "callbacks_of (AList.update nid (AList.update ty l d) cbs) n t =
     (if n = nid then (if t = ty then l else (case map_of d t of None \<Rightarrow> [] | Some l \<Rightarrow> l)) else callbacks_of cbs n t)"
  by (simp add: callbacks_of_def)

text \<open>
  The service keeps, per node and callback type, the list of registrations: registering adds at
  the end of that list, unregistering removes every registration of the URL from it and succeeds
  exactly when there was one, neither touches another list, and an event triggers one callback per
  registration, in order.
\<close>
theorem callbacks_are_lists:
  "callbacks_of (fst (register_callback req cbs)) n t =
     (if n = cbr_node req \<and> t = cbr_type req
      then callbacks_of cbs n t @ [\<lparr>cb_url = cbr_url req, cb_metadata = cbr_metadata req\<rparr>] else callbacks_of cbs n t) \<and>
   callbacks_of (fst (unregister_callback nid ty url cbs)) n t =
     (if n = nid \<and> t = ty then filter (\<lambda>cb. cb_url cb \<noteq> url) (callbacks_of cbs n t) else callbacks_of cbs n t) \<and>
   (cb_success (snd (unregister_callback nid ty url cbs)) \<longleftrightarrow> url \<in> cb_url ` set (callbacks_of cbs nid ty)) \<and>
   map cb_message (trigger_callbacks ev cbs) =
     map (\<lambda>cb. ''Callback to '' @ cb_url cb @ '' triggered.'') (callbacks_of cbs (cbe_node ev) (cbe_type ev))"
proof (intro conjI)
  show "callbacks_of (fst (register_callback req cbs)) n t =
     (if n = cbr_node req \<and> t = cbr_type req
      then callbacks_of cbs n t @ [\<lparr>cb_url = cbr_url req, cb_metadata = cbr_metadata req\<rparr>] else callbacks_of cbs n t)"
    by (auto simp: register_callback_def Let_def callbacks_of_def split: option.split)
  show "callbacks_of (fst (unregister_callback nid ty url cbs)) n t =
     (if n = nid \<and> t = ty then filter (\<lambda>cb. cb_url cb \<noteq> url) (callbacks_of cbs n t) else callbacks_of cbs n t)"
    by (auto simp: unregister_callback_def Let_def callbacks_of_def split: option.split)
  have "length l \<noteq> length (filter (\<lambda>cb. cb_url cb \<noteq> url) l) \<longleftrightarrow> url \<in> cb_url ` set l" for l
  proof (induction l)
    case Nil
    then show ?case by simp
  next
    case (Cons cb l)
    have "length (filter (\<lambda>cb. cb_url cb \<noteq> url) l) < Suc (length l)" by (simp add: le_imp_less_Suc)
    then have "Suc (length l) \<noteq> length (filter (\<lambda>cb. cb_url cb \<noteq> url) l)" by (rule less_imp_neq [symmetric])
    then show ?case using Cons by (cases "cb_url cb = url") simp_all
  qed
  then show "cb_success (snd (unregister_callback nid ty url cbs)) \<longleftrightarrow> url \<in> cb_url ` set (callbacks_of cbs nid ty)"
    by (simp add: unregister_callback_def Let_def)
  show "map cb_message (trigger_callbacks ev cbs) =
     map (\<lambda>cb. ''Callback to '' @ cb_url cb @ '' triggered.'') (callbacks_of cbs (cbe_node ev) (cbe_type ev))"
    by (simp add: trigger_callbacks_def)
qed

end
