(* ===== verification/RegistryClient.thy ===== *)
theory RegistryClient
  imports Errors
begin

text \<open>
  The HTTP client of the registry (\<open>dag_manager/registry/registry_client.py\<close>).

  The HTTP library is a parameter: \<open>send\<close> performs one request on the state of the world and gives
  a response or the text of an \<open>httpx.HTTPError\<close>. So are the conversions of nodes and strategies to
  and from JSON values, which the code looks up on the generated protobuf classes, and \<open>str\<close> of an
  error detail.
\<close>

record http_response =
  hr_status :: int
  hr_json :: "pyval option"
  hr_text :: string

record ('s, 'n, 'v) registry_client =
  base_url :: string
  send :: "string \<Rightarrow> string \<Rightarrow> pyval option \<Rightarrow> 's \<Rightarrow> 's \<times> (string + http_response)"
  str_of :: "pyval \<Rightarrow> string"
  node_dump :: "'n \<Rightarrow> pyval res"
  node_validate :: "pyval \<Rightarrow> 'n res"
  strategy_validate :: "pyval \<Rightarrow> 'v res"

text \<open>\<open>base_url.rstrip("/")\<close>\<close>

definition rstrip_slash :: "string \<Rightarrow> string" where
  "rstrip_slash s = rev (dropWhile (\<lambda>c. c = CHR ''/'') (rev s))"

definition nodes_path :: "('s, 'n, 'v) registry_client \<Rightarrow> string" where
  "nodes_path c = rstrip_slash (base_url c) @ ''/v1/registry/nodes''"

definition strategies_path :: "('s, 'n, 'v) registry_client \<Rightarrow> string" where
  "strategies_path c = rstrip_slash (base_url c) @ ''/v1/registry/strategies''"


definition response_json :: "http_response \<Rightarrow> pyval res" where
  "response_json r = (case hr_json r of None \<Rightarrow> raises ValueError ''Expecting value'' | Some v \<Rightarrow> Inr v)"

text \<open>\<open>v.get(key, default)\<close> of a value that should be a dict.\<close>

definition get_key :: "pyval \<Rightarrow> string \<Rightarrow> pyval \<Rightarrow> pyval res" where
  "get_key v k d =
     (case v of
        PDict m \<Rightarrow> Inr (case map_of m k of None \<Rightarrow> d | Some x \<Rightarrow> x)
      | _ \<Rightarrow> raises AttributeError ''no attribute get'')"

definition error_detail :: "('s, 'n, 'v) registry_client \<Rightarrow> http_response \<Rightarrow> string" where
  "error_detail c r =
     (case bind_res (response_json r) (\<lambda>v. get_key v ''detail'' (PStr '''')) of
        Inr v \<Rightarrow> str_of c v
      | Inl _ \<Rightarrow> take 100 (hr_text r))"

definition show_status :: "int \<Rightarrow> string" where
  "show_status = show_int"

definition handle_response :: "('s, 'n, 'v) registry_client \<Rightarrow> http_response \<Rightarrow> int \<Rightarrow> pyval res" where
  "handle_response c r expected =
     (if hr_status r \<noteq> expected
      then raises RegistryClientError
        (''Registry API error (status '' @ show_status (hr_status r) @ ''): '' @ error_detail c r)
      else response_json r)"

text \<open>
  One request and the rest of a method: \<open>except httpx.HTTPError\<close> turns a transport error into an
  exception of the given class.
\<close>

definition request ::
  "('s, 'n, 'v) registry_client \<Rightarrow> string \<Rightarrow> string \<Rightarrow> pyval option \<Rightarrow> exn_class \<Rightarrow> string
     \<Rightarrow> (http_response \<Rightarrow> 'a res) \<Rightarrow> 's \<Rightarrow> ('s, exn, 'a) outcome" where
  "request c method url body cls what f s =
     (case send c method url body s of
        (s', Inl msg) \<Rightarrow> (s', raises cls (what @ msg))
      | (s', Inr r) \<Rightarrow> (s', f r))"



text \<open>
  \<open>get_node\<close> and \<open>get_strategy\<close>: everything but a transport error that goes wrong after the 404
  check, an error status of the server included, ends in \<open>except Exception: return None\<close>.
\<close>

definition or_none :: "'a res \<Rightarrow> 'a option res" where
  "or_none r = (case r of Inr x \<Rightarrow> Inr (Some x) | Inl e \<Rightarrow> if caught e then Inr None else Inl e)"

definition read_entry ::
  "('s, 'n, 'v) registry_client \<Rightarrow> string \<Rightarrow> (pyval \<Rightarrow> 'a res) \<Rightarrow> http_response \<Rightarrow> 'a option res" where
  "read_entry c key validate r =
     (if hr_status r = 404 then Inr None
      else
        (case handle_response c r 200 of
           Inl e \<Rightarrow> (if caught e then Inr None else Inl e)
         | Inr (PDict m) \<Rightarrow> (case map_of m key of None \<Rightarrow> Inr None | Some v \<Rightarrow> or_none (validate v))
         | Inr _ \<Rightarrow> Inr None))"

definition client_get_node :: "('s, 'n, 'v) registry_client \<Rightarrow> string \<Rightarrow> 's \<Rightarrow> ('s, exn, 'n option) outcome" where
  "client_get_node c i =
     request c ''GET'' (nodes_path c @ ''/'' @ i) None RegistryClientError ''lookup failed: ''
       (read_entry c ''node'' (node_validate c))"









fun validate_nodes :: "('s, 'n, 'v) registry_client \<Rightarrow> pyval list \<Rightarrow> 'n list res" where
  "validate_nodes c [] = Inr []"
| "validate_nodes c (v # vs) =
     (case node_validate c v of
        Inr n \<Rightarrow> bind_res (validate_nodes c vs) (\<lambda>ns. Inr (n # ns))
      | Inl e \<Rightarrow> if caught e then validate_nodes c vs else Inl e)"

definition iterate :: "pyval \<Rightarrow> pyval list res" where
  "iterate v =
     (case v of
        PList vs \<Rightarrow> Inr vs
      | PStr s \<Rightarrow> Inr (map (\<lambda>x. PStr [x]) s)
      | PDict d \<Rightarrow> Inr (map (PStr \<circ> fst) d)
      | _ \<Rightarrow> raises TypeError ''object is not iterable'')"

definition client_strategy_nodes :: "('s, 'n, 'v) registry_client \<Rightarrow> string \<Rightarrow> 's \<Rightarrow> ('s, exn, 'n list) outcome" where
  "client_strategy_nodes c v =
     request c ''GET'' (strategies_path c @ ''/'' @ v @ ''/nodes'') None RegistryClientError
       ''strategy nodes lookup failed: '' (\<lambda>r.
       if hr_status r = 404 then Inr []
       else bind_res (handle_response c r 200) (\<lambda>d. bind_res (get_key d ''nodes'' (PList [])) (\<lambda>ns.
         bind_res (iterate ns) (validate_nodes c))))"

section \<open>Properties\<close>



text \<open>The generated protobuf class has no \<open>model_validate\<close>: no node is ever found, whatever the server answers.\<close>

lemma no_model_validate:
  assumes "\<forall>d. node_validate c d = raises AttributeError ''model_validate''"
  shows "send c ''GET'' (nodes_path c @ ''/'' @ i) None s = (s', Inr r) \<Longrightarrow> client_get_node c i s = (s', Inr None)"
    and "client_strategy_nodes c v s = (s', Inr ns) \<Longrightarrow> ns = []"
proof -
  have "caught (exn_of AttributeError m)" "caught (exn_of RegistryClientError m)" "caught (exn_of ValueError m)" for m
    by (simp_all add: caught_iff)
  then show "client_get_node c i s = (s', Inr None)" if "send c ''GET'' (nodes_path c @ ''/'' @ i) None s = (s', Inr r)"
    using that assms
    by (simp add: client_get_node_def request_def read_entry_def handle_response_def response_json_def or_none_def
        split: option.split pyval.split)
  have "caught (exn_of AttributeError m)" for m by (simp add: caught_iff)
  then have "validate_nodes c vs = Inr []" for vs
    using assms by (induction vs) simp_all
  then show "ns = []" if "client_strategy_nodes c v s = (s', Inr ns)"
    using that by (auto simp: client_strategy_nodes_def request_def bind_res_Inr split: if_splits prod.splits sum.splits)
qed



end
