(* ===== verification/StateManager.thy ===== *)
theory StateManager
  imports LocalEngine
begin

text \<open>
  History in Redis: \<open>StateManager\<close> (\<open>sdk/execution/state_manager.py\<close>) and \<open>RedisClient\<close>
  (\<open>common/redis/redis_client.py\<close>).

  The commands of the server are the fields of a record of functions on its state, each of which may
  raise. A transaction is the list of its commands. \<open>now\<close> is \<open>int(time.time())\<close>. \<open>scan\<close> gives the
  keys of a SCAN that match a pattern, once and before any of them is deleted. What the properties need of the
  server is the predicate \<open>store_laws\<close>, which states the documented behaviour of its commands. Time passes on the
  server between the operations (\<open>rs_elapse\<close>, in milliseconds), and a key whose time to live has run out is gone; within
  one operation no time passes.
\<close>

section \<open>The server\<close>

datatype command = LPush string json_text | LTrim string int int | Expire string int

record 's state_store =
  rs_execute :: "command list \<Rightarrow> 's \<Rightarrow> ('s, exn, unit) outcome"
  rs_lrange :: "string \<Rightarrow> int \<Rightarrow> int \<Rightarrow> 's \<Rightarrow> json_text list res"
  rs_llen :: "string \<Rightarrow> 's \<Rightarrow> nat res"
  rs_set :: "string \<Rightarrow> json_text \<Rightarrow> int option \<Rightarrow> 's \<Rightarrow> ('s, exn, bool) outcome"
  rs_get :: "string \<Rightarrow> 's \<Rightarrow> json_text option res"
  rs_delete :: "string list \<Rightarrow> 's \<Rightarrow> ('s, exn, nat) outcome"
  rs_expire :: "string \<Rightarrow> int \<Rightarrow> 's \<Rightarrow> ('s, exn, bool) outcome"
  rs_ttl :: "string \<Rightarrow> 's \<Rightarrow> int res"
  rs_exists :: "string \<Rightarrow> 's \<Rightarrow> nat res"
  rs_scan :: "string \<Rightarrow> 's \<Rightarrow> string list res"
  rs_keys :: "string \<Rightarrow> 's \<Rightarrow> string list res"
  rs_elapse :: "nat \<Rightarrow> 's \<Rightarrow> 's"

text \<open>\<open>try: ... except Exception: return d\<close>\<close>

definition or_default :: "'a \<Rightarrow> 'a res \<Rightarrow> 'a res" where
  "or_default d r = (case r of Inr x \<Rightarrow> Inr x | Inl e \<Rightarrow> if caught e then Inr d else Inl e)"

definition or_default_st :: "'a \<Rightarrow> ('s, exn, 'a) outcome \<Rightarrow> ('s, exn, 'a) outcome" where
  "or_default_st d out = (fst out, or_default d (snd out))"

lemma or_default_simps [simp]:
  "or_default d (Inr x) = Inr x" "or_default_st d (s, r) = (s, or_default d r)"
  by (simp_all add: or_default_def or_default_st_def)

section \<open>Values\<close>

definition set_value :: "'s state_store \<Rightarrow> string \<Rightarrow> pyval \<Rightarrow> int option \<Rightarrow> 's \<Rightarrow> ('s, exn, bool) outcome" where
  "set_value r key v ex s =
     or_default_st False
       (case json_dumps v of
          None \<Rightarrow> (s, raises TypeError ''Object is not JSON serializable'')
        | Some t \<Rightarrow> rs_set r key t ex s)"

definition get_value :: "'s state_store \<Rightarrow> string \<Rightarrow> 's \<Rightarrow> pyval res" where
  "get_value r key s =
     or_default PNone (bind_res (rs_get r key s) (\<lambda>t.
       case t of
         None \<Rightarrow> Inr PNone
       | Some t \<Rightarrow> (case json_loads t of None \<Rightarrow> raises ValueError ''Expecting value'' | Some v \<Rightarrow> Inr v)))"

definition delete_value :: "'s state_store \<Rightarrow> string \<Rightarrow> 's \<Rightarrow> ('s, exn, bool) outcome" where
  "delete_value r key s = or_default_st False (and_then (rs_delete r [key] s) (\<lambda>n s. (s, Inr (0 < n))))"

definition exists_value :: "'s state_store \<Rightarrow> string \<Rightarrow> 's \<Rightarrow> bool res" where
  "exists_value r key s = or_default False (bind_res (rs_exists r key s) (\<lambda>n. Inr (0 < n)))"

definition all_keys :: "'s state_store \<Rightarrow> string \<Rightarrow> 's \<Rightarrow> string list res" where
  "all_keys r pat s = or_default [] (rs_keys r pat s)"

definition clear_store :: "'s state_store \<Rightarrow> 's \<Rightarrow> ('s, exn, nat) outcome" where
  "clear_store r s =
     or_default_st 0
       (case rs_keys r ''*'' s of
          Inl e \<Rightarrow> (s, Inl e)
        | Inr ks \<Rightarrow> if ks = [] then (s, Inr 0) else rs_delete r ks s)"

section \<open>History\<close>

definition storage_key :: "string \<Rightarrow> string \<Rightarrow> string \<Rightarrow> string" where
  "storage_key nid iv ty = ''node:'' @ nid @ '':'' @ ty @ '':'' @ iv"

text \<open>\<open>if ttl\<close>: neither None nor 0.\<close>

definition set_arg :: "int option \<Rightarrow> bool" where
  "set_arg t \<longleftrightarrow> t \<noteq> None \<and> t \<noteq> Some 0"

definition push_commands :: "string \<Rightarrow> json_text \<Rightarrow> int \<Rightarrow> int option \<Rightarrow> command list" where
  "push_commands key t max_items ttl =
     [LPush key t, LTrim key 0 (max_items - 1)] @ (if set_arg ttl then [Expire key (the ttl)] else [])"

definition int_value :: "int option \<Rightarrow> pyval" where
  "int_value t = (case t of None \<Rightarrow> PNone | Some i \<Rightarrow> PInt i)"

definition history_item :: "int \<Rightarrow> pyval \<Rightarrow> pyval" where
  "history_item now v = PDict [(''timestamp'', PInt now), (''value'', v)]"

definition save_state ::
  "'s state_store \<Rightarrow> int \<Rightarrow> string \<Rightarrow> string \<Rightarrow> pyval \<Rightarrow> int \<Rightarrow> int option \<Rightarrow> 's \<Rightarrow> ('s, exn, bool) outcome" where
  "save_state r now nid iv v max_items ttl s =
     or_default_st False
       (let key = storage_key nid iv ''history'' in
        case json_dumps (history_item now v) of
          None \<Rightarrow> (s, raises TypeError ''Object is not JSON serializable'')
        | Some t \<Rightarrow>
            and_then (rs_execute r (push_commands key t max_items ttl) s) (\<lambda>_ s.
              case rs_llen r key s of
                Inl e \<Rightarrow> (s, Inl e)
              | Inr n \<Rightarrow>
                  and_then
                    (set_value r (storage_key nid iv ''meta'')
                      (PDict [(''last_update'', PInt now), (''count'', PInt (min max_items (int n))),
                              (''max_items'', PInt max_items), (''ttl'', int_value ttl)]) ttl s)
                    (\<lambda>_ s. (s, Inr True))))"

text \<open>Items that do not parse, or whose time stamp cannot be compared, are skipped.\<close>

definition parse_items :: "json_text list \<Rightarrow> pyval list" where
  "parse_items ts = concat (map (\<lambda>t. case json_loads t of None \<Rightarrow> [] | Some v \<Rightarrow> [v]) ts)"

text \<open>\<open>start_ts and ts <= start_ts\<close>, and the same with \<open>end_ts and ts > end_ts\<close>; None when it raises.\<close>

definition compare_ts :: "(real \<Rightarrow> real \<Rightarrow> bool) \<Rightarrow> int option \<Rightarrow> pyval \<Rightarrow> bool option" where
  "compare_ts cmp bound ts =
     (if set_arg bound then (case py_number ts of None \<Rightarrow> None | Some x \<Rightarrow> Some (cmp x (real_of_int (the bound))))
      else Some False)"

definition in_window :: "int option \<Rightarrow> int option \<Rightarrow> pyval \<Rightarrow> bool" where
  "in_window t0 t1 v =
     (case v of
        PDict d \<Rightarrow>
          (let ts = (case map_of d ''timestamp'' of None \<Rightarrow> PInt 0 | Some x \<Rightarrow> x) in
           compare_ts (\<le>) t0 ts = Some False \<and> compare_ts (>) t1 ts = Some False)
      | _ \<Rightarrow> False)"

definition read_state ::
  "'s state_store \<Rightarrow> string \<Rightarrow> string \<Rightarrow> int \<Rightarrow> int option \<Rightarrow> int option \<Rightarrow> 's \<Rightarrow> pyval list res" where
  "read_state r nid iv cnt t0 t1 s =
     or_default []
       (let key = storage_key nid iv ''history'' in
        if \<not> set_arg t0 \<and> \<not> set_arg t1
        then bind_res (rs_lrange r key 0 (cnt - 1) s) (\<lambda>ts. Inr (parse_items ts))
        else bind_res (rs_lrange r key 0 (- 1) s) (\<lambda>ts. Inr (take_py cnt (filter (in_window t0 t1) (parse_items ts)))))"

text \<open>\<open>self.get(meta_key) or {}\<close>, which must be a dict to be given a new entry.\<close>

definition or_empty :: "pyval \<Rightarrow> pyval" where
  "or_empty v = (if py_truthy v then v else PDict [])"

definition put_entry :: "string \<Rightarrow> pyval \<Rightarrow> pyval \<Rightarrow> pyval res" where
  "put_entry k x v =
     (case v of PDict d \<Rightarrow> Inr (PDict (AList.update k x d)) | _ \<Rightarrow> raises TypeError ''does not support item assignment'')"

definition fallback_count :: "pyval \<Rightarrow> pyval res" where
  "fallback_count v =
     (case v of
        PDict d \<Rightarrow> put_entry ''actual_count'' (case map_of d ''count'' of None \<Rightarrow> PInt 0 | Some n \<Rightarrow> n) v
      | _ \<Rightarrow> raises AttributeError ''no attribute get'')"

definition state_metadata :: "'s state_store \<Rightarrow> string \<Rightarrow> string \<Rightarrow> 's \<Rightarrow> pyval res" where
  "state_metadata r nid iv s =
     bind_res (get_value r (storage_key nid iv ''meta'') s) (\<lambda>m.
       let meta = or_empty m in
       case bind_res (rs_llen r (storage_key nid iv ''history'') s) (\<lambda>n. put_entry ''actual_count'' (PInt (int n)) meta) of
         Inr v \<Rightarrow> Inr v
       | Inl e \<Rightarrow> if caught e then fallback_count meta else Inl e)"

text \<open>The last result is \<open>history_result and meta_result\<close>; \<open>now\<close> is read after the two commands.\<close>

definition update_ttl :: "'s state_store \<Rightarrow> int \<Rightarrow> string \<Rightarrow> string \<Rightarrow> int \<Rightarrow> 's \<Rightarrow> ('s, exn, bool) outcome" where
  "update_ttl r now nid iv ttl s =
     or_default_st False
       (let meta_key = storage_key nid iv ''meta'' in
        and_then (rs_expire r (storage_key nid iv ''history'') ttl s) (\<lambda>h.
        (\<lambda>s. and_then (rs_expire r meta_key ttl s) (\<lambda>m s.
          case bind_res (get_value r meta_key s) (\<lambda>v.
                 bind_res (put_entry ''ttl'' (PInt ttl) (or_empty v)) (put_entry ''ttl_updated_at'' (PInt now))) of
            Inl e \<Rightarrow> (s, Inl e)
          | Inr meta \<Rightarrow> and_then (set_value r meta_key meta (Some ttl) s) (\<lambda>_ s. (s, Inr (h \<and> m)))))))"

text \<open>\<open>[item["value"] for item in history]\<close>, outside any \<open>try\<close>.\<close>

fun item_values :: "pyval list \<Rightarrow> pyval list res" where
  "item_values [] = Inr []"
| "item_values (PDict d # vs) =
     (case map_of d ''value'' of
        None \<Rightarrow> raises KeyError ''value''
      | Some v \<Rightarrow> bind_res (item_values vs) (\<lambda>xs. Inr (v # xs)))"
| "item_values (_ # vs) = raises TypeError ''indices must be integers''"

definition state_interval_data :: "'s state_store \<Rightarrow> string \<Rightarrow> string \<Rightarrow> int \<Rightarrow> 's \<Rightarrow> pyval list res" where
  "state_interval_data r nid iv cnt s = bind_res (read_state r nid iv cnt None None s) item_values"

section \<open>Clearing\<close>

definition key_pattern :: "string option \<Rightarrow> string" where
  "key_pattern nid = ''node:'' @ (case nid of None \<Rightarrow> ''*'' | Some i \<Rightarrow> i) @ '':*''"

fun delete_each :: "(string \<Rightarrow> 's \<Rightarrow> bool res) \<Rightarrow> 's state_store \<Rightarrow> string list \<Rightarrow> nat \<Rightarrow> 's \<Rightarrow> ('s, exn, nat) outcome" where
  "delete_each skip r [] n s = (s, Inr n)"
| "delete_each skip r (k # ks) n s =
     (case skip k s of
        Inl e \<Rightarrow> (s, Inl e)
      | Inr True \<Rightarrow> delete_each skip r ks n s
      | Inr False \<Rightarrow>
          and_then (rs_delete r [k] s) (\<lambda>d. delete_each skip r ks (if 0 < d then Suc n else n)))"

definition scan_delete :: "(string \<Rightarrow> 's \<Rightarrow> bool res) \<Rightarrow> 's state_store \<Rightarrow> string option \<Rightarrow> 's \<Rightarrow> ('s, exn, nat) outcome" where
  "scan_delete skip r nid s =
     or_default_st 0
       (case rs_scan r (key_pattern nid) s of
          Inl e \<Rightarrow> (s, Inl e)
        | Inr ks \<Rightarrow> delete_each skip r ks 0 s)"

definition clean_expired_data :: "'s state_store \<Rightarrow> string option \<Rightarrow> 's \<Rightarrow> ('s, exn, nat) outcome" where
  "clean_expired_data r = scan_delete (\<lambda>k s. bind_res (rs_ttl r k s) (\<lambda>t. Inr (0 \<le> t \<or> t = - 1))) r"

definition clear_all :: "'s state_store \<Rightarrow> string option \<Rightarrow> 's \<Rightarrow> ('s, exn, nat) outcome" where
  "clear_all r = scan_delete (\<lambda>_ _. Inr False) r"

section \<open>RedisClient\<close>

text \<open>
  The class variables of the singleton, and its construction: the instance is stored before the
  settings are looked at.
\<close>

record 'c client_class =
  cl_instance :: bool
  cl_connection :: "'c option"

definition new_client_class :: "'c client_class" where
  "new_client_class = \<lparr>cl_instance = False, cl_connection = None\<rparr>"

definition redis_client :: "('cfg \<Rightarrow> 'c) \<Rightarrow> 'cfg option \<Rightarrow> 'c client_class \<Rightarrow> ('c client_class, exn, unit) outcome" where
  "redis_client connect settings c =
     (if cl_instance c then (c, Inr ())
      else
        (case settings of
           None \<Rightarrow> (c\<lparr>cl_instance := True\<rparr>, raises ValueError ''RedisSettings must be provided on first init'')
         | Some cfg \<Rightarrow> (c\<lparr>cl_instance := True, cl_connection := Some (connect cfg)\<rparr>, Inr ())))"

definition client_conn :: "'c client_class \<Rightarrow> 'c res" where
  "client_conn c =
     (case cl_connection c of
        None \<Rightarrow> raises RuntimeError ''Redis connection is not initialized''
      | Some r \<Rightarrow> Inr r)"

text \<open>The operations on a connection; the value is already a text.\<close>

definition client_save_history ::
  "'s state_store client_class \<Rightarrow> string \<Rightarrow> string \<Rightarrow> json_text \<Rightarrow> int \<Rightarrow> int option \<Rightarrow> 's \<Rightarrow> ('s, exn, unit) outcome" where
  "client_save_history c nid iv t max_items ttl s =
     (case client_conn c of
        Inl e \<Rightarrow> (s, Inl e)
      | Inr r \<Rightarrow> rs_execute r (push_commands (storage_key nid iv ''history'') t max_items ttl) s)"

definition client_get_history ::
  "'s state_store client_class \<Rightarrow> string \<Rightarrow> string \<Rightarrow> int \<Rightarrow> 's \<Rightarrow> json_text list res" where
  "client_get_history c nid iv cnt s =
     bind_res (client_conn c) (\<lambda>r. rs_lrange r (storage_key nid iv ''history'') 0 (cnt - 1) s)"

definition client_delete_history :: "'s state_store client_class \<Rightarrow> string \<Rightarrow> string \<Rightarrow> 's \<Rightarrow> ('s, exn, nat) outcome" where
  "client_delete_history c nid iv s =
     (case client_conn c of Inl e \<Rightarrow> (s, Inl e) | Inr r \<Rightarrow> rs_delete r [storage_key nid iv ''history''] s)"

definition client_set :: "'s state_store client_class \<Rightarrow> string \<Rightarrow> json_text \<Rightarrow> int option \<Rightarrow> 's \<Rightarrow> ('s, exn, bool) outcome" where
  "client_set c key v ex s =
     (case client_conn c of Inl e \<Rightarrow> (s, Inl e) | Inr r \<Rightarrow> rs_set r key v ex s)"

definition client_get :: "'s state_store client_class \<Rightarrow> string \<Rightarrow> 's \<Rightarrow> json_text option res" where
  "client_get c key s = bind_res (client_conn c) (\<lambda>r. rs_get r key s)"

section \<open>The interface of a bounded history\<close>

text \<open>
  Both classes keep, per key, a list with the newest element first that every save cuts at its
  limit and that the server drops when its time to live has run out. A log is the list with the time it has left, in
  milliseconds; a save with a lifetime (in seconds) sets it anew, one without keeps it. \<open>hist_log\<close> is what saves and
  the passing of time make of the log of a key.
\<close>

definition limit_ok :: "int \<Rightarrow> bool" where
  "limit_ok m \<longleftrightarrow> 0 < m \<and> m \<le> 2 ^ 63"

type_synonym 'e log = "'e list \<times> int option"

definition life_of :: "int option \<Rightarrow> int option" where
  "life_of ttl = map_option ((*) 1000) ttl"

fun log_save :: "'e \<Rightarrow> int option \<Rightarrow> int \<Rightarrow> 'e log \<Rightarrow> 'e log" where
  "log_save e ttl m (l, t) = (take (nat m) (e # l), if ttl = None then t else life_of ttl)"

fun log_wait :: "nat \<Rightarrow> 'e log \<Rightarrow> 'e log" where
  "log_wait d (l, None) = (l, None)"
| "log_wait d (l, Some t) = (if t \<le> int d then ([], None) else (l, Some (t - int d)))"

datatype ('k, 'x) history_op = Saved 'k 'x int | Waited nat

fun hist_log :: "('x \<Rightarrow> 'e) \<Rightarrow> ('x \<Rightarrow> int option) \<Rightarrow> ('k, 'x) history_op list \<Rightarrow> 'k \<Rightarrow> 'e log \<Rightarrow> 'e log" where
  "hist_log elem ttl [] k l = l"
| "hist_log elem ttl (Saved k' x m # ops) k l =
     hist_log elem ttl ops k (if k' = k then log_save (elem x) (ttl x) m l else l)"
| "hist_log elem ttl (Waited d # ops) k l = hist_log elem ttl ops k (log_wait d l)"

fun op_fine :: "('k \<Rightarrow> bool) \<Rightarrow> ('x \<Rightarrow> bool) \<Rightarrow> ('k, 'x) history_op \<Rightarrow> bool" where
  "op_fine key_ok item_ok (Saved k x m) \<longleftrightarrow> key_ok k \<and> item_ok x \<and> limit_ok m"
| "op_fine key_ok item_ok (Waited d) \<longleftrightarrow> True"

fun history_step :: "('k \<Rightarrow> 'x \<Rightarrow> int \<Rightarrow> 's \<Rightarrow> 's) \<Rightarrow> (nat \<Rightarrow> 's \<Rightarrow> 's) \<Rightarrow> ('k, 'x) history_op \<Rightarrow> 's \<Rightarrow> 's" where
  "history_step save elapse (Saved k x m) s = save k x m s"
| "history_step save elapse (Waited d) s = elapse d s"

locale bounded_history =
  fixes save :: "'k \<Rightarrow> 'x \<Rightarrow> int \<Rightarrow> 's \<Rightarrow> 's"
    and elapse :: "nat \<Rightarrow> 's \<Rightarrow> 's"
    and view :: "'s \<Rightarrow> 'k \<Rightarrow> 'e log"
    and elem :: "'x \<Rightarrow> 'e"
    and ttl :: "'x \<Rightarrow> int option"
    and key_ok :: "'k \<Rightarrow> bool"
    and item_ok :: "'x \<Rightarrow> bool"
    and invar :: "'s \<Rightarrow> bool"
  assumes view_save: "\<lbrakk>invar s; key_ok k; item_ok x; limit_ok m; key_ok k'\<rbrakk> \<Longrightarrow>
      view (save k x m s) k' = (if k' = k then log_save (elem x) (ttl x) m (view s k) else view s k')"
    and invar_save: "\<lbrakk>invar s; key_ok k; item_ok x; limit_ok m\<rbrakk> \<Longrightarrow> invar (save k x m s)"
    and view_elapse: "\<lbrakk>invar s; key_ok k\<rbrakk> \<Longrightarrow> view (elapse d s) k = log_wait d (view s k)"
    and invar_elapse: "invar s \<Longrightarrow> invar (elapse d s)"
begin

lemma view_run:
  assumes "invar s" "\<forall>op \<in> set ops. op_fine key_ok item_ok op" "key_ok k"
  shows "invar (fold (history_step save elapse) ops s) \<and>
    view (fold (history_step save elapse) ops s) k = hist_log elem ttl ops k (view s k)"
  using assms
proof (induction ops arbitrary: s)
  case Nil
  then show ?case by simp
next
  case (Cons p ops)
  show ?case
  proof (cases p)
    case (Saved k' x m)
    then have ok: "key_ok k'" "item_ok x" "limit_ok m" using Cons.prems by auto
    have "invar (save k' x m s)" using Cons.prems(1) ok by (rule invar_save)
    moreover have "view (save k' x m s) k = (if k = k' then log_save (elem x) (ttl x) m (view s k') else view s k)"
      using Cons.prems ok by (intro view_save) auto
    ultimately show ?thesis using Cons.IH [of "save k' x m s"] Cons.prems Saved by (auto split: if_splits)
  next
    case (Waited d)
    then show ?thesis
      using Cons.IH [of "elapse d s"] Cons.prems view_elapse [of s k d] invar_elapse [of s d] by simp
  qed
qed

end

lemma log_step_map:
  "apfst (map f) (log_save e n m l) = log_save (f e) n m (apfst (map f) l)"
  "apfst (map f) (log_wait d l) = log_wait d (apfst (map f) l)"
  by (cases l; simp add: take_map [symmetric] del: take_Suc_Cons) (cases l; cases "snd l"; simp)

lemma hist_log_map: "apfst (map f) (hist_log elem ttl ops k l) = hist_log (f \<circ> elem) ttl ops k (apfst (map f) l)"
  by (induction elem ttl ops k l rule: hist_log.induct) (simp_all add: log_step_map)

section \<open>The documented behaviour of the server\<close>

text \<open>The elements from index \<open>i\<close> to \<open>j\<close>, where negative indices count from the end.\<close>

definition redis_range :: "int \<Rightarrow> int \<Rightarrow> 'a list \<Rightarrow> 'a list" where
  "redis_range i j xs =
     (let n = int (length xs);
          a = (if i < 0 then max 0 (n + i) else i);
          b = (if j < 0 then n + j else j)
      in take (nat (b + 1 - a)) (drop (nat a) xs))"

lemma redis_range_prefix: "0 < m \<Longrightarrow> redis_range 0 (m - 1) xs = take (nat m) xs"
  by (simp add: redis_range_def)

lemma redis_range_all: "redis_range 0 (- 1) xs = xs"
  by (simp add: redis_range_def)

text \<open>Lifetimes the server accepts are positive and, in milliseconds, fit into 64 bits, as do indices.\<close>

definition ttl_ok :: "int option \<Rightarrow> bool" where
  "ttl_ok ttl \<longleftrightarrow> (\<forall>n. ttl = Some n \<longrightarrow> 0 < n \<and> n < 2 ^ 32)"

definition index_ok :: "int \<Rightarrow> bool" where
  "index_ok i \<longleftrightarrow> - (2 ^ 63) \<le> i \<and> i < 2 ^ 63"

text \<open>
  The view shows the lists, the plain values and the milliseconds a key has left to live, if it is to expire. A
  command for one kind of value works on keys that do not hold the other. \<open>EXPIRE\<close> and \<open>SET\<close> with \<open>EX\<close> set the
  time to live, \<open>SET\<close> without clears it, \<open>LPUSH\<close> and \<open>LTRIM\<close> keep it; a key that does not exist has none. When time
  passes, a key whose time has run out is gone.
\<close>

record 's store_view =
  sv_list :: "'s \<Rightarrow> string \<Rightarrow> json_text list"
  sv_val :: "'s \<Rightarrow> string \<Rightarrow> json_text option"
  sv_life :: "'s \<Rightarrow> string \<Rightarrow> int option"

definition push_law :: "'s state_store \<Rightarrow> 's store_view \<Rightarrow> bool" where
  "push_law r v \<longleftrightarrow> (\<forall>k t m ttl s. sv_val v s k = None \<longrightarrow> ttl_ok ttl \<longrightarrow> limit_ok m \<longrightarrow>
     (let (s', y) = rs_execute r ([LPush k t, LTrim k 0 (m - 1)] @ (case ttl of None \<Rightarrow> [] | Some n \<Rightarrow> [Expire k n])) s in
        y = Inr () \<and> sv_list v s' = (sv_list v s)(k := redis_range 0 (m - 1) (t # sv_list v s k)) \<and>
        sv_val v s' = sv_val v s \<and>
        sv_life v s' = (sv_life v s)(k := if ttl = None then sv_life v s k else life_of ttl)))"

definition set_law :: "'s state_store \<Rightarrow> 's store_view \<Rightarrow> bool" where
  "set_law r v \<longleftrightarrow> (\<forall>k t ex s. sv_list v s k = [] \<longrightarrow> ttl_ok ex \<longrightarrow>
     (let (s', y) = rs_set r k t ex s in
        y = Inr True \<and> sv_list v s' = sv_list v s \<and> sv_val v s' = (sv_val v s)(k \<mapsto> t) \<and>
        sv_life v s' = (sv_life v s)(k := life_of ex)))"

definition elapse_law :: "'s state_store \<Rightarrow> 's store_view \<Rightarrow> bool" where
  "elapse_law r v \<longleftrightarrow> (\<forall>d s k. let s' = rs_elapse r d s in
     (case sv_life v s k of
        None \<Rightarrow> sv_list v s' k = sv_list v s k \<and> sv_val v s' k = sv_val v s k \<and> sv_life v s' k = None
      | Some t \<Rightarrow>
          if t \<le> int d then sv_list v s' k = [] \<and> sv_val v s' k = None \<and> sv_life v s' k = None
          else sv_list v s' k = sv_list v s k \<and> sv_val v s' k = sv_val v s k \<and> sv_life v s' k = Some (t - int d)))"

definition store_laws :: "'s state_store \<Rightarrow> 's store_view \<Rightarrow> bool" where
  "store_laws r v \<longleftrightarrow> push_law r v \<and> set_law r v \<and> elapse_law r v \<and>
     (\<forall>k i j s. sv_val v s k = None \<longrightarrow> index_ok i \<longrightarrow> index_ok j \<longrightarrow> rs_lrange r k i j s = Inr (redis_range i j (sv_list v s k))) \<and>
     (\<forall>k s. sv_val v s k = None \<longrightarrow> rs_llen r k s = Inr (length (sv_list v s k))) \<and>
     (\<forall>k s. sv_list v s k = [] \<longrightarrow> sv_val v s k = None \<longrightarrow> sv_life v s k = None)"

lemma push_works:
  assumes "store_laws r v" "sv_val v s k = None" "ttl_ok ttl" "limit_ok m"
  shows "\<exists>s'. rs_execute r (push_commands k t m ttl) s = (s', Inr ()) \<and>
    sv_list v s' = (sv_list v s)(k := redis_range 0 (m - 1) (t # sv_list v s k)) \<and> sv_val v s' = sv_val v s \<and>
    sv_life v s' = (sv_life v s)(k := if ttl = None then sv_life v s k else life_of ttl)"
proof -
  have e: "(if set_arg ttl then [Expire k (the ttl)] else []) = (case ttl of None \<Rightarrow> [] | Some n \<Rightarrow> [Expire k n])"
    using assms(3) by (auto simp: ttl_ok_def set_arg_def split: option.split)
  have "push_law r v" using assms(1) by (simp add: store_laws_def)
  from this [unfolded push_law_def, rule_format, OF assms(2-4), of t] show ?thesis
    unfolding push_commands_def e by (auto split: prod.splits)
qed

lemma set_works:
  assumes "store_laws r v" "sv_list v s k = []" "ttl_ok ex"
  shows "\<exists>s'. rs_set r k t ex s = (s', Inr True) \<and> sv_list v s' = sv_list v s \<and>
    sv_val v s' = (sv_val v s)(k \<mapsto> t) \<and> sv_life v s' = (sv_life v s)(k := life_of ex)"
proof -
  have "set_law r v" using assms(1) by (simp add: store_laws_def)
  from this [unfolded set_law_def, rule_format, OF assms(2,3), of t] show ?thesis by (auto split: prod.splits)
qed

lemma elapse_works:
  assumes "store_laws r v"
  shows "(sv_list v (rs_elapse r d s) k, sv_life v (rs_elapse r d s) k) = log_wait d (sv_list v s k, sv_life v s k)"
    and "sv_list v s k = [] \<Longrightarrow> sv_list v (rs_elapse r d s) k = []"
    and "sv_val v s k = None \<Longrightarrow> sv_val v (rs_elapse r d s) k = None"
proof -
  have "elapse_law r v" using assms(1) by (simp add: store_laws_def)
  note law = this [unfolded elapse_law_def Let_def, rule_format, of d s k]
  show "(sv_list v (rs_elapse r d s) k, sv_life v (rs_elapse r d s) k) = log_wait d (sv_list v s k, sv_life v s k)"
    using law by (cases "sv_life v s k") (auto split: if_splits)
  show "sv_list v s k = [] \<Longrightarrow> sv_list v (rs_elapse r d s) k = []"
    and "sv_val v s k = None \<Longrightarrow> sv_val v (rs_elapse r d s) k = None"
    using law by (auto split: option.splits if_splits)
qed

lemma reads_work:
  assumes "store_laws r v" "sv_val v s k = None"
  shows "index_ok i \<Longrightarrow> index_ok j \<Longrightarrow> rs_lrange r k i j s = Inr (redis_range i j (sv_list v s k))" "rs_llen r k s = Inr (length (sv_list v s k))"
    "sv_list v s k = [] \<Longrightarrow> sv_life v s k = None"
  using assms by (simp_all add: store_laws_def)

section \<open>Both histories meet the interface\<close>

type_synonym state_item = "int \<times> pyval \<times> int option"

definition no_colon :: "string \<Rightarrow> bool" where
  "no_colon s \<longleftrightarrow> CHR '':'' \<notin> set s"

lemma colon_split:
  "\<lbrakk>no_colon a; no_colon b; a @ CHR '':'' # x = b @ CHR '':'' # y\<rbrakk> \<Longrightarrow> a = b \<and> x = y"
proof (induction a arbitrary: b)
  case Nil
  then show ?case by (cases b) (auto simp: no_colon_def)
next
  case (Cons c a)
  then show ?case by (cases b) (auto simp: no_colon_def)
qed

lemma storage_key_inj:
  assumes "no_colon i" "no_colon i'" "no_colon t" "no_colon t'"
  shows "storage_key i v t = storage_key i' v' t' \<longleftrightarrow> i = i' \<and> v = v' \<and> t = t'"
proof
  assume "storage_key i v t = storage_key i' v' t'"
  then have "i @ CHR '':'' # (t @ CHR '':'' # v) = i' @ CHR '':'' # (t' @ CHR '':'' # v')"
    by (simp add: storage_key_def)
  from colon_split [OF assms(1,2) this] colon_split [OF assms(3,4)]
  show "i = i' \<and> v = v' \<and> t = t'" by blast
qed simp

definition state_save :: "'s state_store \<Rightarrow> string \<times> string \<Rightarrow> state_item \<Rightarrow> int \<Rightarrow> 's \<Rightarrow> 's" where
  "state_save r k x m s =
     (case k of (nid, iv) \<Rightarrow> case x of (now, v, ttl) \<Rightarrow> fst (save_state r now nid iv v m ttl s))"

definition history_key :: "string \<times> string \<Rightarrow> string" where
  "history_key k = storage_key (fst k) (snd k) ''history''"

definition key_fine :: "string \<times> string \<Rightarrow> bool" where
  "key_fine k \<longleftrightarrow> no_colon (fst k)"

definition item_fine :: "state_item \<Rightarrow> bool" where
  "item_fine x \<longleftrightarrow> json_ok (fst (snd x)) \<and> ttl_ok (snd (snd x))"

definition item_of_save :: "state_item \<Rightarrow> pyval" where
  "item_of_save x = history_item (fst x) (fst (snd x))"

text \<open>Histories are lists and meta data plain values.\<close>

definition separate :: "'s store_view \<Rightarrow> 's \<Rightarrow> bool" where
  "separate v s \<longleftrightarrow>
     (\<forall>k. key_fine k \<longrightarrow> sv_val v s (history_key k) = None \<and> sv_list v s (storage_key (fst k) (snd k) ''meta'') = [])"

lemma separateD:
  assumes "separate v s" "key_fine k"
  shows "sv_val v s (history_key k) = None" "sv_list v s (storage_key (fst k) (snd k) ''meta'') = []"
  using assms unfolding separate_def by blast+

lemma separate_elapse: "store_laws r v \<Longrightarrow> separate v s \<Longrightarrow> separate v (rs_elapse r d s)"
  by (simp add: separate_def elapse_works(2,3))

lemma keys_differ_meta: "key_fine k \<Longrightarrow> key_fine k' \<Longrightarrow> history_key k \<noteq> storage_key (fst k') (snd k') ''meta''"
  by (simp add: history_key_def key_fine_def storage_key_inj no_colon_def)

lemma history_key_inj: "key_fine k \<Longrightarrow> key_fine k' \<Longrightarrow> history_key k = history_key k' \<longleftrightarrow> k = k'"
  by (simp add: history_key_def key_fine_def storage_key_inj no_colon_def prod_eq_iff)

definition history_log :: "'s store_view \<Rightarrow> 's \<Rightarrow> string \<times> string \<Rightarrow> json_text log" where
  "history_log v s k = (sv_list v s (history_key k), sv_life v s (history_key k))"

lemma history_log_elapse: "store_laws r v \<Longrightarrow> history_log v (rs_elapse r d s) k = log_wait d (history_log v s k)"
  by (simp add: history_log_def elapse_works(1))

lemma pushed_log:
  assumes "sv_list v s' = (sv_list v s)(history_key k := redis_range 0 (m - 1) (e # sv_list v s (history_key k)))"
    and "sv_life v s' = (sv_life v s)(history_key k := if ttl = None then sv_life v s (history_key k) else life_of ttl)"
    and "key_fine k" "key_fine k'" "limit_ok m"
  shows "history_log v s' k' = (if k' = k then log_save e ttl m (history_log v s k) else history_log v s k')"
  using assms by (simp add: history_log_def history_key_inj redis_range_prefix limit_ok_def del: take_Suc_Cons)

lemma save_state_ok:
  assumes "store_laws r v" "separate v s" "no_colon nid" "json_ok x" "ttl_ok ttl" "limit_ok m"
  shows "\<exists>s'. save_state r now nid iv x m ttl s = (s', Inr True) \<and> separate v s' \<and>
    (\<forall>k. key_fine k \<longrightarrow> history_log v s' k =
      (if k = (nid, iv) then log_save (JText (history_item now x)) ttl m (history_log v s (nid, iv)) else history_log v s k))"
proof -
  let ?h = "history_key (nid, iv)" and ?m = "storage_key nid iv ''meta''"
  let ?meta = "\<lambda>n. PDict [(''last_update'', PInt now), (''count'', PInt (min m (int n))),
                              (''max_items'', PInt m), (''ttl'', int_value ttl)]"
  have f: "key_fine (nid, iv)" using assms(3) by (simp add: key_fine_def)
  have v: "sv_val v s ?h = None" and l: "sv_list v s ?m = []" using separateD [OF assms(2) f] by simp_all
  have dumps: "json_dumps (history_item now x) = Some (JText (history_item now x))"
    using assms(4) by (simp add: json_dumps_def history_item_def)
  obtain s1 where s1: "rs_execute r (push_commands ?h (JText (history_item now x)) m ttl) s = (s1, Inr ())"
      "sv_list v s1 = (sv_list v s)(?h := redis_range 0 (m - 1) (JText (history_item now x) # sv_list v s ?h))"
      "sv_val v s1 = sv_val v s"
      "sv_life v s1 = (sv_life v s)(?h := if ttl = None then sv_life v s ?h else life_of ttl)"
    using push_works [OF assms(1) v assms(5,6)] by blast
  have h: "rs_llen r ?h s1 = Inr (length (sv_list v s1 ?h))" using reads_work(2) [OF assms(1)] s1(3) v by simp
  have "sv_list v s1 ?m = []" using s1(2) l keys_differ_meta [OF f f] by (auto simp: history_key_def)
  from set_works [OF assms(1) this assms(5)] obtain s2 where s2:
      "rs_set r ?m (JText (?meta (length (sv_list v s1 ?h)))) ttl s1 = (s2, Inr True)" "sv_list v s2 = sv_list v s1"
      "sv_val v s2 = (sv_val v s1)(?m \<mapsto> JText (?meta (length (sv_list v s1 ?h))))"
      "sv_life v s2 = (sv_life v s1)(?m := life_of ttl)"
    by blast
  have "json_dumps (?meta n) = Some (JText (?meta n))" for n
    by (simp add: json_dumps_def int_value_def split: option.split)
  with s2(1) have "set_value r ?m (?meta (length (sv_list v s1 ?h))) ttl s1 = (s2, Inr True)"
    by (simp add: set_value_def)
  then have run: "save_state r now nid iv x m ttl s = (s2, Inr True)"
    using s1(1) h dumps by (simp add: save_state_def history_key_def Let_def)
  have ne: "history_key k \<noteq> ?m" "storage_key (fst k) (snd k) ''meta'' \<noteq> ?h" if "key_fine k" for k
    using keys_differ_meta [OF that f] keys_differ_meta [OF f that] by auto
  have "separate v s2"
    unfolding separate_def using separateD [OF assms(2)] ne s2(2,3) s1(2,3) by simp
  moreover have "history_log v s2 k = history_log v s1 k" if "key_fine k" for k
    using ne(1) [OF that] s2(2,4) by (simp add: history_log_def)
  moreover note pushed_log [OF s1(2,4) f _ assms(6)]
  ultimately show ?thesis using run by auto
qed

text \<open>The state manager and the client are bounded histories.\<close>

interpretation state: bounded_history "state_save r" "rs_elapse r" "history_log v" "\<lambda>x. JText (item_of_save x)"
    "\<lambda>x. snd (snd x)" key_fine item_fine "\<lambda>s. store_laws r v \<and> separate v s" for r v
proof
  fix s and k :: "string \<times> string" and x :: state_item and m :: int
  assume s: "store_laws r v \<and> separate v s" and k: "key_fine k" and x: "item_fine x" and m: "limit_ok m"
  obtain s' where s': "save_state r (fst x) (fst k) (snd k) (fst (snd x)) m (snd (snd x)) s = (s', Inr True)"
      "separate v s'" "\<forall>k'. key_fine k' \<longrightarrow> history_log v s' k' =
        (if k' = k then log_save (JText (item_of_save x)) (snd (snd x)) m (history_log v s k) else history_log v s k')"
    using save_state_ok [of r v s "fst k" "fst (snd x)" "snd (snd x)" m "fst x" "snd k"] s k x m
    by (auto simp: key_fine_def item_fine_def item_of_save_def)
  have run: "state_save r k x m s = s'" using s'(1) by (simp add: state_save_def split_beta)
  show "history_log v (state_save r k x m s) k' =
      (if k' = k then log_save (JText (item_of_save x)) (snd (snd x)) m (history_log v s k) else history_log v s k')"
    if "key_fine k'" for k'
    using s'(3) [rule_format, OF that] by (simp add: run)
  show "store_laws r v \<and> separate v (state_save r k x m s)"
    using s s'(2) by (simp add: run)
qed (simp_all add: history_log_elapse separate_elapse)

definition client_save ::
  "'s state_store client_class \<Rightarrow> string \<times> string \<Rightarrow> json_text \<times> int option \<Rightarrow> int \<Rightarrow> 's \<Rightarrow> 's" where
  "client_save c k x m s = fst (client_save_history c (fst k) (snd k) (fst x) m (snd x) s)"

definition client_elapse :: "'s state_store client_class \<Rightarrow> nat \<Rightarrow> 's \<Rightarrow> 's" where
  "client_elapse c d s = (case client_conn c of Inl e \<Rightarrow> s | Inr r \<Rightarrow> rs_elapse r d s)"

interpretation client: bounded_history "client_save c" "client_elapse c" "history_log v" fst snd
    key_fine "\<lambda>x. ttl_ok (snd x)"
    "\<lambda>s. \<exists>r. client_conn c = Inr r \<and> store_laws r v \<and> separate v s" for c v
proof
  fix s and k :: "string \<times> string" and x :: "json_text \<times> int option" and m :: int
  assume "\<exists>r. client_conn c = Inr r \<and> store_laws r v \<and> separate v s"
  then obtain r where r: "client_conn c = Inr r" "store_laws r v" "separate v s" by blast
  assume k: "key_fine k" and x: "ttl_ok (snd x)" and m: "limit_ok m"
  have "sv_val v s (history_key k) = None" using r(3) k by (rule separateD)
  from push_works [OF r(2) this x m] obtain s' where s':
      "rs_execute r (push_commands (history_key k) (fst x) m (snd x)) s = (s', Inr ())"
      "sv_list v s' = (sv_list v s)(history_key k := redis_range 0 (m - 1) (fst x # sv_list v s (history_key k)))"
      "sv_val v s' = sv_val v s"
      "sv_life v s' = (sv_life v s)(history_key k := if snd x = None then sv_life v s (history_key k) else life_of (snd x))"
    by blast
  have run: "client_save c k x m s = s'"
    using s'(1) r(1) by (simp add: client_save_def client_save_history_def history_key_def)
  show "history_log v (client_save c k x m s) k' =
      (if k' = k then log_save (fst x) (snd x) m (history_log v s k) else history_log v s k')"
    if "key_fine k'" for k'
    using pushed_log [OF s'(2,4) k that m] by (simp add: run)
  have "separate v s'"
    unfolding separate_def using separateD [OF r(3)] keys_differ_meta [OF k, symmetric] s'(2,3) by simp
  then show "\<exists>r. client_conn c = Inr r \<and> store_laws r v \<and> separate v (client_save c k x m s)"
    using r by (auto simp: run)
qed (auto simp: client_elapse_def history_log_elapse separate_elapse)

section \<open>Properties\<close>

lemma parse_items_JText: "parse_items (map (\<lambda>x. JText (f x)) xs) = map f xs"
  by (induction xs) (simp_all add: parse_items_def json_loads_def)

definition between :: "int option \<Rightarrow> int option \<Rightarrow> int \<Rightarrow> bool" where
  "between t0 t1 now \<longleftrightarrow> (set_arg t0 \<longrightarrow> the t0 < now) \<and> (set_arg t1 \<longrightarrow> now \<le> the t1)"

lemma in_window_item: "in_window t0 t1 (history_item now v) \<longleftrightarrow> between t0 t1 now"
  by (auto simp: in_window_def history_item_def compare_ts_def between_def)

lemma filter_window:
  "filter (in_window t0 t1) (map item_of_save xs) = map item_of_save (filter (\<lambda>x. between t0 t1 (fst x)) xs)"
  by (simp add: filter_map comp_def item_of_save_def in_window_item)

type_synonym state_op = "(string \<times> string, state_item) history_op"

definition run_saves :: "'s state_store \<Rightarrow> state_op list \<Rightarrow> 's \<Rightarrow> 's" where
  "run_saves r ops s = fold (history_step (state_save r) (rs_elapse r)) ops s"

text \<open>
  C26: whatever values are saved for whatever nodes and intervals, with whatever time in between, a read of at least
  one item returns the newest items of its own node and interval, newest first: what is left in a log that
  each save cuts at its limit and that is emptied when the lifetime its last save with one gave it has run out,
  from after the start time to the end time included, at most
  \<open>count\<close> of them. Node ids are free of colons, limits and lifetimes positive and in the range the server takes, and
  the values serialisable. The time stamps are those of the client's clock, which may say anything.
\<close>
theorem state_history_refines_log:
  assumes "store_laws r v" "separate v s" "sv_list v s (history_key (nid, iv)) = []"
    and ops: "\<forall>op \<in> set ops. op_fine key_fine item_fine op"
    and "no_colon nid" "limit_ok c"
  shows "read_state r nid iv c t0 t1 (run_saves r ops s) =
    Inr (map item_of_save (take (nat c)
      (filter (\<lambda>x. between t0 t1 (fst x)) (fst (hist_log id (\<lambda>x. snd (snd x)) ops (nid, iv) ([], None))))))"
proof -
  let ?s = "run_saves r ops s" and ?k = "history_key (nid, iv)"
  let ?log = "fst (hist_log id (\<lambda>x. snd (snd x)) ops (nid, iv) ([], None))"
  have f: "key_fine (nid, iv)" using assms(5) by (simp add: key_fine_def)
  have "sv_life v s ?k = None" using reads_work(3) [OF assms(1)] separateD(1) [OF assms(2) f] assms(3) by simp
  then have start: "history_log v s (nid, iv) = ([], None)" using assms(3) by (simp add: history_log_def)
  have sep: "separate v ?s"
    and log: "history_log v ?s (nid, iv) = hist_log (\<lambda>x. JText (item_of_save x)) (\<lambda>x. snd (snd x)) ops (nid, iv) ([], None)"
    using state.view_run [OF conjI [OF assms(1,2)] ops f] by (simp_all add: run_saves_def start)
  have "hist_log (\<lambda>x. JText (item_of_save x)) (\<lambda>x. snd (snd x)) ops (nid, iv) ([], None) =
      apfst (map (\<lambda>x. JText (item_of_save x))) (hist_log id (\<lambda>x. snd (snd x)) ops (nid, iv) ([], None))"
    using hist_log_map [of "\<lambda>x. JText (item_of_save x)" id _ ops "(nid, iv)" "([], None)"] by (simp add: comp_def)
  then have h: "sv_list v ?s ?k = map (\<lambda>x. JText (item_of_save x)) ?log"
    using log arg_cong [of _ _ fst] by (simp add: history_log_def) (metis fst_apfst fst_conv)
  note range = reads_work(1) [OF assms(1) separateD(1) [OF sep f]]
  have idx: "index_ok 0" "index_ok (- 1)" "index_ok (c - 1)" using assms(6) by (simp_all add: index_ok_def limit_ok_def)
  have c: "0 < c" using assms(6) by (simp add: limit_ok_def)
  show ?thesis
  proof (cases "set_arg t0 \<or> set_arg t1")
    case True
    have "take_py c (map item_of_save (filter (\<lambda>x. between t0 t1 (fst x)) ?log)) =
        map item_of_save (take (nat c) (filter (\<lambda>x. between t0 t1 (fst x)) ?log))"
      using c by (simp add: take_py_def take_map)
    with True show ?thesis
      by (auto simp: read_state_def history_key_def [of "(nid, iv)", simplified, symmetric] range idx h redis_range_all
          parse_items_JText filter_window)
  next
    case False
    then have "filter (\<lambda>x. between t0 t1 (fst x)) ?log = ?log" by (simp add: between_def)
    with False c show ?thesis
      by (simp add: read_state_def history_key_def [of "(nid, iv)", simplified, symmetric] range idx h
          redis_range_prefix take_map parse_items_JText)
  qed
qed

text \<open>
  \<open>clean_expired_data\<close> never cleans anything. A key that exists has a TTL of -1 or more and is
  skipped, one that is gone is deleted to no effect: the state stays as it is and the answer is 0,
  whatever the scan finds.
\<close>
theorem clean_expired_is_noop:
  assumes "\<forall>k s. present s k \<longrightarrow> (\<exists>t. - 1 \<le> t \<and> rs_ttl r k s = Inr t)"
    and "\<forall>k s. \<not> present s k \<longrightarrow> rs_ttl r k s = Inr (- 2) \<and> rs_delete r [k] s = (s, Inr 0)"
    and "rs_scan r (key_pattern nid) s = Inr ks"
  shows "clean_expired_data r nid s = (s, Inr 0)"
proof -
  let ?skip = "\<lambda>k s. bind_res (rs_ttl r k s) (\<lambda>t. Inr (0 \<le> t \<or> t = - 1))"
  have "delete_each ?skip r ks 0 s = (s, Inr 0)" for ks
  proof (induction ks)
    case Nil
    then show ?case by simp
  next
    case (Cons k ks)
    show ?case
    proof (cases "present s k")
      case True
      then obtain t where "- 1 \<le> t" "rs_ttl r k s = Inr t" using assms(1) by blast
      moreover from this(1) have "0 \<le> t \<or> t = - 1" by linarith
      ultimately show ?thesis using Cons.IH by (simp del: disj_not1)
    next
      case False
      then have "rs_ttl r k s = Inr (- 2)" "rs_delete r [k] s = (s, Inr 0)" using assms(2) by auto
      then show ?thesis using Cons.IH by simp
    qed
  qed
  then show ?thesis using assms(3) by (simp add: clean_expired_data_def scan_delete_def)
qed

text \<open>
  The first construction decides for good. When it is given no settings it raises, but every
  later construction succeeds, with settings or without, and none of them ever connects: each access
  to the connection raises. When it is given settings, later constructions keep its connection.
\<close>
theorem first_construction_decides:
  "snd (redis_client connect None new_client_class) = raises ValueError ''RedisSettings must be provided on first init'' \<and>
   (let c = fold (\<lambda>p c. fst (redis_client connect p c)) ps (fst (redis_client connect None new_client_class)) in
      snd (redis_client connect p c) = Inr () \<and>
      client_conn c = raises RuntimeError ''Redis connection is not initialized'' \<and>
      client_save_history c nid iv t m ttl s = (s, raises RuntimeError ''Redis connection is not initialized'')) \<and>
   client_conn (fold (\<lambda>p c. fst (redis_client connect p c)) ps (fst (redis_client connect (Some cfg) new_client_class))) =
     Inr (connect cfg)"
proof -
  have keep: "fold (\<lambda>p c. fst (redis_client connect p c)) ps c = c" if "cl_instance c" for c
    using that by (induction ps) (simp_all add: redis_client_def)
  have none: "redis_client connect None new_client_class =
      (\<lparr>cl_instance = True, cl_connection = None\<rparr>, raises ValueError ''RedisSettings must be provided on first init'')"
    and some: "redis_client connect (Some cfg) new_client_class =
      (\<lparr>cl_instance = True, cl_connection = Some (connect cfg)\<rparr>, Inr ())"
    and later: "redis_client connect p \<lparr>cl_instance = True, cl_connection = x\<rparr> =
      (\<lparr>cl_instance = True, cl_connection = x\<rparr>, Inr ())" for x
    by (simp_all add: redis_client_def new_client_class_def)
  show ?thesis
    by (simp add: none some keep later client_conn_def client_save_history_def Let_def)
qed

section \<open>A server for the examples\<close>

record hist_store =
  hs_lists :: "string \<Rightarrow> json_text list"
  hs_vals :: "string \<Rightarrow> json_text option"
  hs_life :: "string \<Rightarrow> int option"

definition demo_present :: "hist_store \<Rightarrow> string \<Rightarrow> bool" where
  "demo_present s k \<longleftrightarrow> hs_lists s k \<noteq> [] \<or> hs_vals s k \<noteq> None"

definition demo_life :: "hist_store \<Rightarrow> string \<Rightarrow> int option" where
  "demo_life s k = (if demo_present s k then hs_life s k else None)"

fun run_command :: "command \<Rightarrow> hist_store \<Rightarrow> hist_store" where
  "run_command (LPush k t) s = s\<lparr>hs_lists := (hs_lists s)(k := t # hs_lists s k), hs_life := (hs_life s)(k := demo_life s k)\<rparr>"
| "run_command (LTrim k i j) s = s\<lparr>hs_lists := (hs_lists s)(k := redis_range i j (hs_lists s k))\<rparr>"
| "run_command (Expire k n) s = s\<lparr>hs_life := (hs_life s)(k := Some (1000 * n))\<rparr>"

definition demo_elapse :: "nat \<Rightarrow> hist_store \<Rightarrow> hist_store" where
  "demo_elapse d s =
     (let gone = (\<lambda>k. case demo_life s k of None \<Rightarrow> False | Some t \<Rightarrow> t \<le> int d) in
      \<lparr>hs_lists = (\<lambda>k. if gone k then [] else hs_lists s k), hs_vals = (\<lambda>k. if gone k then None else hs_vals s k),
       hs_life = (\<lambda>k. map_option (\<lambda>t. t - int d) (demo_life s k))\<rparr>)"

definition demo_store :: "hist_store state_store" where
  "demo_store =
     \<lparr>rs_execute = (\<lambda>cs s. (fold run_command cs s, Inr ())),
      rs_lrange = (\<lambda>k i j s. Inr (redis_range i j (hs_lists s k))),
      rs_llen = (\<lambda>k s. Inr (length (hs_lists s k))),
      rs_set = (\<lambda>k t ex s. (s\<lparr>hs_vals := (hs_vals s)(k \<mapsto> t), hs_life := (hs_life s)(k := life_of ex)\<rparr>, Inr True)),
      rs_get = (\<lambda>k s. Inr (hs_vals s k)),
      rs_delete = (\<lambda>ks s.
        (s\<lparr>hs_lists := (\<lambda>k. if k \<in> set ks then [] else hs_lists s k),
           hs_vals := (\<lambda>k. if k \<in> set ks then None else hs_vals s k)\<rparr>,
         Inr (length (filter (demo_present s) ks)))),
      rs_expire = (\<lambda>k n s. (s\<lparr>hs_life := (hs_life s)(k := Some (1000 * n))\<rparr>, Inr (demo_present s k))),
      rs_ttl = (\<lambda>k s. Inr (if demo_present s k then (case hs_life s k of None \<Rightarrow> - 1 | Some t \<Rightarrow> max 0 (t div 1000)) else - 2)),
      rs_exists = (\<lambda>k s. Inr (if demo_present s k then 1 else 0)),
      rs_scan = (\<lambda>_ _. Inr [''node:n:history:1d'']),
      rs_keys = (\<lambda>_ _. Inr []),
      rs_elapse = demo_elapse\<rparr>"

definition demo_server_view :: "hist_store store_view" where
  "demo_server_view = \<lparr>sv_list = hs_lists, sv_val = hs_vals, sv_life = demo_life\<rparr>"

definition empty_hist :: hist_store where
  "empty_hist = \<lparr>hs_lists = (\<lambda>_. []), hs_vals = (\<lambda>_. None), hs_life = (\<lambda>_. None)\<rparr>"

lemma demo_store_laws: "store_laws demo_store demo_server_view"
proof -
  have "push_law demo_store demo_server_view"
    by (auto simp: push_law_def demo_store_def demo_server_view_def demo_life_def demo_present_def limit_ok_def life_of_def
        redis_range_prefix fun_eq_iff split: option.split)
  moreover have "set_law demo_store demo_server_view"
    by (auto simp: set_law_def demo_store_def demo_server_view_def demo_life_def demo_present_def fun_eq_iff)
  moreover have "elapse_law demo_store demo_server_view"
    by (auto simp: elapse_law_def demo_store_def demo_server_view_def demo_elapse_def demo_life_def demo_present_def
        split: option.split)
  ultimately show ?thesis
    by (simp add: store_laws_def) (simp add: demo_store_def demo_server_view_def demo_life_def demo_present_def)
qed

lemma demo_separate: "separate demo_server_view empty_hist"
  by (simp add: separate_def demo_server_view_def empty_hist_def)

definition demo_saves :: "state_op list" where
  "demo_saves = [Saved (''n'', ''1d'') (5, PInt 1, None) 2, Saved (''m'', ''1d'') (6, PInt 9, Some 1) 2,
     Saved (''n'', ''1d'') (7, PInt 2, Some 60) 2, Waited 30000, Saved (''n'', ''1d'') (8, PInt 3, None) 2, Waited 29999]"

theorem state_history_refines_log_witness:
  "read_state demo_store ''n'' ''1d'' 5 (Some 7) None (run_saves demo_store demo_saves empty_hist) = Inr [history_item 8 (PInt 3)] \<and>
   read_state demo_store ''m'' ''1d'' 5 None None (run_saves demo_store demo_saves empty_hist) = Inr []"
proof -
  have e: "sv_list demo_server_view empty_hist k = []" for k by (simp add: demo_server_view_def empty_hist_def)
  have ops: "\<forall>op \<in> set demo_saves. op_fine key_fine item_fine op"
    by (simp add: demo_saves_def key_fine_def item_fine_def no_colon_def ttl_ok_def limit_ok_def)
  have fine: "no_colon ''n''" "no_colon ''m''" "limit_ok 5" by (simp_all add: no_colon_def limit_ok_def)
  note run = state_history_refines_log [OF demo_store_laws demo_separate e ops _ fine(3)]
  show ?thesis
    unfolding run [OF fine(1)] run [OF fine(2)]
    by (simp add: demo_saves_def between_def set_arg_def item_of_save_def life_of_def)
qed

theorem clean_expired_is_noop_witness: "clean_expired_data demo_store None empty_hist = (empty_hist, Inr 0)"
proof (rule clean_expired_is_noop [where present = demo_present])
  show "\<forall>k s. demo_present s k \<longrightarrow> (\<exists>t. - 1 \<le> t \<and> rs_ttl demo_store k s = Inr t)"
    by (auto simp: demo_store_def split: option.split)
  show "\<forall>k s. \<not> demo_present s k \<longrightarrow> rs_ttl demo_store k s = Inr (- 2) \<and> rs_delete demo_store [k] s = (s, Inr 0)"
    by (auto simp: demo_store_def demo_present_def fun_eq_iff intro!: hist_store.equality)
  show "rs_scan demo_store (key_pattern None) empty_hist = Inr [''node:n:history:1d'']"
    by (simp add: demo_store_def)
qed

end
