(* ===== verification/Streams.thy ===== *)
theory Streams
  imports Errors
begin

text \<open>
  Topics and messages: \<open>sdk/topic.py\<close> and \<open>StreamProcessor\<close> (\<open>sdk/execution/stream_processor.py\<close>).

  Kafka is a parameter: \<open>produce\<close> sends a message and flushes, \<open>subscribe\<close> sets the topics of a
  consumer group, \<open>poll\<close> takes the next message of a group, \<open>list_topics\<close> and \<open>create_topics\<close> are
  the calls of the admin client. Producers and consumers are created on first use; which exist is
  not part of the state. The bytes of a message are a JSON text, or nothing when they are not UTF-8.
\<close>

section \<open>Names of topics\<close>

definition topic_char :: "char \<Rightarrow> bool" where
  "topic_char c \<longleftrightarrow>
     c \<in> set ''abcdefghijklmnopqrstuvwxyzABCDEFGHIJKLMNOPQRSTUVWXYZ0123456789_.-''"

definition sanitize_name :: "string \<Rightarrow> string" where
  "sanitize_name name = map (\<lambda>c. if topic_char c then c else CHR ''_'') name"

definition get_input_topic :: "string \<Rightarrow> string \<Rightarrow> string" where
  "get_input_topic pipeline_name node_name =
     ''qmtl.input.'' @ sanitize_name pipeline_name @ ''.'' @ sanitize_name node_name"

definition get_output_topic :: "string \<Rightarrow> string \<Rightarrow> string" where
  "get_output_topic pipeline_name node_name =
     ''qmtl.output.'' @ sanitize_name pipeline_name @ ''.'' @ sanitize_name node_name"

section \<open>Kafka\<close>

record kafka_message =
  km_error :: "int option"
  km_topic :: string
  km_partition :: int
  km_offset :: int
  km_key :: "string option res"
  km_value :: "json_text res"

record 'w kafka =
  produce :: "string \<Rightarrow> json_text \<Rightarrow> string option \<Rightarrow> 'w \<Rightarrow> ('w, exn, unit) outcome"
  subscribe_topics :: "string \<Rightarrow> string list \<Rightarrow> 'w \<Rightarrow> ('w, exn, unit) outcome"
  poll :: "string \<Rightarrow> 'w \<Rightarrow> ('w, exn, kafka_message option) outcome"
  list_topics :: "'w \<Rightarrow> ('w, exn, string list) outcome"
  create_topics :: "string \<Rightarrow> nat \<Rightarrow> nat \<Rightarrow> 'w \<Rightarrow> ('w, exn, unit) outcome"

text \<open>\<open>create_topics\<close> includes the wait for its result.\<close>

definition create_topic :: "'w kafka \<Rightarrow> string \<Rightarrow> nat \<Rightarrow> nat \<Rightarrow> 'w \<Rightarrow> ('w, exn, bool) outcome" where
  "create_topic k topic partitions replication w =
     and_then (list_topics k w) (\<lambda>ts w.
       if topic \<in> set ts then (w, Inr True)
       else
         (case create_topics k topic partitions replication w of
            (w', Inr _) \<Rightarrow> (w', Inr True)
          | (w', Inl e) \<Rightarrow>
              if caught e then (w', Inr (occurs_in ''Topic already exists'' (ex_msg e))) else (w', Inl e)))"

section \<open>StreamProcessor\<close>

text \<open>An empty key is sent as none. Errors are logged and raised again.\<close>

definition publish :: "'w kafka \<Rightarrow> string \<Rightarrow> pyval \<Rightarrow> string option \<Rightarrow> 'w \<Rightarrow> ('w, exn, unit) outcome" where
  "publish k topic v key w =
     (case json_dumps v of
        None \<Rightarrow> (w, raises TypeError ''Object is not JSON serializable'')
      | Some t \<Rightarrow> produce k topic t (if key = Some [] then None else key) w)"

definition subscribe :: "'w kafka \<Rightarrow> string \<Rightarrow> string list \<Rightarrow> 'w \<Rightarrow> ('w, exn, unit) outcome" where
  "subscribe k grp topics w = subscribe_topics k grp topics w"

record message =
  msg_topic :: string
  msg_partition :: int
  msg_offset :: int
  msg_key :: "string option"
  msg_value :: pyval

text \<open>The message that a polled one denotes; one with an error or that does not decode is dropped.\<close>

definition decode_message :: "kafka_message \<Rightarrow> message res" where
  "decode_message m =
     bind_res (km_value m) (\<lambda>t.
       case json_loads t of
         None \<Rightarrow> raises ValueError ''Expecting value''
       | Some v \<Rightarrow>
           bind_res (km_key m) (\<lambda>key.
             Inr \<lparr>msg_topic = km_topic m, msg_partition = km_partition m, msg_offset = km_offset m,
                  msg_key = (if key = Some [] then None else key), msg_value = v\<rparr>))"

definition received :: "kafka_message option \<Rightarrow> message option res" where
  "received m =
     (case m of
        None \<Rightarrow> Inr None
      | Some m \<Rightarrow>
          if km_error m \<noteq> None then Inr None
          else (case decode_message m of Inr x \<Rightarrow> Inr (Some x) | Inl e \<Rightarrow> if caught e then Inr None else Inl e))"

definition consume :: "'w kafka \<Rightarrow> string \<Rightarrow> 'w \<Rightarrow> ('w, exn, message option) outcome" where
  "consume k grp w =
     (case poll k grp w of
        (w', Inl e) \<Rightarrow> (w', if caught e then Inr None else Inl e)
      | (w', Inr m) \<Rightarrow> (w', received m))"

section \<open>Topic names\<close>

lemma sanitize_idem: "sanitize_name (sanitize_name s) = sanitize_name s"
proof -
  have "topic_char (CHR ''_'')" by (simp add: topic_char_def)
  then show ?thesis by (simp add: sanitize_name_def)
qed

lemma output_topic_inj:
  "get_output_topic p a = get_output_topic p b \<longleftrightarrow> sanitize_name a = sanitize_name b"
  by (simp add: get_output_topic_def)

lemma output_not_input: "get_output_topic p a \<noteq> get_input_topic q b"
  by (simp add: get_output_topic_def get_input_topic_def)

text \<open>What is published arrives as it was sent.\<close>

lemma published_message:
  "json_dumps v = Some t \<Longrightarrow>
     received (Some \<lparr>km_error = None, km_topic = topic, km_partition = i, km_offset = j, km_key = Inr None, km_value = Inr t\<rparr>) =
     Inr (Some \<lparr>msg_topic = topic, msg_partition = i, msg_offset = j, msg_key = None, msg_value = v\<rparr>)"
  by (simp add: received_def decode_message_def json_roundtrip)

end
