(* ===== verification/ParallelEngine.thy ===== *)
theory ParallelEngine
  imports StateManager Streams Pipeline
begin

text \<open>
  The parallel execution engine (\<open>sdk/execution/parallel_engine.py\<close>): one coroutine per node, joined
  by Kafka topics, with the history in Redis.

  \<open>'w\<close> is the state of the outside world, Kafka and Redis. The coroutines run one at a time and
  give way only when they wait; a run is given by the sequence of their turns. \<open>now\<close> is the time
  the state manager reads in a turn. A node class of the SDK has no attribute
  \<open>interval_settings\<close>, so the branches that need one are never taken.
\<close>

section \<open>Registration\<close>

record parallel_engine =
  node_topics :: "(string, string \<times> string) dict"
  started :: "string list"

text \<open>Failures to create a topic are logged.\<close>

definition try_create :: "'w kafka \<Rightarrow> string \<Rightarrow> 'w \<Rightarrow> ('w, exn, unit) outcome" where
  "try_create k topic w =
     (case create_topic k topic 1 1 w of
        (w', Inr _) \<Rightarrow> (w', Inr ())
      | (w', Inl e) \<Rightarrow> if caught e then (w', Inr ()) else (w', Inl e))"

definition register_stream_node ::
  "'w kafka \<Rightarrow> string \<Rightarrow> string \<Rightarrow> parallel_engine \<times> 'w \<Rightarrow> (parallel_engine \<times> 'w, exn, string \<times> string) outcome" where
  "register_stream_node k node_name pipeline_name ew =
     (case ew of (e, w) \<Rightarrow>
        let p = (if pipeline_name = [] then ''default'' else pipeline_name);
            ts = (get_input_topic p node_name, get_output_topic p node_name);
            e' = e\<lparr>node_topics := AList.update node_name ts (node_topics e)\<rparr> in
        case and_then (try_create k (fst ts) w) (\<lambda>_. try_create k (snd ts)) of
          (w', Inl x) \<Rightarrow> ((e', w'), Inl x)
        | (w', Inr _) \<Rightarrow> ((e', w'), Inr ts))"

definition prepare_pipeline ::
  "nat \<Rightarrow> (string list \<Rightarrow> string list) \<Rightarrow> 'w kafka \<Rightarrow> pipeline \<Rightarrow> parallel_engine \<times> 'w
     \<Rightarrow> (pipeline \<times> parallel_engine \<times> 'w, exn, unit) outcome" where
  "prepare_pipeline n ord k p ew =
     (case ensure_order n ord p of
        (p', Inl e) \<Rightarrow> ((p', ew), Inl e)
      | (p', Inr _) \<Rightarrow>
          (case each (\<lambda>name ew. and_then (register_stream_node k name (pl_name p') ew) (\<lambda>_ ew. (ew, Inr ())))
                  (map fst (pl_nodes p')) ew of
             (ew', r) \<Rightarrow> ((p', ew'), r)))"

section \<open>Saving a result\<close>

text \<open>The lifetime a period asks for, when it is a text.\<close>

definition period_ttl :: "pyval \<Rightarrow> int option" where
  "period_ttl period =
     (case period of
        PStr s \<Rightarrow>
          if s = [] then None
          else
            (case py_int (butlast s) of
               None \<Rightarrow> None
             | Some n \<Rightarrow>
                 if last s = CHR ''d'' then Some (n * 24 * 60 * 60)
                 else if last s = CHR ''h'' then Some (n * 60 * 60)
                 else if last s = CHR ''m'' then Some (n * 60) else None)
      | _ \<Rightarrow> None)"

text \<open>
  \<open>interval_obj.max_history or 100\<close> as a number; with anything but an integer \<open>save_history\<close>
  fails before it writes. A dict has neither attribute.
\<close>

fun stream_limits :: "setting \<Rightarrow> int option \<times> int option" where
  "stream_limits (SettingDict d) = (Some 100, None)"
| "stream_limits (SettingObj st) =
     (if \<not> py_truthy (obj_max_history st) then Some 100
      else (case obj_max_history st of PInt i \<Rightarrow> Some i | PBool b \<Rightarrow> Some 1 | _ \<Rightarrow> None),
      period_ttl (obj_period st))"

definition save_intervals ::
  "'w state_store \<Rightarrow> int \<Rightarrow> sdk_node \<Rightarrow> pyval \<Rightarrow> 'w \<Rightarrow> ('w, exn, unit) outcome" where
  "save_intervals r now n v w =
     (case sdk_settings n of
        None \<Rightarrow> (w, Inr ())
      | Some ivs \<Rightarrow>
          each (\<lambda>(iv, st) w.
            case stream_limits st of
              (None, _) \<Rightarrow> (w, Inr ())
            | (Some m, ttl) \<Rightarrow> and_then (save_state r now (sdk_id n) iv v m ttl w) (\<lambda>_ w. (w, Inr ()))) ivs w)"

definition publish_result ::
  "'w kafka \<Rightarrow> 'w state_store \<Rightarrow> int \<Rightarrow> sdk_node \<Rightarrow> string \<Rightarrow> pyval res \<Rightarrow> 'w \<Rightarrow> ('w, exn, pyval option) outcome" where
  "publish_result k r now n topic result w =
     (case result of
        Inl e \<Rightarrow> (w, Inl e)
      | Inr v \<Rightarrow>
          and_then (publish k topic v None w) (\<lambda>_ w.
          and_then (save_intervals r now n v w) (\<lambda>_ w. (w, Inr (Some v)))))"

section \<open>The coroutine of a node\<close>

text \<open>The inputs a message gives: those of the first upstream that writes to its topic.\<close>

fun message_inputs ::
  "(string, string \<times> string) dict \<Rightarrow> string list \<Rightarrow> message \<Rightarrow> (string, pyval) dict res" where
  "message_inputs ts [] m = Inr []"
| "message_inputs ts (u # us) m =
     (case map_of ts u of
        None \<Rightarrow> raises KeyError u
      | Some (_, out) \<Rightarrow> if out = msg_topic m then Inr [(u, msg_value m)] else message_inputs ts us m)"

text \<open>
  One pass of the loop, with the value of the node when it was executed. An error is logged.
\<close>

definition loop_body ::
  "'w kafka \<Rightarrow> 'w state_store \<Rightarrow> parallel_engine \<Rightarrow> int \<Rightarrow> sdk_node \<Rightarrow> string \<Rightarrow> 'w \<Rightarrow> ('w, exn, pyval option) outcome" where
  "loop_body k r e now n output_topic w =
     (if sdk_upstreams n = [] then publish_result k r now n output_topic (execute_node n []) w
      else
        and_then (consume k (''qmtl-'' @ sdk_name n) w) (\<lambda>m w.
          case m of
            None \<Rightarrow> (w, Inr None)
          | Some m \<Rightarrow>
              (case message_inputs (node_topics e) (sdk_upstreams n) m of
                 Inl x \<Rightarrow> (w, Inl x)
               | Inr inputs \<Rightarrow>
                   if length inputs = length (sdk_upstreams n)
                   then publish_result k r now n output_topic (execute_node n inputs) w
                   else (w, Inr None))))"

definition loop_pass ::
  "'w kafka \<Rightarrow> 'w state_store \<Rightarrow> parallel_engine \<Rightarrow> int \<Rightarrow> sdk_node \<Rightarrow> string \<Rightarrow> 'w \<Rightarrow> ('w, exn, pyval option) outcome" where
  "loop_pass k r e now n output_topic w =
     (case loop_body k r e now n output_topic w of
        (w', Inl x) \<Rightarrow> (w', if caught x then Inr None else Inl x)
      | out \<Rightarrow> out)"

fun upstream_topics :: "(string, string \<times> string) dict \<Rightarrow> string list \<Rightarrow> string list res" where
  "upstream_topics ts [] = Inr []"
| "upstream_topics ts (u # us) =
     (case map_of ts u of
        None \<Rightarrow> raises KeyError u
      | Some (_, out) \<Rightarrow> bind_res (upstream_topics ts us) (\<lambda>outs. Inr (out # outs)))"

text \<open>Before its first pass the coroutine subscribes to the topics of its upstreams.\<close>

definition start_node :: "'w kafka \<Rightarrow> parallel_engine \<Rightarrow> sdk_node \<Rightarrow> 'w \<Rightarrow> ('w, exn, unit) outcome" where
  "start_node k e n w =
     (case upstream_topics (node_topics e) (sdk_upstreams n) of
        Inl x \<Rightarrow> (w, Inl x)
      | Inr ts \<Rightarrow> if ts = [] then (w, Inr ()) else subscribe k (''qmtl-'' @ sdk_name n) ts w)"

definition turn ::
  "'w kafka \<Rightarrow> 'w state_store \<Rightarrow> int \<Rightarrow> sdk_node \<Rightarrow> parallel_engine \<times> 'w
     \<Rightarrow> (parallel_engine \<times> 'w, exn, pyval option) outcome" where
  "turn k r now n ew =
     (case ew of (e, w) \<Rightarrow>
        case map_of (node_topics e) (sdk_name n) of
          None \<Rightarrow> (ew, raises KeyError (sdk_name n))
        | Some (_, out) \<Rightarrow>
            and_then
              (if sdk_name n \<in> set (started e) then (ew, Inr ())
               else (case start_node k e n w of (w', x) \<Rightarrow> ((e\<lparr>started := started e @ [sdk_name n]\<rparr>, w'), x)))
              (\<lambda>_ ew. case ew of (e, w) \<Rightarrow>
                 case loop_pass k r e now n out w of (w', x) \<Rightarrow> ((e, w'), x)))"

section \<open>A run\<close>

text \<open>
  The turns up to the end of the run, with the values of the nodes that were executed. An error
  that leaves a coroutine ends the run.
\<close>

fun turns ::
  "'w kafka \<Rightarrow> 'w state_store \<Rightarrow> (string, sdk_node) dict \<Rightarrow> (string \<times> int) list \<Rightarrow> parallel_engine \<times> 'w
     \<Rightarrow> (parallel_engine \<times> 'w, exn, (string \<times> pyval) list) outcome" where
  "turns k r ns [] ew = (ew, Inr [])"
| "turns k r ns ((name, now) # sched) ew =
     (case map_of ns name of
        None \<Rightarrow> turns k r ns sched ew
      | Some n \<Rightarrow>
          and_then (turn k r now n ew) (\<lambda>v ew.
          and_then (turns k r ns sched ew) (\<lambda>vs ew.
            (ew, Inr (case v of None \<Rightarrow> vs | Some v \<Rightarrow> (name, v) # vs)))))"

text \<open>The attribute that \<open>execute_pipeline\<close> reads after the run, which the node classes do not have.\<close>

definition interval_settings_attr :: "sdk_node \<Rightarrow> (string, pyval) dict res" where
  "interval_settings_attr n = raises AttributeError ''no attribute interval_settings''"

fun collect_results ::
  "'w state_store \<Rightarrow> (string, sdk_node) dict \<Rightarrow> (string, pyval) dict \<Rightarrow> 'w \<Rightarrow> (string, pyval) dict res" where
  "collect_results r [] acc w = Inr acc"
| "collect_results r ((name, n) # ns) acc w =
     bind_res (interval_settings_attr n) (\<lambda>st.
       if st = [] then collect_results r ns acc w
       else
         bind_res (read_state r (sdk_id n) (fst (hd st)) 1 None None w) (\<lambda>h.
           if h = [] then collect_results r ns acc w
           else bind_res (item_values [hd h]) (\<lambda>vs. collect_results r ns (AList.update name (hd vs) acc) w)))"

definition parallel_run ::
  "nat \<Rightarrow> (string list \<Rightarrow> string list) \<Rightarrow> 'w kafka \<Rightarrow> 'w state_store \<Rightarrow> (string \<times> int) list \<Rightarrow> pipeline
     \<Rightarrow> parallel_engine \<times> 'w \<Rightarrow> (pipeline \<times> parallel_engine \<times> 'w, exn, (string, pyval) dict) outcome" where
  "parallel_run n ord k r sched p ew =
     and_then (prepare_pipeline n ord k p ew) (\<lambda>_ pew.
       case pew of (p, e, w) \<Rightarrow>
         case turns k r (pl_nodes p) sched (e, w) of
           (ew', Inl x) \<Rightarrow> ((p, ew'), Inl x)
         | (ew', Inr _) \<Rightarrow> ((p, ew'), collect_results r (pl_nodes p) [] (snd ew')))"

section \<open>Properties\<close>

lemma message_inputs_short: "message_inputs ts us m = Inr ins \<Longrightarrow> length ins \<le> 1"
  by (induction us) (auto split: option.splits if_splits)

lemma join_pass:
  assumes "2 \<le> length (sdk_upstreams n)"
  shows "\<exists>x. loop_pass k r e now n out w = (fst (consume k (''qmtl-'' @ sdk_name n) w), x) \<and> (\<forall>v. x \<noteq> Inr (Some v))"
proof -
  have ne: "sdk_upstreams n \<noteq> []" using assms by auto
  obtain w1 c where c: "consume k (''qmtl-'' @ sdk_name n) w = (w1, c)" by (cases "consume k (''qmtl-'' @ sdk_name n) w")
  have short: "length ins \<noteq> length (sdk_upstreams n)" if "message_inputs (node_topics e) (sdk_upstreams n) m = Inr ins" for m ins
    using message_inputs_short [OF that] assms by linarith
  show ?thesis
  proof (cases c)
    case (Inl x)
    then show ?thesis using ne c by (simp add: loop_pass_def loop_body_def)
  next
    case (Inr m)
    show ?thesis
    proof (cases m)
      case None
      then show ?thesis using ne c Inr by (simp add: loop_pass_def loop_body_def)
    next
      case (Some m')
      then show ?thesis using ne c Inr short
        by (cases "message_inputs (node_topics e) (sdk_upstreams n) m'") (simp_all add: loop_pass_def loop_body_def)
    qed
  qed
qed

lemma turn_value:
  assumes "turn k r now n ew = (ew', Inr (Some v))"
  shows "length (sdk_upstreams n) \<le> 1"
proof (rule ccontr)
  assume "\<not> length (sdk_upstreams n) \<le> 1"
  then have "2 \<le> length (sdk_upstreams n)" by simp
  note join = join_pass [OF this, of k r _ now]
  have "loop_pass k r e now n out w \<noteq> (w', Inr (Some v))" for e out w w' using join [of e out w] by auto
  then show False
    using assms by (auto simp: turn_def and_then_def split: prod.splits sum.splits option.splits if_splits)
qed

text \<open>
  C27: a node that joins several upstreams never runs. A pass of its loop takes a message, finds the
  value of one upstream in it, and as the others are missing drops it: it publishes and saves nothing, whatever
  arrives. So whatever turns the coroutines take, the nodes executed in a run have at most one
  upstream.
\<close>
theorem joins_never_run:
  assumes "turns k r ns sched ew = (ew', Inr vs)"
  shows "(\<forall>(name, v) \<in> set vs. \<exists>n. map_of ns name = Some n \<and> length (sdk_upstreams n) \<le> 1) \<and>
    (\<forall>n e now out w. 2 \<le> length (sdk_upstreams n) \<longrightarrow>
       fst (loop_pass k r e now n out w) = fst (consume k (''qmtl-'' @ sdk_name n) w))"
proof (rule conjI)
  show "\<forall>(name, v) \<in> set vs. \<exists>n. map_of ns name = Some n \<and> length (sdk_upstreams n) \<le> 1"
    using assms
  proof (induction k r ns sched ew arbitrary: ew' vs rule: turns.induct)
    case (1 k r ns ew)
    then show ?case by simp
  next
    case (2 k r ns name now sched ew)
    show ?case
    proof (cases "map_of ns name")
      case None
      with 2 show ?thesis by simp
    next
      case (Some n)
      with 2(3) obtain ew1 v vs1 where t: "turn k r now n ew = (ew1, Inr v)"
          "turns k r ns sched ew1 = (ew', Inr vs1)" "vs = (case v of None \<Rightarrow> vs1 | Some v \<Rightarrow> (name, v) # vs1)"
        by (auto simp: and_then_Inr)
      from 2(2) [OF Some t(2)] have "\<forall>(name, v) \<in> set vs1. \<exists>n. map_of ns name = Some n \<and> length (sdk_upstreams n) \<le> 1" .
      then show ?thesis using t(1,3) Some turn_value [of k r now n ew ew1] by (cases v) auto
    qed
  qed
  show "\<forall>n e now out w. 2 \<le> length (sdk_upstreams n) \<longrightarrow>
       fst (loop_pass k r e now n out w) = fst (consume k (''qmtl-'' @ sdk_name n) w)"
    using join_pass by (metis fst_conv)
qed

text \<open>
  No run of a pipeline that has a node returns results. However the run goes, it ends with an
  error, and when the run itself went well that is the missing attribute of the first node.
\<close>
theorem parallel_results_unreachable:
  assumes "pl_nodes p \<noteq> []"
  shows "\<exists>x. snd (parallel_run n ord k r sched p ew) = Inl x \<and>
    (\<forall>pew ew' vs. prepare_pipeline n ord k p ew = (pew, Inr ()) \<and>
        turns k r (pl_nodes (fst pew)) sched (snd pew) = (ew', Inr vs) \<longrightarrow>
      x = exn_of AttributeError ''no attribute interval_settings'')"
proof -
  have nodes: "pl_nodes p' = pl_nodes p" if "prepare_pipeline n ord k p ew = ((p', ew'), y)" for p' ew' y
    using that by (auto simp: prepare_pipeline_def ensure_order_def split: if_splits sum.splits prod.splits)
  obtain p' e w y where prep: "prepare_pipeline n ord k p ew = ((p', e, w), y)" by (metis surj_pair)
  obtain nm nd rest where ns: "pl_nodes p' = (nm, nd) # rest" using nodes [OF prep] assms by (metis list.exhaust surj_pair)
  show ?thesis
  proof (cases y)
    case (Inl x)
    then show ?thesis using prep by (auto simp: parallel_run_def)
  next
    case (Inr u)
    obtain ew' z where t: "turns k r (pl_nodes p') sched (e, w) = (ew', z)" by fastforce
    show ?thesis
    proof (cases z)
      case (Inl x)
      then show ?thesis using prep Inr t by (auto simp: parallel_run_def)
    next
      case (Inr vs)
      then show ?thesis
        using prep \<open>y = Inr u\<close> t ns by (auto simp: parallel_run_def interval_settings_attr_def)
    qed
  qed
qed

section \<open>Examples\<close>

definition demo_kafka :: "hist_store kafka" where
  "demo_kafka =
     \<lparr>produce = (\<lambda>_ _ _ w. (w, Inr ())), subscribe_topics = (\<lambda>_ _ w. (w, Inr ())),
      poll = (\<lambda>_ w. (w, Inr (Some \<lparr>km_error = None, km_topic = ''out'', km_partition = 0, km_offset = 0,
        km_key = Inr None, km_value = Inr (JText (PInt 1))\<rparr>))),
      list_topics = (\<lambda>w. (w, Inr [])), create_topics = (\<lambda>_ _ _ w. (w, Inr ()))\<rparr>"

definition demo_parallel :: parallel_engine where
  "demo_parallel =
     \<lparr>node_topics = [(''a'', (''in'', ''out'')), (''b'', (''in'', ''out2'')), (''sum'', (''in'', ''out3''))], started = []\<rparr>"

lemma demo_turns:
  "snd (turns demo_kafka demo_store demo_nodes [(''a'', 0), (''sum'', 1)] (demo_parallel, empty_hist)) = Inr [(''a'', PInt 1)]"
  by (simp add: turn_def start_node_def loop_pass_def loop_body_def demo_nodes_def demo_source_def source_node_def
      demo_parallel_def publish_result_def execute_node_def execute_source_def publish_def json_dumps_def
      demo_kafka_def save_intervals_def demo_node_def subscribe_def consume_def received_def decode_message_def
      json_loads_def)

theorem joins_never_run_witness:
  "fst (loop_pass demo_kafka demo_store demo_parallel 1 demo_node ''out3'' empty_hist) =
    fst (consume demo_kafka ''qmtl-sum'' empty_hist)"
proof -
  obtain ew' where "turns demo_kafka demo_store demo_nodes [(''a'', 0), (''sum'', 1)] (demo_parallel, empty_hist) =
      (ew', Inr [(''a'', PInt 1)])"
    using demo_turns by (metis prod.collapse)
  from joins_never_run [OF this] show ?thesis by (simp add: demo_node_def)
qed

theorem parallel_results_unreachable_witness:
  "\<exists>x. snd (parallel_run 4 set_order_demo demo_kafka demo_store [] demo_pipeline (demo_parallel, empty_hist)) = Inl x"
  using parallel_results_unreachable [of demo_pipeline 4 set_order_demo demo_kafka demo_store "[]" "(demo_parallel, empty_hist)"]
  by (auto simp: demo_pipeline_def demo_nodes_def)

end
