(* ===== verification/StatusService.thy ===== *)
theory StatusService
  imports DataNodes
begin

text \<open>
  The status of pipelines and their nodes: \<open>StatusService\<close>
  (\<open>dag_manager/execution/status_service.py\<close>), with the messages of \<open>protos/qmtl_status.proto\<close>.

  Every update turns a message into a dict, changes entries and parses the dict into a new message.
  The two conversions, \<open>MessageToDict\<close> and \<open>ParseDict\<close>, are parameters, as are the text of a time
  stamp, \<open>str\<close> of a value and the rounding of a number to a 32 bit float; \<open>status_laws\<close> states what
  the properties need of them. Times are nanoseconds, and \<open>tm k\<close> is the \<open>k\<close>-th reading of the clock
  in a call. Arithmetic on Python floats is taken as exact. The fields of the messages that the service never
  sets are left out. The lock makes the operations atomic.
\<close>

section \<open>Messages\<close>

record pipeline_status =
  pst_id :: string
  pst_state :: string
  pst_params :: "(string, string) dict"
  pst_start :: "int option"
  pst_update :: "int option"
  pst_end :: "int option"
  pst_progress :: real
  pst_result :: "(string, string) dict"

record node_status =
  nst_id :: string
  nst_state :: string
  nst_start :: "int option"
  nst_end :: "int option"
  nst_result :: "(string, string) dict"

record status_json =
  pipeline_to_dict :: "pipeline_status \<Rightarrow> (string, pyval) dict"
  pipeline_of_dict :: "(string, pyval) dict \<Rightarrow> pipeline_status res"
  node_to_dict :: "node_status \<Rightarrow> (string, pyval) dict"
  node_of_dict :: "(string, pyval) dict \<Rightarrow> node_status res"
  ts_text :: "int \<Rightarrow> string"
  ts_read :: "string \<Rightarrow> int option"
  py_str :: "pyval \<Rightarrow> string"
  single :: "real \<Rightarrow> real"

record status_service =
  st_pipelines :: "(string, pipeline_status) dict"
  st_nodes :: "(string, (string, node_status) dict) dict"

definition new_status_service :: status_service where
  "new_status_service = \<lparr>st_pipelines = [], st_nodes = []\<rparr>"

section \<open>Operations\<close>

text \<open>\<open>except ValueError: raise / except Exception as e: raise StatusServiceError\<close>\<close>

definition status_errors :: "string \<Rightarrow> ('s, exn, 'a) outcome \<Rightarrow> ('s, exn, 'a) outcome" where
  "status_errors what out =
     (case out of
        (s, Inl e) \<Rightarrow>
          if isinstance_of (ex_class e) ValueError \<or> \<not> caught e then (s, Inl e)
          else (s, raises StatusServiceError (what @ ex_msg e))
      | _ \<Rightarrow> out)"

definition to_text :: "status_json \<Rightarrow> pyval \<Rightarrow> string" where
  "to_text j v = (if v = PNone then '''' else py_str j v)"

definition initialize_pipeline ::
  "status_json \<Rightarrow> (nat \<Rightarrow> int) \<Rightarrow> string \<Rightarrow> 'v data_node list \<Rightarrow> (string, pyval) dict option \<Rightarrow> status_service \<Rightarrow> status_service" where
  "initialize_pipeline j tm pid ns params s =
     s\<lparr>st_pipelines := AList.update pid
         \<lparr>pst_id = pid, pst_state = ''PENDING'',
          pst_params = map (\<lambda>(k, v). (k, to_text j v)) (case params of None \<Rightarrow> [] | Some d \<Rightarrow> d),
          pst_start = Some (tm 0), pst_update = Some (tm 0), pst_end = None, pst_progress = 0, pst_result = []\<rparr>
         (st_pipelines s),
       st_nodes := AList.update pid
         (fold (\<lambda>n d. AList.update (node_id n)
            \<lparr>nst_id = node_id n, nst_state = ''PENDING'', nst_start = None, nst_end = None, nst_result = []\<rparr> d) ns [])
         (st_nodes s)\<rparr>"

definition finished :: "string \<Rightarrow> bool" where
  "finished state \<longleftrightarrow> state = ''COMPLETED'' \<or> state = ''FAILED''"

text \<open>The entry \<open>result\<close>: a dict of texts for a dict, a text for anything else but None.\<close>

definition result_entry :: "status_json \<Rightarrow> pyval \<Rightarrow> (string \<times> pyval) list" where
  "result_entry j result =
     (case result of
        PNone \<Rightarrow> []
      | PDict d \<Rightarrow> [(''result'', PDict (map (\<lambda>(k, v). (k, PStr (to_text j v))) d))]
      | v \<Rightarrow> [(''result'', PStr (py_str j v))])"

definition set_entries :: "(string \<times> pyval) list \<Rightarrow> (string, pyval) dict \<Rightarrow> (string, pyval) dict" where
  "set_entries es d = fold (\<lambda>(k, v). AList.update k v) es d"

definition pipeline_entries :: "status_json \<Rightarrow> (nat \<Rightarrow> int) \<Rightarrow> string \<Rightarrow> pyval \<Rightarrow> (string \<times> pyval) list" where
  "pipeline_entries j tm state result =
     [(''status'', PStr state), (''last_update'', PStr (ts_text j (tm 0)))] @
     (if finished state then [(''end_time'', PStr (ts_text j (tm 1)))] else []) @
     (if state = ''COMPLETED'' then [(''progress'', PFloat 100)] else []) @
     result_entry j result"

definition update_pipeline_status ::
  "status_json \<Rightarrow> (nat \<Rightarrow> int) \<Rightarrow> string \<Rightarrow> string \<Rightarrow> pyval \<Rightarrow> status_service \<Rightarrow> (status_service, exn, unit) outcome" where
  "update_pipeline_status j tm pid state result s =
     status_errors ''Failed to update pipeline status: ''
       (case map_of (st_pipelines s) pid of
          None \<Rightarrow> (s, raises ValueError (''Pipeline '' @ pid @ '' not found''))
        | Some p \<Rightarrow>
            (case pipeline_of_dict j (set_entries (pipeline_entries j tm state result) (pipeline_to_dict j p)) of
               Inl e \<Rightarrow> (s, Inl e)
             | Inr p' \<Rightarrow> (s\<lparr>st_pipelines := AList.update pid p' (st_pipelines s)\<rparr>, Inr ())))"

text \<open>\<open>round(x, 1)\<close>, with ties to the even digit.\<close>

definition round_even :: "real \<Rightarrow> int" where
  "round_even x =
     (let f = \<lfloor>x\<rfloor>; r = x - real_of_int f in
      if r < 1 / 2 then f else if r > 1 / 2 then f + 1 else if even f then f else f + 1)"

definition round1 :: "real \<Rightarrow> real" where
  "round1 x = real_of_int (round_even (x * 10)) / 10"

definition progress_of :: "(string, node_status) dict \<Rightarrow> real" where
  "progress_of d =
     (let completed = real (length (filter (\<lambda>(_, n). finished (nst_state n)) d));
          running = sum_list (map (\<lambda>_. 1 / 2) (filter (\<lambda>(_, n). nst_state n = ''RUNNING'') d))
      in (completed + running) / real (length d) * 100)"

definition update_pipeline_progress ::
  "status_json \<Rightarrow> int \<Rightarrow> string \<Rightarrow> status_service \<Rightarrow> (status_service, exn, unit) outcome" where
  "update_pipeline_progress j now pid s =
     (case (map_of (st_nodes s) pid, map_of (st_pipelines s) pid) of
        (Some d, Some p) \<Rightarrow>
          if d = [] then (s, Inr ())
          else
            (case pipeline_of_dict j (set_entries
                [(''progress'', PFloat (round1 (progress_of d))), (''last_update'', PStr (ts_text j now))]
                (pipeline_to_dict j p)) of
               Inl e \<Rightarrow> (s, Inl e)
             | Inr p' \<Rightarrow> (s\<lparr>st_pipelines := AList.update pid p' (st_pipelines s)\<rparr>, Inr ()))
      | _ \<Rightarrow> (s, Inr ()))"

text \<open>\<open>not d.get(k)\<close>\<close>

definition lacks :: "(string, pyval) dict \<Rightarrow> string \<Rightarrow> bool" where
  "lacks d k \<longleftrightarrow> (case map_of d k of None \<Rightarrow> True | Some v \<Rightarrow> \<not> py_truthy v)"

definition time_entries :: "status_json \<Rightarrow> (nat \<Rightarrow> int) \<Rightarrow> string \<Rightarrow> (string, pyval) dict \<Rightarrow> (string \<times> pyval) list" where
  "time_entries j tm state d =
     (if state = ''RUNNING'' \<and> lacks d ''start_time'' then [(''start_time'', PStr (ts_text j (tm 0)))] else []) @
     (if finished state \<and> lacks d ''end_time'' then [(''end_time'', PStr (ts_text j (tm 1)))] else [])"

text \<open>The result of a node is put, as it is, among the results of its pipeline.\<close>

definition add_node_result :: "string \<Rightarrow> pyval \<Rightarrow> (string, pyval) dict \<Rightarrow> (string, pyval) dict" where
  "add_node_result nid result d =
     (let old = (case map_of d ''result'' of Some (PDict r) \<Rightarrow> r | _ \<Rightarrow> []) in
      AList.update ''result'' (PDict (AList.update nid result old)) d)"

definition share_result ::
  "status_json \<Rightarrow> string \<Rightarrow> string \<Rightarrow> pyval \<Rightarrow> status_service \<Rightarrow> (status_service, exn, unit) outcome" where
  "share_result j pid nid result s =
     (case map_of (st_pipelines s) pid of
        None \<Rightarrow> (s, Inr ())
      | Some p \<Rightarrow>
          if result = PNone then (s, Inr ())
          else
            (case pipeline_of_dict j (add_node_result nid result (pipeline_to_dict j p)) of
               Inl e \<Rightarrow> (s, Inl e)
             | Inr p' \<Rightarrow> (s\<lparr>st_pipelines := AList.update pid p' (st_pipelines s)\<rparr>, Inr ())))"

definition store_node :: "string \<Rightarrow> string \<Rightarrow> node_status \<Rightarrow> status_service \<Rightarrow> status_service" where
  "store_node pid nid n s =
     (case map_of (st_nodes s) pid of
        None \<Rightarrow> s
      | Some d \<Rightarrow> s\<lparr>st_nodes := AList.update pid (AList.update nid n d) (st_nodes s)\<rparr>)"

definition update_status_of_node ::
  "status_json \<Rightarrow> (nat \<Rightarrow> int) \<Rightarrow> string \<Rightarrow> string \<Rightarrow> string \<Rightarrow> pyval \<Rightarrow> status_service
     \<Rightarrow> (status_service, exn, unit) outcome" where
  "update_status_of_node j tm pid nid state result s =
     status_errors ''Failed to update node status: ''
       (case map_of (st_nodes s) pid of
          None \<Rightarrow> (s, raises ValueError (''Pipeline '' @ pid @ '' not found''))
        | Some d \<Rightarrow>
            (case map_of d nid of
               None \<Rightarrow> (s, raises ValueError (''Node '' @ nid @ '' not found in pipeline '' @ pid))
             | Some n \<Rightarrow>
                 (let d0 = AList.update ''status'' (PStr state) (node_to_dict j n);
                      d1 = set_entries (time_entries j tm state d0 @ result_entry j result) d0 in
                  and_then (share_result j pid nid result s) (\<lambda>_ s.
                    case node_of_dict j d1 of
                      Inl e \<Rightarrow> (s, Inl e)
                    | Inr n' \<Rightarrow> update_pipeline_progress j (tm 2) pid (store_node pid nid n' s)))))"

definition get_pipeline_status :: "string \<Rightarrow> status_service \<Rightarrow> pipeline_status option" where
  "get_pipeline_status pid s = map_of (st_pipelines s) pid"

definition get_all_node_statuses :: "string \<Rightarrow> status_service \<Rightarrow> (string, node_status) dict" where
  "get_all_node_statuses pid s = (case map_of (st_nodes s) pid of None \<Rightarrow> [] | Some d \<Rightarrow> d)"

definition status_of_node :: "string \<Rightarrow> string \<Rightarrow> status_service \<Rightarrow> node_status option" where
  "status_of_node pid nid s = map_of (case map_of (st_nodes s) pid of None \<Rightarrow> [] | Some d \<Rightarrow> d) nid"

definition cleanup_pipeline :: "string \<Rightarrow> status_service \<Rightarrow> status_service" where
  "cleanup_pipeline pid s =
     s\<lparr>st_pipelines := AList.delete pid (st_pipelines s), st_nodes := AList.delete pid (st_nodes s)\<rparr>"

text \<open>
  \<open>older\<close> is the comparison of the time stamp message \<open>last_update\<close> with the \<open>datetime\<close> of the
  cutoff, which is protobuf's.
\<close>

fun old_pipelines ::
  "(int option \<Rightarrow> int \<Rightarrow> bool res) \<Rightarrow> int \<Rightarrow> (string, pipeline_status) dict \<Rightarrow> string list res" where
  "old_pipelines older cutoff [] = Inr []"
| "old_pipelines older cutoff ((pid, p) # ps) =
     bind_res (older (pst_update p) cutoff) (\<lambda>old.
     bind_res (old_pipelines older cutoff ps) (\<lambda>pids. Inr (if old then pid # pids else pids)))"

definition cleanup_old_pipelines ::
  "(int option \<Rightarrow> int \<Rightarrow> bool res) \<Rightarrow> int \<Rightarrow> int \<Rightarrow> status_service \<Rightarrow> (status_service, exn, nat) outcome" where
  "cleanup_old_pipelines older now max_age_hours s =
     (case old_pipelines older (now - max_age_hours * 3600 * 1000000000) (st_pipelines s) of
        Inl e \<Rightarrow> (s, Inl e)
      | Inr pids \<Rightarrow> (fold cleanup_pipeline pids s, Inr (length pids)))"

section \<open>Progress\<close>

definition count_where :: "(string \<Rightarrow> bool) \<Rightarrow> (string, node_status) dict \<Rightarrow> nat" where
  "count_where P d = length (filter (\<lambda>(_, n). P (nst_state n)) d)"

lemma progress_counts:
  "progress_of d = (real (count_where finished d) + real (count_where (\<lambda>st. st = ''RUNNING'') d) / 2) / real (length d) * 100"
  by (simp add: progress_of_def count_where_def sum_list_triv)

lemma counts_disjoint: "count_where finished d + count_where (\<lambda>st. st = ''RUNNING'') d \<le> length d"
  by (induction d) (auto simp: count_where_def finished_def)

lemma count_all: "count_where P d = length d \<longleftrightarrow> (\<forall>(_, n) \<in> set d. P (nst_state n))"
proof -
  have "length (filter Q d) = length d \<longleftrightarrow> (\<forall>x \<in> set d. Q x)" for Q :: "string \<times> node_status \<Rightarrow> bool"
    by (metis filter_True length_filter_less less_irrefl)
  then show ?thesis by (simp add: count_where_def)
qed

lemma round_even_bounds:
  assumes "0 \<le> x" "x \<le> real_of_int m"
  shows "0 \<le> round_even x" "round_even x \<le> m" "round_even x = m \<Longrightarrow> real_of_int m - 1 / 2 \<le> x"
proof -
  have f: "0 \<le> \<lfloor>x\<rfloor>" "\<lfloor>x\<rfloor> \<le> m" using assms by (simp_all add: floor_le_iff)
  show "0 \<le> round_even x" using f by (simp add: round_even_def Let_def)
  show "round_even x \<le> m"
  proof (cases "\<lfloor>x\<rfloor> = m")
    case True
    then have "x = real_of_int m" using assms by linarith
    then show ?thesis by (simp add: round_even_def Let_def)
  next
    case False
    then have "\<lfloor>x\<rfloor> + 1 \<le> m" using f by linarith
    then show ?thesis using f by (auto simp: round_even_def Let_def)
  qed
  show "real_of_int m - 1 / 2 \<le> x" if "round_even x = m"
    using that by (auto simp: round_even_def Let_def split: if_splits) linarith+
qed

lemma round_even_int [simp]: "round_even (real_of_int i) = i"
  by (simp add: round_even_def Let_def)

lemma progress_range:
  assumes "d \<noteq> []"
  shows "0 \<le> progress_of d" "progress_of d \<le> 100"
    and "count_where finished d \<noteq> length d \<Longrightarrow> progress_of d \<le> 100 - 50 / real (length d)"
    and "count_where finished d = length d \<Longrightarrow> progress_of d = 100"
proof -
  let ?c = "count_where finished d" and ?r = "count_where (\<lambda>st. st = ''RUNNING'') d" and ?n = "length d"
  have n: "0 < real ?n" using assms by simp
  have le: "real ?c + real ?r \<le> real ?n" using counts_disjoint [of d] by (simp flip: of_nat_add)
  show "0 \<le> progress_of d" using n by (simp add: progress_counts)
  show "progress_of d \<le> 100" using n le by (simp add: progress_counts field_simps)
  show "progress_of d \<le> 100 - 50 / real ?n" if "?c \<noteq> ?n"
  proof -
    have "?c < ?n" using that counts_disjoint [of d] by linarith
    then have "real ?c + real ?r / 2 \<le> real ?n - 1 / 2" using le by linarith
    then have "(real ?c + real ?r / 2) / real ?n \<le> (real ?n - 1 / 2) / real ?n" using n by (intro divide_right_mono) simp_all
    also have "\<dots> = 1 - 1 / 2 / real ?n" using n by (simp add: diff_divide_distrib)
    finally have q: "(real ?c + real ?r / 2) / real ?n \<le> 1 - 1 / 2 / real ?n" .
    have scale: "x \<le> 1 - y \<Longrightarrow> z = 100 * y \<Longrightarrow> x * 100 \<le> 100 - z" for x y z :: real by simp
    show ?thesis unfolding progress_counts by (rule scale [OF q]) simp
  qed
  show "progress_of d = 100" if "?c = ?n"
  proof -
    have "?r = 0" using that counts_disjoint [of d] by linarith
    then show ?thesis using that n by (simp add: progress_counts)
  qed
qed

lemma progress_in_range:
  assumes "d \<noteq> []"
  shows "0 \<le> round1 (progress_of d) \<and> round1 (progress_of d) \<le> 100"
proof -
  have x: "0 \<le> progress_of d * 10" "progress_of d * 10 \<le> real_of_int 1000"
    using progress_range(1,2) [OF assms] by simp_all
  have "real_of_int (round_even (progress_of d * 10)) \<le> real_of_int 1000"
    using round_even_bounds(2) [OF x] by (simp only: of_int_le_iff)
  then show ?thesis using round_even_bounds(1) [OF x] by (simp add: round1_def)
qed

text \<open>
  C17: the progress of a pipeline with nodes is between 0 and 100. With fewer than 1000 nodes it is
  100 exactly when every node has finished; with more, rounding to one digit can reach 100 earlier,
  so the bound is sharp.
\<close>
theorem progress_bounds:
  assumes "d \<noteq> []"
  shows "0 \<le> round1 (progress_of d) \<and> round1 (progress_of d) \<le> 100 \<and>
    (length d < 1000 \<longrightarrow> (round1 (progress_of d) = 100 \<longleftrightarrow> (\<forall>(_, n) \<in> set d. finished (nst_state n)))) \<and>
    (let long = replicate 999 (nm, n\<lparr>nst_state := ''COMPLETED''\<rparr>) @ [(nm, n\<lparr>nst_state := ''RUNNING''\<rparr>)] in
       round1 (progress_of long) = 100)"
proof -
  let ?x = "progress_of d * 10"
  have x: "0 \<le> ?x" "?x \<le> real_of_int 1000" using progress_range(1,2) [OF assms] by simp_all
  note r = round_even_bounds [OF x]
  note b = progress_in_range [OF assms]
  have full: "round1 (progress_of d) = 100 \<longleftrightarrow> count_where finished d = length d" if "length d < 1000"
  proof
    assume "round1 (progress_of d) = 100"
    then have "real_of_int (round_even ?x) = real_of_int 1000" by (simp add: round1_def)
    then have "round_even ?x = 1000" by (simp only: of_int_eq_iff)
    from r(3) [OF this] have half: "1000 - 1 / 2 \<le> progress_of d * 10" by simp
    show "count_where finished d = length d"
    proof (rule ccontr)
      assume "count_where finished d \<noteq> length d"
      from progress_range(3) [OF assms this] half have "1000 - 1 / 2 \<le> 1000 - 500 / real (length d)" by simp
      then have "500 / real (length d) \<le> 1 / 2" by simp
      then have "1000 \<le> real (length d)" using assms by (simp add: field_simps)
      then show False using that by linarith
    qed
  next
    assume "count_where finished d = length d"
    then have "progress_of d = 100" by (rule progress_range(4) [OF assms])
    then show "round1 (progress_of d) = 100" using round_even_int [of 1000] by (simp add: round1_def)
  qed
  have long: "progress_of (replicate 999 (nm, n\<lparr>nst_state := ''COMPLETED''\<rparr>) @ [(nm, n\<lparr>nst_state := ''RUNNING''\<rparr>)]) = 9995 / 100"
    by (simp add: progress_counts count_where_def finished_def filter_replicate)
  have "\<lfloor>9995 / 10 :: real\<rfloor> = 999" by (simp add: floor_eq_iff)
  then have "round_even (9995 / 10) = 1000" by (simp add: round_even_def Let_def)
  then have "round1 (9995 / 100) = 100" by (simp add: round1_def)
  then have r: "round1 (progress_of (replicate 999 (nm, n\<lparr>nst_state := ''COMPLETED''\<rparr>) @ [(nm, n\<lparr>nst_state := ''RUNNING''\<rparr>)])) = 100"
    by (simp only: long)
  show ?thesis
    unfolding Let_def using b full r by (intro conjI impI) (simp_all only: count_all)
qed

section \<open>The documented behaviour of the conversions\<close>

text \<open>
  What parsing a dict does with an entry under the name of the proto file: fields of the wrong type,
  a text for a map among them, are an error.
\<close>

definition text_entries :: "(string, pyval) dict \<Rightarrow> (string, string) dict option" where
  "text_entries d =
     (if list_all (\<lambda>(_, v). case v of PStr s \<Rightarrow> True | _ \<Rightarrow> False) d
      then Some (map (\<lambda>(k, v). (k, case v of PStr s \<Rightarrow> s | _ \<Rightarrow> '''')) d) else None)"

definition time_field :: "status_json \<Rightarrow> pyval \<Rightarrow> int res" where
  "time_field j v =
     (case v of
        PStr t \<Rightarrow> (case ts_read j t of None \<Rightarrow> raises ParseError '''' | Some i \<Rightarrow> Inr i)
      | _ \<Rightarrow> raises ParseError '''')"

definition map_field :: "pyval \<Rightarrow> (string, string) dict res" where
  "map_field v =
     (case v of
        PDict d \<Rightarrow> (case text_entries d of None \<Rightarrow> raises ParseError '''' | Some m \<Rightarrow> Inr m)
      | _ \<Rightarrow> raises ParseError '''')"

definition text_field :: "pyval \<Rightarrow> string res" where
  "text_field v = (case v of PStr s \<Rightarrow> Inr s | _ \<Rightarrow> raises ParseError '''')"

definition pipeline_field :: "status_json \<Rightarrow> string \<times> pyval \<Rightarrow> pipeline_status \<Rightarrow> pipeline_status res" where
  "pipeline_field j e p =
     (case e of (k, v) \<Rightarrow>
        if k = ''status'' then bind_res (text_field v) (\<lambda>s. Inr (p\<lparr>pst_state := s\<rparr>))
        else if k = ''last_update'' then bind_res (time_field j v) (\<lambda>t. Inr (p\<lparr>pst_update := Some t\<rparr>))
        else if k = ''end_time'' then bind_res (time_field j v) (\<lambda>t. Inr (p\<lparr>pst_end := Some t\<rparr>))
        else if k = ''progress'' then
          (case v of PFloat x \<Rightarrow> Inr (p\<lparr>pst_progress := single j x\<rparr>) | _ \<Rightarrow> raises ParseError '''')
        else if k = ''result'' then bind_res (map_field v) (\<lambda>m. Inr (p\<lparr>pst_result := m\<rparr>))
        else raises ParseError '''')"

text \<open>
  The times of a node are \<open>optional\<close> in the proto file, which makes each a oneof of its own: the parser rejects a dict that
  has the field under both of its names. The times of a pipeline are not, and the later entry wins.
\<close>

definition optional_time :: "status_json \<Rightarrow> int option \<Rightarrow> pyval \<Rightarrow> int res" where
  "optional_time j old v = (if old \<noteq> None then raises ParseError '''' else time_field j v)"

definition node_field :: "status_json \<Rightarrow> string \<times> pyval \<Rightarrow> node_status \<Rightarrow> node_status res" where
  "node_field j e n =
     (case e of (k, v) \<Rightarrow>
        if k = ''status'' then bind_res (text_field v) (\<lambda>s. Inr (n\<lparr>nst_state := s\<rparr>))
        else if k = ''start_time'' then bind_res (optional_time j (nst_start n) v) (\<lambda>t. Inr (n\<lparr>nst_start := Some t\<rparr>))
        else if k = ''end_time'' then bind_res (optional_time j (nst_end n) v) (\<lambda>t. Inr (n\<lparr>nst_end := Some t\<rparr>))
        else if k = ''result'' then bind_res (map_field v) (\<lambda>m. Inr (n\<lparr>nst_result := m\<rparr>))
        else raises ParseError '''')"

fun set_fields :: "(string \<times> pyval \<Rightarrow> 'a \<Rightarrow> 'a res) \<Rightarrow> (string \<times> pyval) list \<Rightarrow> 'a \<Rightarrow> 'a res" where
  "set_fields f [] x = Inr x"
| "set_fields f (e # es) x = bind_res (f e x) (set_fields f es)"

text \<open>
  Parsing the dict of a message with entries set gives the message with those fields set. The dict
  of a message names the times in camel case, so it has no entry \<open>start_time\<close> or \<open>end_time\<close>; setting one
  leaves the other name in the dict.
\<close>

definition status_laws :: "status_json \<Rightarrow> bool" where
  "status_laws j \<longleftrightarrow>
     (\<forall>p es. distinct (map fst es) \<longrightarrow>
        fst ` set es \<subseteq> {''status'', ''last_update'', ''end_time'', ''progress'', ''result''} \<longrightarrow>
        pipeline_of_dict j (set_entries es (pipeline_to_dict j p)) = set_fields (pipeline_field j) es p) \<and>
     (\<forall>n es. distinct (map fst es) \<longrightarrow>
        fst ` set es \<subseteq> {''status'', ''start_time'', ''end_time'', ''result''} \<longrightarrow>
        node_of_dict j (set_entries es (node_to_dict j n)) = set_fields (node_field j) es n) \<and>
     (\<forall>n. \<not> has_key (node_to_dict j n) ''start_time'' \<and> \<not> has_key (node_to_dict j n) ''end_time'') \<and>
     (\<forall>t. ts_read j (ts_text j t) = Some t) \<and>
     (\<forall>x. 0 \<le> x \<and> x \<le> 100 \<longrightarrow> 0 \<le> single j x \<and> single j x \<le> 100)"

lemma status_lawsD:
  assumes "status_laws j"
  shows pipeline_law: "distinct (map fst es) \<Longrightarrow>
      fst ` set es \<subseteq> {''status'', ''last_update'', ''end_time'', ''progress'', ''result''} \<Longrightarrow>
      pipeline_of_dict j (set_entries es (pipeline_to_dict j p)) = set_fields (pipeline_field j) es p"
    and node_law: "distinct (map fst es) \<Longrightarrow>
      fst ` set es \<subseteq> {''status'', ''start_time'', ''end_time'', ''result''} \<Longrightarrow>
      node_of_dict j (set_entries es (node_to_dict j n)) = set_fields (node_field j) es n"
    and no_times: "\<not> has_key (node_to_dict j n) ''start_time''" "\<not> has_key (node_to_dict j n) ''end_time''"
    and time_law: "ts_read j (ts_text j t) = Some t"
    and single_law: "0 \<le> x \<Longrightarrow> x \<le> 100 \<Longrightarrow> 0 \<le> single j x \<and> single j x \<le> 100"
  using assms unfolding status_laws_def by blast+

lemma time_field_text [simp]: "status_laws j \<Longrightarrow> time_field j (PStr (ts_text j t)) = Inr t"
  by (simp add: time_field_def time_law)

section \<open>Updates of a node\<close>

lemma set_entries_Cons: "set_entries es (AList.update k v d) = set_entries ((k, v) # es) d"
  by (simp add: set_entries_def)

lemma set_fields_append: "set_fields f (es @ es') x = bind_res (set_fields f es x) (set_fields f es')"
proof (induction es arbitrary: x)
  case (Cons e es)
  then show ?case by (cases "f e x") simp_all
qed simp

lemma node_field_error: "node_field j e n = Inl err \<Longrightarrow> err = exn_of ParseError ''''"
  by (cases e) (auto simp: node_field_def text_field_def optional_time_def time_field_def map_field_def bind_res_Inl
      split: if_splits pyval.splits option.splits)

lemma set_fields_fail:
  assumes "\<And>x. f e x = raises ParseError ''''" "\<And>e x err. f e x = Inl err \<Longrightarrow> err = exn_of ParseError ''''"
    and "e \<in> set es"
  shows "set_fields f es x = raises ParseError ''''"
  using assms(3)
proof (induction es arbitrary: x)
  case (Cons e' es)
  show ?case
  proof (cases "f e' x")
    case (Inl err)
    then show ?thesis using assms(2) [OF Inl] by simp
  next
    case (Inr y)
    then have "e \<in> set es" using Cons.prems assms(1) by auto
    then show ?thesis using Inr Cons.IH by simp
  qed
qed simp

text \<open>The entries that an update of a node sets, in the dict of its message.\<close>

lemma node_entries:
  assumes "status_laws j"
  defines "d0 n state \<equiv> AList.update ''status'' (PStr state) (node_to_dict j n)"
  shows "node_of_dict j (set_entries (time_entries j tm state (d0 n state) @ result_entry j result) (d0 n state)) =
    set_fields (node_field j)
      ((''status'', PStr state) #
       ((if state = ''RUNNING'' then [(''start_time'', PStr (ts_text j (tm 0)))] else []) @
        (if finished state then [(''end_time'', PStr (ts_text j (tm 1)))] else [])) @ result_entry j result) n"
proof -
  have "lacks (d0 n state) ''start_time''" "lacks (d0 n state) ''end_time''"
    using no_times [OF assms(1), of n] by (auto simp: lacks_def d0_def has_key_Some split: option.split)
  then have t: "time_entries j tm state (d0 n state) =
      (if state = ''RUNNING'' then [(''start_time'', PStr (ts_text j (tm 0)))] else []) @
      (if finished state then [(''end_time'', PStr (ts_text j (tm 1)))] else [])"
    by (simp add: time_entries_def)
  show ?thesis
    unfolding t unfolding d0_def set_entries_Cons
    by (subst node_law [OF assms(1)]) (auto simp: finished_def result_entry_def split: pyval.split if_splits)
qed

lemma progress_update:
  assumes "status_laws j" "map_of (st_nodes s) pid = Some d" "d \<noteq> []" "map_of (st_pipelines s) pid = Some p"
  shows "update_pipeline_progress j now pid s =
    (s\<lparr>st_pipelines := AList.update pid
        (p\<lparr>pst_progress := single j (round1 (progress_of d)), pst_update := Some now\<rparr>) (st_pipelines s)\<rparr>, Inr ())"
proof -
  have "pipeline_of_dict j (set_entries
      [(''progress'', PFloat (round1 (progress_of d))), (''last_update'', PStr (ts_text j now))] (pipeline_to_dict j p)) =
    Inr (p\<lparr>pst_progress := single j (round1 (progress_of d)), pst_update := Some now\<rparr>)"
    by (subst pipeline_law [OF assms(1)]) (simp_all add: pipeline_field_def assms(1))
  then show ?thesis using assms(2-4) by (simp add: update_pipeline_progress_def)
qed

lemma parse_error_wrapped:
  "status_errors w (s, Inl (exn_of ParseError m)) = (s, raises StatusServiceError (w @ m))"
  by (simp add: status_errors_def isinstance_of_def caught_iff mro.simps [of ParseError] mro.simps [of PyException]
      mro.simps [of BaseException])

text \<open>
  C10: the update of a known node without a result. If it would set a start or an end time for the second
  time (a second \<open>RUNNING\<close>, or \<open>FAILED\<close> after \<open>COMPLETED\<close>), it fails with \<open>StatusServiceError\<close> and nothing has
  changed: the code means to keep the first time, but looks for it under a name the dict of a message does not have. Otherwise
  it succeeds: it changes the state of that node, with the time, and, among all pipelines, the progress and time stamp of
  its own; the progress is recomputed from the states of the nodes and stays between 0 and 100.
\<close>
theorem node_update_tracks_progress:
  assumes "status_laws j" "map_of (st_nodes s) pid = Some d" "map_of d nid = Some n"
    and "map_of (st_pipelines s) pid = Some p"
  shows "let n' = n\<lparr>nst_state := state, nst_start := (if state = ''RUNNING'' then Some (tm 0) else nst_start n),
                     nst_end := (if finished state then Some (tm 1) else nst_end n)\<rparr>;
             d' = AList.update nid n' d;
             p' = p\<lparr>pst_progress := single j (round1 (progress_of d')), pst_update := Some (tm 2)\<rparr>
         in if state = ''RUNNING'' \<and> nst_start n \<noteq> None \<or> finished state \<and> nst_end n \<noteq> None
            then update_status_of_node j tm pid nid state PNone s =
              (s, raises StatusServiceError ''Failed to update node status: '')
            else update_status_of_node j tm pid nid state PNone s =
              (s\<lparr>st_nodes := AList.update pid d' (st_nodes s), st_pipelines := AList.update pid p' (st_pipelines s)\<rparr>, Inr ()) \<and>
            0 \<le> pst_progress p' \<and> pst_progress p' \<le> 100"
proof -
  define n' where "n' = n\<lparr>nst_state := state, nst_start := (if state = ''RUNNING'' then Some (tm 0) else nst_start n),
           nst_end := (if finished state then Some (tm 1) else nst_end n)\<rparr>"
  let ?d = "AList.update nid n' d"
  let ?p = "p\<lparr>pst_progress := single j (round1 (progress_of ?d)), pst_update := Some (tm 2)\<rparr>"
  let ?again = "state = ''RUNNING'' \<and> nst_start n \<noteq> None \<or> finished state \<and> nst_end n \<noteq> None"
  have node: "node_of_dict j (set_entries (time_entries j tm state (AList.update ''status'' (PStr state) (node_to_dict j n)) @
      result_entry j PNone) (AList.update ''status'' (PStr state) (node_to_dict j n))) =
      (if ?again then raises ParseError '''' else Inr n')"
    unfolding node_entries [OF assms(1)]
    by (auto simp: result_entry_def node_field_def text_field_def optional_time_def assms(1) n'_def finished_def)
  show ?thesis
  proof (cases ?again)
    case True
    then have "update_status_of_node j tm pid nid state PNone s =
        (s, raises StatusServiceError ''Failed to update node status: '')"
      using node assms(2-4) by (simp add: update_status_of_node_def share_result_def parse_error_wrapped Let_def)
    then show ?thesis unfolding Let_def using True by (simp only: if_True)
  next
    case False
    have "update_pipeline_progress j (tm 2) pid (store_node pid nid n' s) =
        (s\<lparr>st_nodes := AList.update pid ?d (st_nodes s), st_pipelines := AList.update pid ?p (st_pipelines s)\<rparr>, Inr ())"
      using progress_update [OF assms(1), of "store_node pid nid n' s" pid ?d p "tm 2"] assms(2,4)
      by (simp add: store_node_def)
    then have run: "update_status_of_node j tm pid nid state PNone s =
        (s\<lparr>st_nodes := AList.update pid ?d (st_nodes s), st_pipelines := AList.update pid ?p (st_pipelines s)\<rparr>, Inr ())"
      using node False assms(2-4) by (simp add: update_status_of_node_def share_result_def status_errors_def Let_def)
    have "0 \<le> pst_progress ?p \<and> pst_progress ?p \<le> 100"
      using single_law [OF assms(1)] progress_in_range [of ?d] by simp
    with run show ?thesis unfolding Let_def n'_def [symmetric] using False by (simp only: if_False)
  qed
qed

text \<open>
  An update of a node that comes with a result always fails with \<open>StatusServiceError\<close> once its
  pipeline is registered, and the node keeps its state. A result that is a text is rejected as the result
  of the node, any other as a result of the pipeline, whose results are texts.
\<close>
theorem node_results_fail:
  assumes "status_laws j" "map_of (st_nodes s) pid = Some d" "map_of d nid = Some n"
    and "map_of (st_pipelines s) pid = Some p" "result \<noteq> PNone"
  shows "\<exists>s' msg. update_status_of_node j tm pid nid state result s = (s', raises StatusServiceError msg) \<and>
    st_nodes s' = st_nodes s"
proof -
  let ?d0 = "AList.update ''status'' (PStr state) (node_to_dict j n)"
  let ?d1 = "set_entries (time_entries j tm state ?d0 @ result_entry j result) ?d0"
  obtain old where old: "add_node_result nid result (pipeline_to_dict j p) =
      set_entries [(''result'', PDict (AList.update nid result old))] (pipeline_to_dict j p)"
    by (simp add: add_node_result_def set_entries_def)
  have parse: "pipeline_of_dict j (add_node_result nid result (pipeline_to_dict j p)) =
      bind_res (map_field (PDict (AList.update nid result old))) (\<lambda>m. Inr (p\<lparr>pst_result := m\<rparr>))"
    unfolding old
    by (subst pipeline_law [OF assms(1)])
      (simp_all add: pipeline_field_def, cases "map_field (PDict (AList.update nid result old))", simp_all)
  show ?thesis
  proof (cases "text_entries (AList.update nid result old)")
    case None
    then have "share_result j pid nid result s = (s, raises ParseError '''')"
      using parse assms(4,5) by (simp add: share_result_def map_field_def)
    then show ?thesis using assms(2,3) by (simp add: update_status_of_node_def Let_def parse_error_wrapped)
  next
    case (Some m)
    have "(nid, result) \<in> set (AList.update nid result old)"
      by (metis map_of_SomeD map_of_update)
    then obtain x where x: "result = PStr x"
      using Some by (auto simp: text_entries_def list_all_iff split: if_splits pyval.splits)
    have "node_of_dict j ?d1 = raises ParseError ''''"
      unfolding node_entries [OF assms(1)]
    proof (rule set_fields_fail [where e = "(''result'', PStr (py_str j (PStr x)))"])
      show "err = exn_of ParseError ''''" if "node_field j e y = Inl err" for e y err
        using that by (rule node_field_error)
    qed (auto simp: x result_entry_def node_field_def map_field_def)
    then show ?thesis
      using parse Some assms(2-5)
      by (simp add: update_status_of_node_def share_result_def Let_def parse_error_wrapped map_field_def)
  qed
qed

section \<open>Conversions for the examples\<close>

text \<open>The whole message is encoded under one key, and the entries set later follow it.\<close>

definition enc_time :: "int option \<Rightarrow> pyval" where
  "enc_time t = (case t of None \<Rightarrow> PNone | Some i \<Rightarrow> PInt i)"

definition dec_time :: "pyval \<Rightarrow> int option" where
  "dec_time v = (case v of PInt i \<Rightarrow> Some i | _ \<Rightarrow> None)"

definition enc_map :: "(string, string) dict \<Rightarrow> pyval" where
  "enc_map m = PDict (map (\<lambda>(k, v). (k, PStr v)) m)"

definition dec_map :: "pyval \<Rightarrow> (string, string) dict" where
  "dec_map v = (case v of PDict d \<Rightarrow> map (\<lambda>(k, v). (k, case v of PStr s \<Rightarrow> s | _ \<Rightarrow> '''')) d | _ \<Rightarrow> [])"

definition dec_text :: "pyval \<Rightarrow> string" where
  "dec_text v = (case v of PStr s \<Rightarrow> s | _ \<Rightarrow> '''')"

lemma dec_enc [simp]: "dec_time (enc_time t) = t" "dec_map (enc_map m) = m" "dec_text (PStr s) = s"
  by (auto simp: dec_time_def enc_time_def dec_map_def enc_map_def dec_text_def comp_def split_def split: option.split)

definition enc_pipeline :: "pipeline_status \<Rightarrow> pyval" where
  "enc_pipeline p = PList [PStr (pst_id p), PStr (pst_state p), enc_map (pst_params p), enc_time (pst_start p),
     enc_time (pst_update p), enc_time (pst_end p), PFloat (pst_progress p), enc_map (pst_result p)]"

definition dec_pipeline :: "pyval \<Rightarrow> pipeline_status" where
  "dec_pipeline v =
     (case v of PList xs \<Rightarrow>
        \<lparr>pst_id = dec_text (xs ! 0), pst_state = dec_text (xs ! 1), pst_params = dec_map (xs ! 2),
         pst_start = dec_time (xs ! 3), pst_update = dec_time (xs ! 4), pst_end = dec_time (xs ! 5),
         pst_progress = (case xs ! 6 of PFloat x \<Rightarrow> x | _ \<Rightarrow> 0), pst_result = dec_map (xs ! 7)\<rparr>
      | _ \<Rightarrow> undefined)"

definition enc_node :: "node_status \<Rightarrow> pyval" where
  "enc_node n = PList [PStr (nst_id n), PStr (nst_state n), enc_time (nst_start n), enc_time (nst_end n), enc_map (nst_result n)]"

definition dec_node :: "pyval \<Rightarrow> node_status" where
  "dec_node v =
     (case v of PList xs \<Rightarrow>
        \<lparr>nst_id = dec_text (xs ! 0), nst_state = dec_text (xs ! 1), nst_start = dec_time (xs ! 2),
         nst_end = dec_time (xs ! 3), nst_result = dec_map (xs ! 4)\<rparr>
      | _ \<Rightarrow> undefined)"

lemma dec_enc_messages [simp]: "dec_pipeline (enc_pipeline p) = p" "dec_node (enc_node n) = n"
  by (simp_all add: dec_pipeline_def enc_pipeline_def dec_node_def enc_node_def)

definition base_json :: status_json where
  "base_json =
     \<lparr>pipeline_to_dict = (\<lambda>p. [(''#'', enc_pipeline p)]), pipeline_of_dict = (\<lambda>_. raises ParseError ''''),
      node_to_dict = (\<lambda>n. [(''#'', enc_node n)]), node_of_dict = (\<lambda>_. raises ParseError ''''),
      ts_text = (\<lambda>i. if i < 0 then CHR ''-'' # replicate (nat (- i)) CHR ''1'' else replicate (nat i) CHR ''1''),
      ts_read = (\<lambda>s. Some (case s of [] \<Rightarrow> 0 | c # s \<Rightarrow> if c = CHR ''-'' then - int (length s) else 1 + int (length s))),
      py_str = (\<lambda>_. ''''), single = (\<lambda>x. x)\<rparr>"

definition demo_json :: status_json where
  "demo_json = base_json
     \<lparr>pipeline_of_dict := (\<lambda>d. set_fields (pipeline_field base_json) (tl d) (dec_pipeline (snd (hd d)))),
      node_of_dict := (\<lambda>d. set_fields (node_field base_json) (tl d) (dec_node (snd (hd d))))\<rparr>"

lemma set_entries_new:
  "distinct (map fst es) \<Longrightarrow> (\<forall>k \<in> fst ` set es. \<not> has_key d k) \<Longrightarrow> set_entries es d = d @ es"
proof (induction es arbitrary: d)
  case (Cons e es)
  obtain k v where e: "e = (k, v)" by fastforce
  have new: "\<not> has_key d k" using Cons.prems(2) e by simp
  have "\<forall>k' \<in> fst ` set es. \<not> has_key (d @ [(k, v)]) k'" using Cons.prems e by (auto simp: has_key_iff)
  from Cons.IH [OF _ this] Cons.prems(1) new e show ?case
    by (simp add: set_entries_def update_new)
qed (simp add: set_entries_def)

lemma demo_json_laws: "status_laws demo_json"
proof -
  have same: "ts_read demo_json = ts_read base_json" "single demo_json = single base_json"
    by (simp_all add: demo_json_def)
  have f: "pipeline_field demo_json = pipeline_field base_json" "node_field demo_json = node_field base_json"
  proof -
    have "pipeline_field demo_json e p = pipeline_field base_json e p" for e p
      unfolding pipeline_field_def time_field_def same by (rule refl)
    moreover have "node_field demo_json e n = node_field base_json e n" for e n
      unfolding node_field_def optional_time_def time_field_def same by (rule refl)
    ultimately show "pipeline_field demo_json = pipeline_field base_json" "node_field demo_json = node_field base_json"
      by blast+
  qed
  have s: "set_entries es [(''#'', v)] = (''#'', v) # es" if "distinct (map fst es)" "''#'' \<notin> fst ` set es" for es v
  proof -
    have "\<not> has_key [(''#'', v)] k" if "k \<in> fst ` set es" for k
    proof -
      have "k \<noteq> ''#''" using that \<open>''#'' \<notin> fst ` set es\<close> by blast
      then show ?thesis by simp
    qed
    with set_entries_new [OF that(1), of "[(''#'', v)]"] show ?thesis by simp
  qed
  have p: "pipeline_of_dict demo_json (set_entries es (pipeline_to_dict demo_json p)) = set_fields (pipeline_field demo_json) es p"
    if "distinct (map fst es)" "fst ` set es \<subseteq> {''status'', ''last_update'', ''end_time'', ''progress'', ''result''}" for p es
  proof -
    have "''#'' \<notin> fst ` set es" using that(2) by blast
    from s [OF that(1) this] show ?thesis by (simp add: f) (simp add: demo_json_def base_json_def)
  qed
  have n: "node_of_dict demo_json (set_entries es (node_to_dict demo_json n)) = set_fields (node_field demo_json) es n"
    if "distinct (map fst es)" "fst ` set es \<subseteq> {''status'', ''start_time'', ''end_time'', ''result''}" for n es
  proof -
    have "''#'' \<notin> fst ` set es" using that(2) by blast
    from s [OF that(1) this] show ?thesis by (simp add: f) (simp add: demo_json_def base_json_def)
  qed
  have t: "ts_read demo_json (ts_text demo_json t) = Some t" for t
  proof (cases "t \<le> 0")
    case True
    then show ?thesis by (auto simp: demo_json_def base_json_def)
  next
    case False
    then obtain m where "t = int (Suc m)" by (metis not_le zero_less_imp_eq_int gr0_conv_Suc)
    then show ?thesis by (simp add: demo_json_def base_json_def nat_add_distrib)
  qed
  have k: "\<not> has_key (node_to_dict demo_json n) ''start_time'' \<and> \<not> has_key (node_to_dict demo_json n) ''end_time''" for n
    by (simp add: demo_json_def base_json_def)
  have x: "single demo_json x = x" for x by (simp add: demo_json_def base_json_def)
  show ?thesis unfolding status_laws_def using p n t k x by simp
qed

definition demo_states :: status_service where
  "demo_states =
     \<lparr>st_pipelines = [(''p'', \<lparr>pst_id = ''p'', pst_state = ''RUNNING'', pst_params = [], pst_start = Some 1, pst_update = Some 1,
        pst_end = None, pst_progress = 0, pst_result = []\<rparr>)],
      st_nodes = [(''p'', [(''n'', \<lparr>nst_id = ''n'', nst_state = ''RUNNING'', nst_start = Some 2, nst_end = None, nst_result = []\<rparr>)])]\<rparr>"

lemma demo_states_simps:
  "map_of (st_nodes demo_states) ''p'' =
     Some [(''n'', \<lparr>nst_id = ''n'', nst_state = ''RUNNING'', nst_start = Some 2, nst_end = None, nst_result = []\<rparr>)]"
  "map_of [(''n'', \<lparr>nst_id = ''n'', nst_state = ''RUNNING'', nst_start = Some 2, nst_end = None, nst_result = []\<rparr>)] ''n'' =
     Some \<lparr>nst_id = ''n'', nst_state = ''RUNNING'', nst_start = Some 2, nst_end = None, nst_result = []\<rparr>"
  "map_of (st_pipelines demo_states) ''p'' =
     Some \<lparr>pst_id = ''p'', pst_state = ''RUNNING'', pst_params = [], pst_start = Some 1, pst_update = Some 1,
        pst_end = None, pst_progress = 0, pst_result = []\<rparr>"
  by (simp_all add: demo_states_def)

theorem node_update_tracks_progress_witness:
  "st_nodes (fst (update_status_of_node demo_json (\<lambda>k. 10 + int k) ''p'' ''n'' ''COMPLETED'' PNone demo_states)) =
     [(''p'', [(''n'', \<lparr>nst_id = ''n'', nst_state = ''COMPLETED'', nst_start = Some 2, nst_end = Some 11, nst_result = []\<rparr>)])] \<and>
   update_status_of_node demo_json (\<lambda>k. 10 + int k) ''p'' ''n'' ''RUNNING'' PNone demo_states =
     (demo_states, raises StatusServiceError ''Failed to update node status: '')"
  using node_update_tracks_progress [OF demo_json_laws demo_states_simps, of "''COMPLETED''" "\<lambda>k. 10 + int k"]
    node_update_tracks_progress [OF demo_json_laws demo_states_simps, of "''RUNNING''" "\<lambda>k. 10 + int k"]
  by (simp add: Let_def finished_def) (simp add: demo_states_def)

theorem node_results_fail_witness:
  "\<exists>msg. snd (update_status_of_node demo_json (\<lambda>_. 5) ''p'' ''n'' ''COMPLETED'' (PDict []) demo_states) =
    raises StatusServiceError msg"
  using node_results_fail [OF demo_json_laws demo_states_simps, of "PDict []" "\<lambda>_. 5" "''COMPLETED''"]
  by auto

definition demo_statuses :: "(string, node_status) dict" where
  "demo_statuses =
     [(''a'', \<lparr>nst_id = ''a'', nst_state = ''COMPLETED'', nst_start = None, nst_end = None, nst_result = []\<rparr>),
      (''b'', \<lparr>nst_id = ''b'', nst_state = ''RUNNING'', nst_start = None, nst_end = None, nst_result = []\<rparr>)]"

theorem progress_bounds_witness: "round1 (progress_of demo_statuses) \<noteq> 100"
proof -
  have "demo_statuses \<noteq> []" by (simp add: demo_statuses_def)
  from progress_bounds [OF this, of "''a''" "snd (hd demo_statuses)"]
  have "length demo_statuses < 1000 \<longrightarrow>
      (round1 (progress_of demo_statuses) = 100 \<longleftrightarrow> (\<forall>(_, n) \<in> set demo_statuses. finished (nst_state n)))"
    by blast
  then show ?thesis by (simp add: demo_statuses_def finished_def)
qed

end
