(* ===== verification/Neo4j.thy ===== *)
theory Neo4j
  imports Errors
begin

text \<open>
  Access to Neo4j: \<open>Neo4jClient\<close> (\<open>common/db/neo4j_client.py\<close>) and \<open>Neo4jConnectionPool\<close>
  (\<open>common/db/connection_pool.py\<close>).

  The driver is a parameter: \<open>drv_run\<close> runs a query in a session of its own and gives the records as
  dicts, \<open>drv_write\<close> runs a function in a write transaction. The threads that use a pool are the steps of
  a transition system, one for each part of an operation that runs under the lock or on the semaphore.
\<close>

section \<open>The client\<close>

text \<open>
  A property is a plain value, a text that \<open>json.dumps\<close> wrote, or the properties of a node.
\<close>

datatype db_value = DVal pyval | DText json_text | DProps "(string \<times> db_value) list"

type_synonym row = "(string, db_value) dict"

record 's driver =
  drv_run :: "string \<Rightarrow> (string, db_value) dict \<Rightarrow> string option \<Rightarrow> 's \<Rightarrow> ('s, exn, row list) outcome"
  drv_write :: "('s \<Rightarrow> ('s, exn, row list) outcome) \<Rightarrow> string option \<Rightarrow> 's \<Rightarrow> ('s, exn, row list) outcome"

text \<open>\<open>except Exception as e: raise DatabaseError(...)\<close>\<close>

definition db_error :: "string \<Rightarrow> 'a res \<Rightarrow> 'a res" where
  "db_error what r =
     (case r of
        Inl e \<Rightarrow> if caught e then raises DatabaseError (what @ ex_msg e) else Inl e
      | Inr x \<Rightarrow> Inr x)"

definition connect_client :: "(string \<Rightarrow> 's driver res) \<Rightarrow> string \<Rightarrow> 's driver res" where
  "connect_client open_driver uri = db_error ''connecting to Neo4j failed: '' (open_driver uri)"

definition execute_query ::
  "'s driver \<Rightarrow> string \<Rightarrow> (string, db_value) dict option \<Rightarrow> string option \<Rightarrow> 's \<Rightarrow> ('s, exn, row list) outcome" where
  "execute_query drv query params db s =
     (case drv_run drv query (case params of None \<Rightarrow> [] | Some d \<Rightarrow> d) db s of
        (s', r) \<Rightarrow> (s', db_error ''query failed: '' r))"

text \<open>\<open>[model_class.model_validate(item) for item in raw_results]\<close>\<close>

fun validate_rows :: "(row \<Rightarrow> 'm res) \<Rightarrow> row list \<Rightarrow> 'm list res" where
  "validate_rows validate [] = Inr []"
| "validate_rows validate (r # rs) =
     bind_res (validate r) (\<lambda>m. bind_res (validate_rows validate rs) (\<lambda>ms. Inr (m # ms)))"

definition convert_rows :: "(row \<Rightarrow> 'm res) \<Rightarrow> ('s, exn, row list) outcome \<Rightarrow> ('s, exn, 'm list) outcome" where
  "convert_rows validate out =
     and_then out (\<lambda>rows s. (s, db_error ''conversion to the model failed: '' (validate_rows validate rows)))"

definition execute_with_model ::
  "'s driver \<Rightarrow> string \<Rightarrow> (row \<Rightarrow> 'm res) \<Rightarrow> (string, db_value) dict option \<Rightarrow> string option \<Rightarrow> 's
     \<Rightarrow> ('s, exn, 'm list) outcome" where
  "execute_with_model drv query validate params db s = convert_rows validate (execute_query drv query params db s)"

definition execute_transaction ::
  "'s driver \<Rightarrow> ('s \<Rightarrow> ('s, exn, row list) outcome) \<Rightarrow> string option \<Rightarrow> 's \<Rightarrow> ('s, exn, row list) outcome" where
  "execute_transaction drv work db s =
     (case drv_write drv work db s of (s', r) \<Rightarrow> (s', db_error ''transaction failed: '' r))"

definition execute_transaction_with_model ::
  "'s driver \<Rightarrow> ('s \<Rightarrow> ('s, exn, row list) outcome) \<Rightarrow> (row \<Rightarrow> 'm res) \<Rightarrow> string option \<Rightarrow> 's \<Rightarrow> ('s, exn, 'm list) outcome" where
  "execute_transaction_with_model drv work validate db s = convert_rows validate (execute_transaction drv work db s)"

text \<open>Whatever goes wrong in the database or in the conversion, callers see \<open>DatabaseError\<close>.\<close>

lemma db_error_class: "db_error what r = Inl e \<Longrightarrow> caught e \<Longrightarrow> ex_class e = DatabaseError"
  by (auto simp: db_error_def split: sum.splits if_splits)

lemma execute_query_class: "execute_query drv q ps db s = (s', Inl e) \<Longrightarrow> caught e \<Longrightarrow> ex_class e = DatabaseError"
  by (auto simp: execute_query_def split: prod.splits dest: db_error_class)

section \<open>The pool\<close>

text \<open>
  \<open>cp_pool\<close> holds the idle clients and \<open>cp_available\<close> is the count of the semaphore. The other fields
  follow the threads: how many have acquired the semaphore and not yet entered the lock, which
  clients are handed out, and how many threads have put a client back and not yet released the
  semaphore.
\<close>

record 'c conn_pool =
  cp_max :: nat
  cp_pool :: "'c list"
  cp_available :: nat
  cp_waiting :: nat
  cp_in_use :: "'c list"
  cp_releasing :: nat

definition new_pool :: "nat \<Rightarrow> 'c conn_pool" where
  "new_pool max_size =
     \<lparr>cp_max = max_size, cp_pool = [], cp_available = max_size, cp_waiting = 0, cp_in_use = [], cp_releasing = 0\<rparr>"

text \<open>\<open>self._available.acquire()\<close> blocks while the count is 0.\<close>

definition pool_acquire :: "'c conn_pool \<Rightarrow> 'c conn_pool option" where
  "pool_acquire p =
     (if cp_available p = 0 then None
      else Some (p\<lparr>cp_available := cp_available p - 1, cp_waiting := Suc (cp_waiting p)\<rparr>))"

text \<open>
  The part of \<open>get_client\<close> under the lock; \<open>created\<close> is what creating a client would give. The list is
  a stack.
\<close>

definition pool_take :: "'c res \<Rightarrow> 'c conn_pool \<Rightarrow> ('c conn_pool, exn, 'c) outcome" where
  "pool_take created p =
     (let p' = p\<lparr>cp_waiting := cp_waiting p - 1\<rparr> in
      if cp_pool p = [] then
        (case created of
           Inr c \<Rightarrow> (p'\<lparr>cp_in_use := c # cp_in_use p\<rparr>, Inr c)
         | Inl e \<Rightarrow>
             if caught e then (p'\<lparr>cp_available := Suc (cp_available p)\<rparr>, raises DatabaseError (''creating a Neo4j client failed: '' @ ex_msg e))
             else (p', Inl e))
      else
        (p'\<lparr>cp_pool := butlast (cp_pool p), cp_in_use := last (cp_pool p) # cp_in_use p\<rparr>, Inr (last (cp_pool p))))"

text \<open>The two halves of \<open>release_client\<close>.\<close>

definition pool_put :: "'c \<Rightarrow> 'c conn_pool \<Rightarrow> 'c conn_pool" where
  "pool_put c p =
     p\<lparr>cp_pool := cp_pool p @ [c], cp_in_use := remove1 c (cp_in_use p), cp_releasing := Suc (cp_releasing p)\<rparr>"

definition pool_signal :: "'c conn_pool \<Rightarrow> 'c conn_pool" where
  "pool_signal p = p\<lparr>cp_available := Suc (cp_available p), cp_releasing := cp_releasing p - 1\<rparr>"

definition close_all :: "'c conn_pool \<Rightarrow> 'c conn_pool" where
  "close_all p = p\<lparr>cp_pool := []\<rparr>"

text \<open>\<open>get_client\<close> and \<open>release_client\<close> without interruption, and the context manager \<open>client()\<close>.\<close>

definition get_client :: "'c res \<Rightarrow> 'c conn_pool \<Rightarrow> ('c conn_pool, exn, 'c) outcome option" where
  "get_client created p = map_option (pool_take created) (pool_acquire p)"

definition release_client :: "'c \<Rightarrow> 'c conn_pool \<Rightarrow> 'c conn_pool" where
  "release_client c p = pool_signal (pool_put c p)"

definition with_client ::
  "'c res \<Rightarrow> ('c \<Rightarrow> 's \<Rightarrow> ('s, exn, 'a) outcome) \<Rightarrow> 'c conn_pool \<times> 's \<Rightarrow> ('c conn_pool \<times> 's, exn, 'a) outcome option" where
  "with_client created body ps =
     (case ps of (p, s) \<Rightarrow>
        map_option (\<lambda>out. case out of
            (p', Inl e) \<Rightarrow> ((p', s), Inl e)
          | (p', Inr c) \<Rightarrow> (case body c s of (s', r) \<Rightarrow> ((release_client c p', s'), r)))
          (get_client created p))"

text \<open>
  The steps of the threads. A client that is created is a new object. A thread gives back only what
  it holds.
\<close>

inductive pool_step :: "'c conn_pool \<Rightarrow> 'c conn_pool \<Rightarrow> bool" where
  acquire: "pool_acquire p = Some p' \<Longrightarrow> pool_step p p'"
| take_client: "\<lbrakk>0 < cp_waiting p; pool_take (Inr c) p = (p', Inr c'); c \<notin> set (cp_pool p) \<union> set (cp_in_use p)\<rbrakk> \<Longrightarrow>
    pool_step p p'"
| take_fails: "\<lbrakk>0 < cp_waiting p; pool_take (Inl e) p = (p', r); caught e\<rbrakk> \<Longrightarrow> pool_step p p'"
| put_client: "c \<in> set (cp_in_use p) \<Longrightarrow> pool_step p (pool_put c p)"
| signal: "0 < cp_releasing p \<Longrightarrow> pool_step p (pool_signal p)"
| close: "pool_step p (close_all p)"

inductive_cases pool_stepE: "pool_step p p'"

definition pool_reachable :: "nat \<Rightarrow> 'c conn_pool \<Rightarrow> bool" where
  "pool_reachable n p \<longleftrightarrow> pool_step\<^sup>*\<^sup>* (new_pool n) p"

definition pool_inv :: "nat \<Rightarrow> 'c conn_pool \<Rightarrow> bool" where
  "pool_inv n p \<longleftrightarrow>
     cp_available p + cp_waiting p + length (cp_in_use p) + cp_releasing p = n \<and>
     length (cp_pool p) \<le> cp_available p + cp_waiting p + cp_releasing p \<and>
     distinct (cp_pool p) \<and> distinct (cp_in_use p) \<and> set (cp_pool p) \<inter> set (cp_in_use p) = {}"

lemma last_butlast_split: "xs \<noteq> [] \<Longrightarrow> \<exists>ys y. xs = ys @ [y]"
  by (metis append_butlast_last_id)

lemma pool_take_inv:
  assumes "pool_inv n p" "0 < cp_waiting p" "pool_take created p = (p', r)"
    and "\<forall>c. created = Inr c \<longrightarrow> c \<notin> set (cp_pool p) \<union> set (cp_in_use p)" "\<forall>e. created = Inl e \<longrightarrow> caught e"
  shows "pool_inv n p'"
proof (cases "cp_pool p = []")
  case True
  show ?thesis
  proof (cases created)
    case (Inl e)
    then have "p' = p\<lparr>cp_waiting := cp_waiting p - 1, cp_available := Suc (cp_available p)\<rparr>"
      using assms(3,5) True by (simp add: pool_take_def)
    then show ?thesis using assms(1,2) True by (simp add: pool_inv_def)
  next
    case (Inr c)
    then have "p' = p\<lparr>cp_waiting := cp_waiting p - 1, cp_in_use := c # cp_in_use p\<rparr>"
      using assms(3) True by (simp add: pool_take_def)
    moreover have "c \<notin> set (cp_in_use p)" using assms(4) Inr by blast
    ultimately show ?thesis using assms(1,2) True by (simp add: pool_inv_def)
  qed
next
  case False
  then obtain ys y where "cp_pool p = ys @ [y]" using last_butlast_split by blast
  then have "p' = p\<lparr>cp_waiting := cp_waiting p - 1, cp_pool := ys, cp_in_use := y # cp_in_use p\<rparr>"
    and p: "cp_pool p = ys @ [y]"
    using assms(3) by (simp_all add: pool_take_def)
  then show ?thesis using assms(1,2) by (auto simp: pool_inv_def)
qed

lemma pool_put_inv: "pool_inv n p \<Longrightarrow> c \<in> set (cp_in_use p) \<Longrightarrow> pool_inv n (pool_put c p)"
  by (auto simp: pool_inv_def pool_put_def length_remove1 dest: length_pos_if_in_set)

lemma pool_step_inv:
  assumes "pool_step p p'" "pool_inv n p"
  shows "pool_inv n p'"
  using assms(1)
proof (cases rule: pool_step.cases)
  case acquire
  with assms(2) show ?thesis by (auto simp: pool_acquire_def pool_inv_def split: if_splits)
next
  case (take_client c c')
  show ?thesis by (rule pool_take_inv [OF assms(2) take_client(1,2)]) (use take_client(3) in simp_all)
next
  case (take_fails e r)
  show ?thesis by (rule pool_take_inv [OF assms(2) take_fails(1,2)]) (use take_fails(3) in simp_all)
next
  case (put_client c)
  show ?thesis unfolding put_client(1) by (rule pool_put_inv [OF assms(2) put_client(2)])
next
  case signal
  with assms(2) show ?thesis by (auto simp: pool_signal_def pool_inv_def)
next
  case close
  with assms(2) show ?thesis by (auto simp: close_all_def pool_inv_def)
qed

text \<open>
  \<open>__init__\<close> of the singleton. Given any connection data it starts over, even when clients are handed out.
\<close>

definition pool_init :: "bool \<Rightarrow> nat \<Rightarrow> 'c conn_pool option \<Rightarrow> 'c conn_pool" where
  "pool_init any_arg n p =
     (case p of
        None \<Rightarrow> new_pool n
      | Some p \<Rightarrow> if any_arg then p\<lparr>cp_max := n, cp_pool := [], cp_available := n\<rparr> else p)"

section \<open>Properties\<close>

lemma pool_reachable_inv: "pool_reachable n p \<Longrightarrow> pool_inv n p"
  unfolding pool_reachable_def
proof (induction rule: rtranclp_induct)
  case base
  show ?case by (simp add: pool_inv_def new_pool_def)
next
  case (step p p')
  then show ?case using pool_step_inv by blast
qed

text \<open>
  C12: however threads interleave, errors included, at most \<open>max_size\<close> connections are open,
  no client is handed out twice or lies in the pool while it is used, a thread is made to wait only when
  all \<open>max_size\<close> permits are taken by threads in the middle of an operation or holding a client,
  and no permit is lost: once everything is returned all of them are free.
\<close>
theorem pool_is_safe:
  assumes "pool_reachable n p"
  shows "length (cp_pool p) + length (cp_in_use p) \<le> n \<and>
    distinct (cp_pool p @ cp_in_use p) \<and>
    (pool_acquire p = None \<longleftrightarrow> cp_waiting p + length (cp_in_use p) + cp_releasing p = n) \<and>
    (cp_waiting p = 0 \<and> cp_in_use p = [] \<and> cp_releasing p = 0 \<longrightarrow> cp_available p = n)"
proof -
  have inv: "cp_available p + cp_waiting p + length (cp_in_use p) + cp_releasing p = n"
      "length (cp_pool p) \<le> cp_available p + cp_waiting p + cp_releasing p"
      "distinct (cp_pool p)" "distinct (cp_in_use p)" "set (cp_pool p) \<inter> set (cp_in_use p) = {}"
    using pool_reachable_inv [OF assms] by (simp_all add: pool_inv_def)
  show ?thesis
  proof (intro conjI impI)
    show "length (cp_pool p) + length (cp_in_use p) \<le> n" using inv(1,2) by linarith
    show "distinct (cp_pool p @ cp_in_use p)" using inv(3-5) by simp
    show "pool_acquire p = None \<longleftrightarrow> cp_waiting p + length (cp_in_use p) + cp_releasing p = n"
      using inv(1) by (auto simp: pool_acquire_def)
    show "cp_available p = n" if "cp_waiting p = 0 \<and> cp_in_use p = [] \<and> cp_releasing p = 0"
      using that inv(1) by simp
  qed
qed

definition demo_pool :: "nat conn_pool" where
  "demo_pool = \<lparr>cp_max = 1, cp_pool = [], cp_available = 0, cp_waiting = 0, cp_in_use = [7], cp_releasing = 0\<rparr>"

lemma demo_pool_reachable: "pool_reachable 1 demo_pool"
proof -
  let ?p = "\<lparr>cp_max = 1, cp_pool = [], cp_available = 0, cp_waiting = 1, cp_in_use = [], cp_releasing = 0\<rparr> :: nat conn_pool"
  have "pool_step (new_pool 1) ?p"
    by (rule pool_step.acquire) (simp add: pool_acquire_def new_pool_def)
  moreover have "pool_step ?p demo_pool"
    by (rule pool_step.take_client [where c = 7 and c' = 7]) (simp_all add: pool_take_def demo_pool_def)
  ultimately show ?thesis unfolding pool_reachable_def by (meson converse_rtranclp_into_rtranclp rtranclp.rtrancl_refl)
qed

theorem pool_is_safe_witness: "pool_acquire demo_pool = None"
  using pool_is_safe [OF demo_pool_reachable] by (simp add: demo_pool_def)

text \<open>A second initialisation with arguments, as \<open>get_neo4j_pool\<close> may do, breaks the bound.\<close>

lemma reinit_overfills:
  "cp_available (release_client 7 (pool_init True 1 (Some demo_pool))) = 2"
  by (simp add: release_client_def pool_put_def pool_signal_def pool_init_def demo_pool_def)

text \<open>The context manager gives its client back whatever the body does.\<close>

lemma with_client_returns:
  assumes "get_client created p = Some (p', Inr c)" "with_client created body (p, s) = Some ((q, s'), r)"
  shows "q = release_client c p' \<and> (s', r) = body c s"
  using assms by (auto simp: with_client_def split: prod.splits)

end
