(* ===== verification/Neo4jServices.thy ===== *)
theory Neo4jServices
  imports Neo4j Scheduling WorkQueue
begin

text \<open>
  The services that keep their data in Neo4j: \<open>Neo4jNodeManagementService\<close>
  (\<open>registry/services/node/management.py\<close>), \<open>Neo4jGCService\<close> (\<open>registry/services/gc/service.py\<close>),
  \<open>StrategySnapshotService\<close> (\<open>registry/services/strategy/snapshot.py\<close>) and the schema
  (\<open>registry/services/node/neo4j_schema.py\<close>).

  What a Cypher query does is the database's: a query is its text, with the white space of the
  source normalised, and the properties that depend on its meaning assume it for the queries they
  use. \<open>DataNode.model_validate\<close>, \<open>model_dump\<close> and the protobuf conversions are parameters.
\<close>

section \<open>Storing nodes\<close>

text \<open>A node by the values its fields are dumped to.\<close>

record dumped_node =
  dm_id :: string
  dm_type :: "string option"
  dm_format :: pyval
  dm_params :: pyval
  dm_dependencies :: "string list"
  dm_ttl :: "int option"
  dm_tags :: "pyval option"
  dm_interval :: "pyval option"
  dm_stream :: "pyval option"

record 's neo4j_service =
  ns_driver :: "'s driver"
  ns_database :: "string option"

definition neo_query ::
  "'s neo4j_service \<Rightarrow> string \<Rightarrow> (string, db_value) dict \<Rightarrow> 's \<Rightarrow> ('s, exn, row list) outcome" where
  "neo_query sv q params s = execute_query (ns_driver sv) q (Some params) (ns_database sv) s"

definition find_query :: string where
  "find_query = ''MATCH (n:DataNode {node_id: $node_id}) RETURN n LIMIT 1''"

definition create_query :: string where
  "create_query = ''CREATE (n:DataNode { node_id: $node_id, type: $type, data_format: $data_format, params: $params, dependencies: $dependencies, ttl: $ttl, tags: $tags, interval_settings: $interval_settings, stream_settings: $stream_settings }) RETURN n.node_id AS node_id''"

text \<open>\<open>json.dumps(v)\<close> as a property.\<close>

definition dump :: "pyval \<Rightarrow> db_value res" where
  "dump v =
     (case json_dumps v of
        None \<Rightarrow> raises TypeError ''Object is not JSON serializable''
      | Some t \<Rightarrow> Inr (DText t))"

definition dump_truthy :: "pyval \<Rightarrow> db_value res" where
  "dump_truthy v = (if py_truthy v then dump v else Inr (DVal PNone))"

definition or_none_value :: "('a \<Rightarrow> pyval) \<Rightarrow> 'a option \<Rightarrow> db_value" where
  "or_none_value f x = DVal (case x of None \<Rightarrow> PNone | Some y \<Rightarrow> f y)"

definition or_py_none :: "pyval option \<Rightarrow> pyval" where
  "or_py_none x = (case x of None \<Rightarrow> PNone | Some v \<Rightarrow> v)"

definition node_properties :: "dumped_node \<Rightarrow> (string, db_value) dict res" where
  "node_properties n =
     bind_res (dump (case dm_tags n of None \<Rightarrow> PDict [] | Some v \<Rightarrow> v)) (\<lambda>tags.
     bind_res (dump (or_py_none (dm_interval n))) (\<lambda>iv.
     bind_res (dump (or_py_none (dm_stream n))) (\<lambda>st.
     bind_res (dump_truthy (dm_format n)) (\<lambda>fmt.
     bind_res (dump_truthy (dm_params n)) (\<lambda>ps.
       Inr [(''node_id'', DVal (PStr (dm_id n))),
            (''type'', or_none_value PStr (dm_type n)),
            (''data_format'', fmt), (''params'', ps),
            (''dependencies'', DVal (PList (map PStr (dm_dependencies n)))),
            (''ttl'', or_none_value PInt (dm_ttl n)),
            (''tags'', tags), (''interval_settings'', iv), (''stream_settings'', st)])))))"

definition neo_create_node :: "'s neo4j_service \<Rightarrow> dumped_node \<Rightarrow> 's \<Rightarrow> ('s, exn, db_value) outcome" where
  "neo_create_node sv n s =
     and_then (neo_query sv find_query [(''node_id'', DVal (PStr (dm_id n)))] s) (\<lambda>found s.
       if found \<noteq> [] then (s, raises DatabaseError (''DataNode already exists: '' @ dm_id n))
       else
         (case node_properties n of
            Inl e \<Rightarrow> (s, Inl e)
          | Inr props \<Rightarrow>
              and_then (neo_query sv create_query props s) (\<lambda>rows s.
                (s, case rows of
                      [] \<Rightarrow> raises DatabaseError ''Failed to create DataNode''
                    | r # _ \<Rightarrow>
                        (case map_of r ''node_id'' of
                           None \<Rightarrow> raises KeyError ''node_id''
                         | Some v \<Rightarrow> Inr v)))))"

text \<open>\<open>if isinstance(d.get(k), str): d[k] = json.loads(d[k])\<close>\<close>

definition parse_field :: "string \<Rightarrow> (string, db_value) dict \<Rightarrow> (string, db_value) dict res" where
  "parse_field k d =
     (case map_of d k of
        Some (DText t) \<Rightarrow>
          (case json_loads t of
             None \<Rightarrow> raises ValueError ''Expecting value''
           | Some v \<Rightarrow> Inr (AList.update k (DVal v) d))
      | Some (DVal (PStr _)) \<Rightarrow> raises ValueError ''Expecting value''
      | _ \<Rightarrow> Inr d)"

definition parse_node :: "((string, db_value) dict \<Rightarrow> 'n res) \<Rightarrow> db_value \<Rightarrow> 'n res" where
  "parse_node validate v =
     (case v of
        DProps d \<Rightarrow>
          bind_res (parse_field ''data_format'' d) (\<lambda>d.
          bind_res (parse_field ''params'' d) (\<lambda>d.
          bind_res (parse_field ''tags'' d) (\<lambda>d.
          bind_res (parse_field ''interval_settings'' d) (\<lambda>d.
          bind_res (parse_field ''stream_settings'' d) validate))))
      | _ \<Rightarrow> raises AttributeError ''no attribute get'')"

definition neo_get_node ::
  "((string, db_value) dict \<Rightarrow> 'n res) \<Rightarrow> 's neo4j_service \<Rightarrow> string \<Rightarrow> 's \<Rightarrow> ('s, exn, 'n option) outcome" where
  "neo_get_node validate sv i s =
     and_then (neo_query sv find_query [(''node_id'', DVal (PStr i))] s) (\<lambda>rows s.
       (s, case rows of
             [] \<Rightarrow> Inr None
           | r # _ \<Rightarrow>
               (case map_of r ''n'' of
                  None \<Rightarrow> raises KeyError ''n''
                | Some v \<Rightarrow> map_sum id Some (db_error ''Invalid DataNode format: '' (parse_node validate v)))))"

text \<open>The number in a column, with the default of \<open>get\<close>.\<close>

definition int_column :: "string \<Rightarrow> row \<Rightarrow> int res" where
  "int_column k r =
     (case map_of r k of
        None \<Rightarrow> Inr 0
      | Some (DVal (PInt i)) \<Rightarrow> Inr i
      | _ \<Rightarrow> raises TypeError ''> not supported'')"

definition neo_delete_node :: "'s neo4j_service \<Rightarrow> string \<Rightarrow> 's \<Rightarrow> ('s, exn, bool) outcome" where
  "neo_delete_node sv i s =
     and_then
       (neo_query sv ''MATCH (n:DataNode {node_id: $node_id}) DETACH DELETE n RETURN COUNT(n) AS deleted''
          [(''node_id'', DVal (PStr i))] s)
       (\<lambda>rows s. (s, case rows of [] \<Rightarrow> Inr False | r # _ \<Rightarrow> bind_res (int_column ''deleted'' r) (\<lambda>n. Inr (0 < n))))"

section \<open>Lists of nodes\<close>

text \<open>Rows that do not parse are skipped.\<close>

fun load_rows :: "((string, db_value) dict \<Rightarrow> 'n res) \<Rightarrow> row list \<Rightarrow> 'n list res" where
  "load_rows validate [] = Inr []"
| "load_rows validate (r # rs) =
     (case (case map_of r ''n'' of None \<Rightarrow> raises KeyError ''n'' | Some v \<Rightarrow> parse_node validate v) of
        Inl e \<Rightarrow> if caught e then load_rows validate rs else Inl e
      | Inr n \<Rightarrow> bind_res (load_rows validate rs) (\<lambda>ns. Inr (n # ns)))"

definition load_nodes ::
  "((string, db_value) dict \<Rightarrow> 'n res) \<Rightarrow> 's neo4j_service \<Rightarrow> string \<Rightarrow> (string, db_value) dict \<Rightarrow> 's \<Rightarrow> ('s, exn, 'n list) outcome" where
  "load_nodes validate sv q params s = and_then (neo_query sv q params s) (\<lambda>rows s. (s, load_rows validate rows))"

definition neo_list_nodes ::
  "((string, db_value) dict \<Rightarrow> 'n res) \<Rightarrow> 's neo4j_service \<Rightarrow> 's \<Rightarrow> ('s, exn, 'n list) outcome" where
  "neo_list_nodes validate sv = load_nodes validate sv ''MATCH (n:DataNode) RETURN n'' []"

definition neo_list_zero_deps ::
  "((string, db_value) dict \<Rightarrow> 'n res) \<Rightarrow> 's neo4j_service \<Rightarrow> 's \<Rightarrow> ('s, exn, 'n list) outcome" where
  "neo_list_zero_deps validate sv =
     load_nodes validate sv ''MATCH (n:DataNode) WHERE size(n.dependencies) = 0 RETURN n'' []"

section \<open>Search by tags\<close>

text \<open>The text of the condition on the \<open>i\<close>-th tag.\<close>

definition tag_var :: "nat \<Rightarrow> string" where
  "tag_var i = ''$tag'' @ show_nat i"

definition in_predefined :: "nat \<Rightarrow> string" where
  "in_predefined i = tag_var i @ '' IN n.tags.predefined''"

definition in_custom :: "nat \<Rightarrow> string" where
  "in_custom i = tag_var i @ '' IN n.tags.custom''"

definition tag_condition :: "nat \<Rightarrow> string" where
  "tag_condition i = in_predefined i @ '' OR '' @ in_custom i"

definition tag_cond :: "string \<Rightarrow> nat \<Rightarrow> string" where
  "tag_cond mode n = join (if mode = ''AND'' then '' AND '' else '' OR '') (map tag_condition [0..<n])"

text \<open>An option counts when it is a non-empty text.\<close>

definition given :: "string option \<Rightarrow> bool" where
  "given x \<longleftrightarrow> x \<noteq> None \<and> x \<noteq> Some []"

definition tag_query :: "nat \<Rightarrow> string option \<Rightarrow> string option \<Rightarrow> string \<Rightarrow> string" where
  "tag_query n interval period mode =
     (let conds = filter (\<lambda>c. c \<noteq> [])
            [if n = 0 then '''' else tag_cond mode n,
             if given interval then ''n.interval_settings.interval = $interval'' else '''',
             if given period then ''n.interval_settings.period = $period'' else ''''] in
      ''MATCH (n:DataNode) '' @ (if conds = [] then '''' else ''WHERE '' @ join '' AND '' conds) @ '' RETURN n'')"

definition tag_params :: "string list \<Rightarrow> string option \<Rightarrow> string option \<Rightarrow> (string, db_value) dict" where
  "tag_params tags interval period =
     map (\<lambda>(i, t). (''tag'' @ show_nat i, DVal (PStr t))) (zip [0..<length tags] tags) @
     (if given interval then [(''interval'', DVal (PStr (the interval)))] else []) @
     (if given period then [(''period'', DVal (PStr (the period)))] else [])"

definition neo_list_by_tags ::
  "((string, db_value) dict \<Rightarrow> 'n res) \<Rightarrow> 's neo4j_service \<Rightarrow> string list \<Rightarrow> string option \<Rightarrow> string option \<Rightarrow> string \<Rightarrow> 's
     \<Rightarrow> ('s, exn, 'n list) outcome" where
  "neo_list_by_tags validate sv tags interval period mode s =
     (if mode \<notin> {''AND'', ''OR''} then (s, raises PydanticValidationError ''Input should be AND or OR'')
      else load_nodes validate sv (tag_query (length tags) interval period mode) (tag_params tags interval period) s)"

section \<open>Relations\<close>

definition link_params :: "string \<Rightarrow> string \<Rightarrow> string \<Rightarrow> string \<Rightarrow> (string, db_value) dict" where
  "link_params k v k' v' = [(k, DVal (PStr v)), (k', DVal (PStr v'))]"

text \<open>A query whose result is not looked at.\<close>

definition neo_run :: "'s neo4j_service \<Rightarrow> string \<Rightarrow> (string, db_value) dict \<Rightarrow> 's \<Rightarrow> ('s, exn, unit) outcome" where
  "neo_run sv q params s = and_then (neo_query sv q params s) (\<lambda>_ s. (s, Inr ()))"

definition neo_add_contains :: "'s neo4j_service \<Rightarrow> string \<Rightarrow> string \<Rightarrow> 's \<Rightarrow> ('s, exn, unit) outcome" where
  "neo_add_contains sv v i =
     neo_run sv ''MATCH (s:StrategyVersion {version_id: $strategy_version_id}), (n:DataNode {node_id: $node_id}) MERGE (s)-[:CONTAINS]->(n)''
       (link_params ''strategy_version_id'' v ''node_id'' i)"

definition neo_remove_contains :: "'s neo4j_service \<Rightarrow> string \<Rightarrow> string \<Rightarrow> 's \<Rightarrow> ('s, exn, unit) outcome" where
  "neo_remove_contains sv v i =
     neo_run sv ''MATCH (s:StrategyVersion {version_id: $strategy_version_id})-[r:CONTAINS]->(n:DataNode {node_id: $node_id}) DELETE r''
       (link_params ''strategy_version_id'' v ''node_id'' i)"

definition neo_ref_count :: "'s neo4j_service \<Rightarrow> string \<Rightarrow> 's \<Rightarrow> ('s, exn, int) outcome" where
  "neo_ref_count sv i s =
     and_then
       (neo_query sv ''MATCH (s:StrategyVersion)-[:CONTAINS]->(n:DataNode {node_id: $node_id}) RETURN COUNT(s) AS ref_count''
          [(''node_id'', DVal (PStr i))] s)
       (\<lambda>rows s. (s, case rows of [] \<Rightarrow> Inr 0 | r # _ \<Rightarrow> int_column ''ref_count'' r))"

text \<open>\<open>[row[k] for row in result]\<close>\<close>

fun column :: "string \<Rightarrow> row list \<Rightarrow> db_value list res" where
  "column k [] = Inr []"
| "column k (r # rs) =
     (case map_of r k of
        None \<Rightarrow> raises KeyError k
      | Some v \<Rightarrow> bind_res (column k rs) (\<lambda>vs. Inr (v # vs)))"

definition neo_ref_strategies :: "'s neo4j_service \<Rightarrow> string \<Rightarrow> 's \<Rightarrow> ('s, exn, db_value list) outcome" where
  "neo_ref_strategies sv i s =
     and_then
       (neo_query sv ''MATCH (s:StrategyVersion)-[:CONTAINS]->(n:DataNode {node_id: $node_id}) RETURN s.version_id AS version_id''
          [(''node_id'', DVal (PStr i))] s)
       (\<lambda>rows s. (s, column ''version_id'' rows))"

definition neo_strategy_nodes ::
  "((string, db_value) dict \<Rightarrow> 'n res) \<Rightarrow> 's neo4j_service \<Rightarrow> string \<Rightarrow> 's \<Rightarrow> ('s, exn, 'n list) outcome" where
  "neo_strategy_nodes validate sv v =
     load_nodes validate sv ''MATCH (s:StrategyVersion {version_id: $strategy_version_id})-[:CONTAINS]->(n:DataNode) RETURN n''
       [(''strategy_version_id'', DVal (PStr v))]"

definition neo_node_dependencies :: "'s neo4j_service \<Rightarrow> string \<Rightarrow> 's \<Rightarrow> ('s, exn, db_value list) outcome" where
  "neo_node_dependencies sv i s =
     and_then
       (neo_query sv ''MATCH (n:DataNode {node_id: $node_id})-[:DEPENDS_ON]->(dep:DataNode) RETURN dep.node_id AS dependency_id''
          [(''node_id'', DVal (PStr i))] s)
       (\<lambda>rows s. (s, column ''dependency_id'' rows))"

definition neo_add_dependency :: "'s neo4j_service \<Rightarrow> string \<Rightarrow> string \<Rightarrow> 's \<Rightarrow> ('s, exn, unit) outcome" where
  "neo_add_dependency sv i dep =
     neo_run sv ''MATCH (n:DataNode {node_id: $node_id}), (dep:DataNode {node_id: $dependency_id}) MERGE (n)-[:DEPENDS_ON]->(dep)''
       (link_params ''node_id'' i ''dependency_id'' dep)"

definition neo_remove_dependency :: "'s neo4j_service \<Rightarrow> string \<Rightarrow> string \<Rightarrow> 's \<Rightarrow> ('s, exn, unit) outcome" where
  "neo_remove_dependency sv i dep =
     neo_run sv ''MATCH (n:DataNode {node_id: $node_id})-[r:DEPENDS_ON]->(dep:DataNode {node_id: $dependency_id}) DELETE r''
       (link_params ''node_id'' i ''dependency_id'' dep)"

section \<open>Status and scheduling\<close>

definition neo_get_node_status ::
  "((string, db_value) dict \<Rightarrow> 'st res) \<Rightarrow> 's neo4j_service \<Rightarrow> string \<Rightarrow> 's \<Rightarrow> ('s, exn, 'st option) outcome" where
  "neo_get_node_status validate_status sv i s =
     (case and_then (neo_query sv ''MATCH (s:NodeStatus {node_id: $node_id}) RETURN s LIMIT 1'' [(''node_id'', DVal (PStr i))] s)
        (\<lambda>rows s. (s, case rows of
             [] \<Rightarrow> Inr None
           | r # _ \<Rightarrow>
               (case map_of r ''s'' of
                  None \<Rightarrow> raises KeyError ''s''
                | Some (DProps d) \<Rightarrow> map_sum id Some (validate_status d)
                | Some _ \<Rightarrow> raises PydanticValidationError ''Input should be a valid dictionary''))) of
        (s', r) \<Rightarrow> (s', db_error ''reading NodeStatus failed: '' r))"

text \<open>\<open>status.model_dump()\<close> is outside the \<open>try\<close>.\<close>

definition neo_update_node_status ::
  "'s neo4j_service \<Rightarrow> string \<Rightarrow> (string, db_value) dict res \<Rightarrow> 's \<Rightarrow> ('s, exn, unit) outcome" where
  "neo_update_node_status sv i dumped s =
     (case dumped of
        Inl e \<Rightarrow> (s, Inl e)
      | Inr d \<Rightarrow>
          (case neo_run sv ''MERGE (s:NodeStatus {node_id: $node_id}) SET s.status = $status, s.start_time = $start_time, s.end_time = $end_time, s.result = $result, s.resource = $resource, s.meta = $meta RETURN s''
              ((''node_id'', DVal (PStr i)) #
               map (\<lambda>k. (k, case map_of d k of None \<Rightarrow> DVal PNone | Some v \<Rightarrow> v))
                 [''status'', ''start_time'', ''end_time'', ''result'', ''resource'', ''meta'']) s of
             (s', r) \<Rightarrow> (s', db_error ''saving NodeStatus failed: '' r)))"

definition neo_strategy_dag ::
  "nat \<Rightarrow> ((string, db_value) dict \<Rightarrow> 'v data_node res) \<Rightarrow> 's neo4j_service \<Rightarrow> string \<Rightarrow> 's
     \<Rightarrow> ('s, exn, (string, 'v data_node) dict \<times> 'v topo_sort_result) outcome" where
  "neo_strategy_dag k validate sv v s =
     and_then (neo_strategy_nodes validate sv v s) (\<lambda>ns s. (s, builder_build_dag k ns))"

definition neo_ready_nodes ::
  "nat \<Rightarrow> ((string, db_value) dict \<Rightarrow> 'v data_node res) \<Rightarrow> 's neo4j_service \<Rightarrow> string \<Rightarrow> (string, string) dict \<Rightarrow> 's
     \<Rightarrow> ('s, exn, 'v data_node list) outcome" where
  "neo_ready_nodes k validate sv v status s =
     and_then (neo_strategy_nodes validate sv v s) (\<lambda>ns s. (s, get_ready_nodes k ns status))"

definition neo_enqueue_ready :: "'s worker \<Rightarrow> 'v data_node list \<Rightarrow> 's \<Rightarrow> ('s, exn, 'v data_node list) outcome" where
  "neo_enqueue_ready w ns s = enqueue_ready_nodes w ns s"

section \<open>Schema\<close>

definition schema_cypher :: "string list" where
  "schema_cypher =
     [''CREATE CONSTRAINT IF NOT EXISTS FOR (n:DataNode) REQUIRE n.node_id IS UNIQUE;'',
      ''CREATE CONSTRAINT IF NOT EXISTS FOR (s:StrategyVersion) REQUIRE s.version_id IS UNIQUE;'',
      ''CREATE CONSTRAINT IF NOT EXISTS FOR (a:ActivationHistory) REQUIRE (a.strategy_id, a.version_id, a.activated_at) IS UNIQUE;'',
      ''CREATE INDEX IF NOT EXISTS FOR ()-[r:DEPENDS_ON]-() ON (r);'',
      ''CREATE INDEX IF NOT EXISTS FOR ()-[r:CONTAINS]-() ON (r);'',
      ''CREATE INDEX IF NOT EXISTS FOR ()-[r:ACTIVATED_BY]-() ON (r);'',
      ''CREATE INDEX IF NOT EXISTS FOR (n:DataNode) ON (n.tags.predefined);'',
      ''CREATE INDEX IF NOT EXISTS FOR (n:DataNode) ON (n.tags.custom);'',
      ''CREATE INDEX IF NOT EXISTS FOR (n:DataNode) ON (n.interval_settings.interval);'',
      ''CREATE INDEX IF NOT EXISTS FOR (n:DataNode) ON (n.interval_settings.period);'']"

definition init_neo4j_schema :: "'s driver \<Rightarrow> 's \<Rightarrow> ('s, exn, unit) outcome" where
  "init_neo4j_schema drv s =
     each (\<lambda>q s. and_then (execute_query drv q None None s) (\<lambda>_ s. (s, Inr ()))) schema_cypher s"

section \<open>Garbage collection\<close>

record gc_status =
  gc_timestamp :: string
  gc_ttl_deleted :: int
  gc_zero_dep_deleted :: int

definition ttl_query :: string where
  "ttl_query = ''MATCH (n:DataNode) WHERE n.ttl IS NOT NULL AND n.ttl > 0 AND n.created_at IS NOT NULL AND (n.created_at + n.ttl) < $now WITH n DETACH DELETE n RETURN count(n) AS deleted_count''"

definition zero_dep_query :: string where
  "zero_dep_query = ''MATCH (n:DataNode) WHERE NOT (n)<-[:DEPENDS_ON]-(:DataNode) WITH n DETACH DELETE n RETURN count(n) AS deleted_count''"

text \<open>\<open>result[0]["deleted_count"] if result else 0\<close>, and 0 when the database fails.\<close>

definition count_deleted :: "('s, exn, row list) outcome \<Rightarrow> ('s, exn, int) outcome" where
  "count_deleted out =
     (case and_then out (\<lambda>rows s. (s, case rows of
          [] \<Rightarrow> Inr 0
        | r # _ \<Rightarrow> (case map_of r ''deleted_count'' of None \<Rightarrow> raises KeyError ''deleted_count'' | Some _ \<Rightarrow> int_column ''deleted_count'' r))) of
        (s, Inl e) \<Rightarrow> (s, if ex_class e = DatabaseError then Inr 0 else Inl e)
      | out' \<Rightarrow> out')"

text \<open>Each collection holds a client of the pool; \<open>created\<close> is what creating one would give.\<close>

definition collect_ttl_expired ::
  "'s driver res \<Rightarrow> string option \<Rightarrow> int \<Rightarrow> 's driver conn_pool \<times> 's \<Rightarrow> ('s driver conn_pool \<times> 's, exn, int) outcome option" where
  "collect_ttl_expired created db now =
     with_client created (\<lambda>drv s. count_deleted (execute_query drv ttl_query (Some [(''now'', DVal (PInt now))]) db s))"

definition collect_zero_deps ::
  "'s driver res \<Rightarrow> string option \<Rightarrow> 's driver conn_pool \<times> 's \<Rightarrow> ('s driver conn_pool \<times> 's, exn, int) outcome option" where
  "collect_zero_deps created db =
     with_client created (\<lambda>drv s. count_deleted (execute_query drv zero_dep_query (Some []) db s))"

text \<open>None is a wait for a client that does not end. The status is stored only at the end.\<close>

definition run_gc ::
  "'s driver res \<Rightarrow> string option \<Rightarrow> int \<Rightarrow> string \<Rightarrow> 's driver conn_pool \<times> 's
     \<Rightarrow> ('s driver conn_pool \<times> 's, exn, gc_status) outcome option" where
  "run_gc created db now timestamp ps =
     (case collect_ttl_expired created db now ps of
        None \<Rightarrow> None
      | Some (ps1, Inl e) \<Rightarrow> Some (ps1, Inl e)
      | Some (ps1, Inr ttl) \<Rightarrow>
          map_option (\<lambda>(ps2, r). (ps2, map_sum id (\<lambda>zero.
              \<lparr>gc_timestamp = timestamp, gc_ttl_deleted = ttl, gc_zero_dep_deleted = zero\<rparr>) r))
            (collect_zero_deps created db ps1))"

section \<open>Snapshots of strategies\<close>

record 'm snapshot_codec =
  sn_pipeline :: "'m \<Rightarrow> string"
  sn_created :: "'m \<Rightarrow> int"
  sn_bytes :: "'m \<Rightarrow> json_text"
  sn_parse :: "db_value \<Rightarrow> 'm res"

definition snapshot_id :: "'m snapshot_codec \<Rightarrow> 'm \<Rightarrow> string" where
  "snapshot_id c m = sn_pipeline c m @ ''_'' @ show_int (sn_created c m)"

definition create_snapshot :: "'m snapshot_codec \<Rightarrow> 's neo4j_service \<Rightarrow> 'm \<Rightarrow> 's \<Rightarrow> ('s, exn, string) outcome" where
  "create_snapshot c sv m s =
     and_then
       (neo_query sv ''CREATE (s:StrategySnapshot { snapshot_id: $snapshot_id, pipeline_id: $pipeline_id, created_at: $created_at, snapshot_bin: $snapshot_bin }) WITH s RETURN s.snapshot_id AS snapshot_id''
          [(''snapshot_id'', DVal (PStr (snapshot_id c m))), (''pipeline_id'', DVal (PStr (sn_pipeline c m))),
           (''created_at'', DVal (PInt (sn_created c m))), (''snapshot_bin'', DText (sn_bytes c m))] s)
       (\<lambda>rows s. (s, if rows = [] then raises PyException ''saving the snapshot failed'' else Inr (snapshot_id c m)))"

text \<open>\<open>s["snapshot_bin"]\<close> parsed, where the node itself is read outside the \<open>try\<close>.\<close>

definition parse_snapshot :: "'m snapshot_codec \<Rightarrow> db_value \<Rightarrow> 'm res" where
  "parse_snapshot c v =
     (case v of
        DProps d \<Rightarrow> (case map_of d ''snapshot_bin'' of None \<Rightarrow> raises KeyError ''snapshot_bin'' | Some b \<Rightarrow> sn_parse c b)
      | _ \<Rightarrow> raises TypeError ''indices must be integers'')"

fun parse_snapshots :: "'m snapshot_codec \<Rightarrow> row list \<Rightarrow> 'm list res" where
  "parse_snapshots c [] = Inr []"
| "parse_snapshots c (r # rs) =
     (case map_of r ''s'' of
        None \<Rightarrow> raises KeyError ''s''
      | Some v \<Rightarrow>
          (case parse_snapshot c v of
             Inl e \<Rightarrow> if caught e then parse_snapshots c rs else Inl e
           | Inr m \<Rightarrow> bind_res (parse_snapshots c rs) (\<lambda>ms. Inr (m # ms))))"

definition get_snapshots :: "'m snapshot_codec \<Rightarrow> 's neo4j_service \<Rightarrow> string \<Rightarrow> 's \<Rightarrow> ('s, exn, 'm list) outcome" where
  "get_snapshots c sv pid s =
     and_then (neo_query sv ''MATCH (s:StrategySnapshot {pipeline_id: $pipeline_id}) RETURN s ORDER BY s.created_at DESC''
        [(''pipeline_id'', DVal (PStr pid))] s) (\<lambda>rows s. (s, parse_snapshots c rows))"

definition rollback_to_snapshot ::
  "'m snapshot_codec \<Rightarrow> 's neo4j_service \<Rightarrow> string \<Rightarrow> string \<Rightarrow> 's \<Rightarrow> ('s, exn, 'm option) outcome" where
  "rollback_to_snapshot c sv pid sid s =
     and_then (neo_query sv ''MATCH (s:StrategySnapshot {snapshot_id: $snapshot_id, pipeline_id: $pipeline_id}) RETURN s LIMIT 1''
        (link_params ''snapshot_id'' sid ''pipeline_id'' pid) s)
       (\<lambda>rows s. (s, case rows of
             [] \<Rightarrow> Inr None
           | r # _ \<Rightarrow>
               (case map_of r ''s'' of
                  None \<Rightarrow> raises KeyError ''s''
                | Some v \<Rightarrow>
                    (case parse_snapshot c v of
                       Inr m \<Rightarrow> Inr (Some m)
                     | Inl e \<Rightarrow> if caught e then Inr None else Inl e))))"

section \<open>Garbage collection empties the registry\<close>

text \<open>
  What the two deletions do, for a view of the ids of the nodes and of the pairs of a node and a node it depends
  on: they delete nodes with all their relations, the second those that no node depends on.
\<close>

definition gc_laws ::
  "('s \<Rightarrow> string set) \<Rightarrow> ('s \<Rightarrow> (string \<times> string) set) \<Rightarrow> string option \<Rightarrow> 's driver \<Rightarrow> bool" where
  "gc_laws ids deps db drv \<longleftrightarrow>
     (\<forall>now s. \<exists>s' k. execute_query drv ttl_query (Some [(''now'', DVal (PInt now))]) db s =
          (s', Inr [[(''deleted_count'', DVal (PInt k))]]) \<and>
        ids s' \<subseteq> ids s \<and> deps s' = deps s \<inter> ids s' \<times> ids s') \<and>
     (\<forall>s. \<exists>s' k. execute_query drv zero_dep_query (Some []) db s =
          (s', Inr [[(''deleted_count'', DVal (PInt k))]]) \<and>
        ids s' = {n \<in> ids s. \<exists>m \<in> ids s. (m, n) \<in> deps s} \<and> deps s' = deps s \<inter> ids s' \<times> ids s')"

definition usable_pool :: "('c \<Rightarrow> bool) \<Rightarrow> 'c conn_pool \<Rightarrow> bool" where
  "usable_pool P p \<longleftrightarrow> 0 < cp_available p \<and> (\<forall>c \<in> set (cp_pool p). P c)"

lemma with_client_ok:
  assumes "usable_pool P p" "P c0"
  shows "\<exists>c p'. P c \<and> usable_pool P p' \<and>
    with_client (Inr c0) body (p, s) = Some ((p', fst (body c s)), snd (body c s))"
proof (cases "cp_pool p = []")
  case True
  then show ?thesis using assms
    by (intro exI [of _ c0]) (auto simp: with_client_def get_client_def pool_acquire_def pool_take_def Let_def
        release_client_def pool_put_def pool_signal_def usable_pool_def split_beta)
next
  case False
  then obtain cs c where c: "cp_pool p = cs @ [c]" using last_butlast_split by blast
  then show ?thesis using assms
    by (intro exI [of _ c]) (auto simp: with_client_def get_client_def pool_acquire_def pool_take_def Let_def
        release_client_def pool_put_def pool_signal_def usable_pool_def split_beta)
qed

lemma run_gc_ok:
  assumes "usable_pool (gc_laws ids deps db) p" "gc_laws ids deps db c0"
  shows "\<exists>p' s1 s2 st. run_gc (Inr c0) db now ts (p, s) = Some ((p', s2), Inr st) \<and>
    usable_pool (gc_laws ids deps db) p' \<and>
    ids s1 \<subseteq> ids s \<and> deps s1 = deps s \<inter> ids s1 \<times> ids s1 \<and>
    ids s2 = {n \<in> ids s1. \<exists>m \<in> ids s1. (m, n) \<in> deps s1} \<and> deps s2 = deps s1 \<inter> ids s2 \<times> ids s2"
proof -
  let ?ttl = "\<lambda>drv s. count_deleted (execute_query drv ttl_query (Some [(''now'', DVal (PInt now))]) db s)"
  let ?zero = "\<lambda>drv s. count_deleted (execute_query drv zero_dep_query (Some []) db s)"
  have cnt: "count_deleted (s', Inr [[(''deleted_count'', DVal (PInt k))]]) = (s', Inr k)" for s' k
    by (simp add: count_deleted_def int_column_def)
  obtain c1 p1 where c1: "gc_laws ids deps db c1" "usable_pool (gc_laws ids deps db) p1"
      "with_client (Inr c0) ?ttl (p, s) = Some ((p1, fst (?ttl c1 s)), snd (?ttl c1 s))"
    using with_client_ok [OF assms, of ?ttl s] by blast
  obtain s1 k1 where s1: "execute_query c1 ttl_query (Some [(''now'', DVal (PInt now))]) db s =
      (s1, Inr [[(''deleted_count'', DVal (PInt k1))]])" "ids s1 \<subseteq> ids s" "deps s1 = deps s \<inter> ids s1 \<times> ids s1"
    using c1(1) unfolding gc_laws_def by blast
  obtain c2 p2 where c2: "gc_laws ids deps db c2" "usable_pool (gc_laws ids deps db) p2"
      "with_client (Inr c0) ?zero (p1, s1) = Some ((p2, fst (?zero c2 s1)), snd (?zero c2 s1))"
    using with_client_ok [OF c1(2) assms(2), of ?zero s1] by blast
  obtain s2 k2 where s2: "execute_query c2 zero_dep_query (Some []) db s1 =
      (s2, Inr [[(''deleted_count'', DVal (PInt k2))]])"
      "ids s2 = {n \<in> ids s1. \<exists>m \<in> ids s1. (m, n) \<in> deps s1}" "deps s2 = deps s1 \<inter> ids s2 \<times> ids s2"
    using c2(1) unfolding gc_laws_def by blast
  have "run_gc (Inr c0) db now ts (p, s) = Some ((p2, s2), Inr \<lparr>gc_timestamp = ts, gc_ttl_deleted = k1, gc_zero_dep_deleted = k2\<rparr>)"
    using c1(3) c2(3)
    by (simp add: run_gc_def collect_ttl_expired_def collect_zero_deps_def s1(1) s2(1) cnt)
  then show ?thesis using c2(2) s1(2,3) s2(2,3) by blast
qed

text \<open>In a finite acyclic graph some node has no dependents.\<close>

lemma top_node:
  assumes "finite N" "N \<noteq> {}" "acyclic E"
  shows "\<exists>n \<in> N. \<forall>m \<in> N. (m, n) \<notin> E"
proof -
  have "finite (E \<inter> N \<times> N)" using assms(1) by simp
  moreover have "acyclic (E \<inter> N \<times> N)" using assms(3) by (rule acyclic_subset) blast
  ultimately have "wf (E \<inter> N \<times> N)" by (rule finite_acyclic_wf)
  then obtain n where "n \<in> N" "\<And>m. (m, n) \<in> E \<inter> N \<times> N \<Longrightarrow> m \<notin> N"
    using assms(2) by (metis ex_in_conv wfE_min)
  then show ?thesis by blast
qed

fun gc_rounds ::
  "'s driver res \<Rightarrow> string option \<Rightarrow> (int \<times> string) list \<Rightarrow> 's driver conn_pool \<times> 's \<Rightarrow> ('s driver conn_pool \<times> 's) option" where
  "gc_rounds created db [] ps = Some ps"
| "gc_rounds created db ((now, ts) # rounds) ps =
     (case run_gc created db now ts ps of
        Some (ps', Inr _) \<Rightarrow> gc_rounds created db rounds ps'
      | _ \<Rightarrow> None)"

text \<open>
  C29: the garbage collector empties the registry. A round deletes every node that no other node
  depends on, strategies that contain it or not, and so lays open the nodes behind it: when the
  dependencies are acyclic, at most as many rounds as there are nodes delete them all, with no help from their
  lifetimes.
\<close>
theorem gc_empties_registry:
  assumes "usable_pool (gc_laws ids deps db) p" "gc_laws ids deps db c0"
    and "finite (ids s)" "acyclic (deps s)" "card (ids s) \<le> length rounds"
  shows "\<exists>p' s'. gc_rounds (Inr c0) db rounds (p, s) = Some (p', s') \<and> ids s' = {}"
  using assms
proof (induction rounds arbitrary: p s)
  case Nil
  then show ?case by simp
next
  case (Cons round rounds)
  obtain now ts where r: "round = (now, ts)" by fastforce
  obtain p' s1 s2 st where gc: "run_gc (Inr c0) db now ts (p, s) = Some ((p', s2), Inr st)"
      "usable_pool (gc_laws ids deps db) p'" "ids s1 \<subseteq> ids s" "deps s1 = deps s \<inter> ids s1 \<times> ids s1"
      "ids s2 = {n \<in> ids s1. \<exists>m \<in> ids s1. (m, n) \<in> deps s1}" "deps s2 = deps s1 \<inter> ids s2 \<times> ids s2"
    using run_gc_ok [OF Cons.prems(1,2), of now ts s] by blast
  have sub: "deps s1 \<subseteq> deps s" "deps s2 \<subseteq> deps s" using gc(4,6) by blast+
  have acyc: "acyclic (deps s1)" "acyclic (deps s2)" using sub Cons.prems(4) by (blast intro: acyclic_subset)+
  have fin: "finite (ids s1)" "finite (ids s2)" using gc(3,5) Cons.prems(3) by (simp_all add: finite_subset)
  have "card (ids s2) \<le> length rounds"
  proof (cases "ids s1 = {}")
    case True
    then show ?thesis using gc(5) by simp
  next
    case False
    then obtain n where "n \<in> ids s1" "n \<notin> ids s2" using top_node [OF fin(1) False acyc(1)] gc(5) by blast
    then have "ids s2 \<subset> ids s" using gc(3,5) by blast
    then have "card (ids s2) < card (ids s)" using Cons.prems(3) by (rule psubset_card_mono [rotated])
    then show ?thesis using Cons.prems(5) by simp
  qed
  from Cons.IH [OF gc(2) Cons.prems(2) fin(2) acyc(2) this] show ?case using gc(1) r by simp
qed

section \<open>What the search by tags asks for\<close>

text \<open>
  The condition as a sequence of tokens, and its meaning in Cypher, where \<open>AND\<close> binds stronger than
  \<open>OR\<close>: \<open>c\<close> is the value of the conjunction read so far.
\<close>

datatype token = Atom string | AndToken | OrToken

fun token_text :: "token \<Rightarrow> string" where
  "token_text (Atom a) = a"
| "token_text AndToken = '' AND ''"
| "token_text OrToken = '' OR ''"

definition render :: "token list \<Rightarrow> string" where
  "render ts = concat (map token_text ts)"

fun cypher_holds :: "(string \<Rightarrow> bool) \<Rightarrow> token list \<Rightarrow> bool \<Rightarrow> bool" where
  "cypher_holds h [] c = c"
| "cypher_holds h (Atom a # ts) c = cypher_holds h ts (c \<and> h a)"
| "cypher_holds h (AndToken # ts) c = cypher_holds h ts c"
| "cypher_holds h (OrToken # ts) c = (c \<or> cypher_holds h ts True)"

fun tag_tokens :: "string \<Rightarrow> nat list \<Rightarrow> token list" where
  "tag_tokens mode [] = []"
| "tag_tokens mode [i] = [Atom (in_predefined i), OrToken, Atom (in_custom i)]"
| "tag_tokens mode (i # j # is) =
     [Atom (in_predefined i), OrToken, Atom (in_custom i), if mode = ''AND'' then AndToken else OrToken] @ tag_tokens mode (j # is)"

lemma render_tag_tokens:
  "render (tag_tokens mode is) = join (if mode = ''AND'' then '' AND '' else '' OR '') (map tag_condition is)"
  by (induction mode "is" rule: tag_tokens.induct) (simp_all add: render_def tag_condition_def)

lemma or_tokens:
  "is \<noteq> [] \<Longrightarrow> cypher_holds h (tag_tokens ''OR'' is) True \<longleftrightarrow> (\<exists>i \<in> set is. h (in_predefined i) \<or> h (in_custom i))"
  by (induction "''OR''" "is" rule: tag_tokens.induct) auto

lemma and_tokens:
  "a < n \<Longrightarrow> cypher_holds h (tag_tokens ''AND'' [a..<n]) c \<longleftrightarrow>
     c \<and> h (in_predefined a) \<or> (\<exists>i. a \<le> i \<and> Suc i < n \<and> h (in_custom i) \<and> h (in_predefined (Suc i))) \<or> h (in_custom (n - 1))"
proof (induction "n - a" arbitrary: a c)
  case 0
  then show ?case by simp
next
  case (Suc m)
  show ?case
  proof (cases "Suc a = n")
    case True
    then have "[a..<n] = [a]" by (simp add: upt_rec)
    with True show ?thesis by auto
  next
    case False
    then have lt: "Suc a < n" using Suc.prems by simp
    then have upt: "[a..<n] = a # Suc a # [Suc (Suc a)..<n]" "[Suc a..<n] = Suc a # [Suc (Suc a)..<n]"
      by (simp_all add: upt_rec [of a] upt_rec [of "Suc a"])
    have "cypher_holds h (tag_tokens ''AND'' [a..<n]) c \<longleftrightarrow>
        c \<and> h (in_predefined a) \<or> cypher_holds h (tag_tokens ''AND'' [Suc a..<n]) (h (in_custom a))"
      unfolding upt by simp
    also have "\<dots> \<longleftrightarrow> c \<and> h (in_predefined a) \<or>
        (h (in_custom a) \<and> h (in_predefined (Suc a)) \<or>
         (\<exists>i. Suc a \<le> i \<and> Suc i < n \<and> h (in_custom i) \<and> h (in_predefined (Suc i))) \<or> h (in_custom (n - 1)))"
      using Suc.hyps(1) [of "Suc a" "h (in_custom a)"] Suc.hyps(2) lt by simp
    also have "(h (in_custom a) \<and> h (in_predefined (Suc a)) \<or>
         (\<exists>i. Suc a \<le> i \<and> Suc i < n \<and> h (in_custom i) \<and> h (in_predefined (Suc i))) \<or> h (in_custom (n - 1))) \<longleftrightarrow>
        (\<exists>i. a \<le> i \<and> Suc i < n \<and> h (in_custom i) \<and> h (in_predefined (Suc i))) \<or> h (in_custom (n - 1))"
      using lt by (metis Suc_leD le_antisym not_less_eq_eq)
    finally show ?thesis .
  qed
qed

text \<open>
  In the query the search sends, the alternatives of the single tags have no parentheses. With
  \<open>OR\<close> it asks what it should. With \<open>AND\<close> it asks for the first tag among the predefined
  ones, or the last among the custom ones, or two neighbours one custom and one predefined, so a
  node with one of many tags can match.
\<close>
theorem tag_search_precedence:
  assumes "0 < n"
  shows "render (tag_tokens mode [0..<n]) = tag_cond mode n \<and>
    (cypher_holds h (tag_tokens ''OR'' [0..<n]) True \<longleftrightarrow> (\<exists>i < n. h (in_predefined i) \<or> h (in_custom i))) \<and>
    (cypher_holds h (tag_tokens ''AND'' [0..<n]) True \<longleftrightarrow>
       h (in_predefined 0) \<or> (\<exists>i. Suc i < n \<and> h (in_custom i) \<and> h (in_predefined (Suc i))) \<or> h (in_custom (n - 1)))"
proof (intro conjI)
  show "render (tag_tokens mode [0..<n]) = tag_cond mode n"
    by (simp only: render_tag_tokens tag_cond_def)
  have "[0..<n] \<noteq> []" using assms by simp
  from or_tokens [OF this]
  show "cypher_holds h (tag_tokens ''OR'' [0..<n]) True \<longleftrightarrow> (\<exists>i < n. h (in_predefined i) \<or> h (in_custom i))" by auto
  from and_tokens [OF assms]
  show "cypher_holds h (tag_tokens ''AND'' [0..<n]) True \<longleftrightarrow>
       h (in_predefined 0) \<or> (\<exists>i. Suc i < n \<and> h (in_custom i) \<and> h (in_predefined (Suc i))) \<or> h (in_custom (n - 1))" by simp
qed

theorem tag_search_precedence_witness:
  "cypher_holds (\<lambda>a. a = in_predefined 0) (tag_tokens ''AND'' [0..<2]) True"
  using tag_search_precedence [of 2 "''AND''" "\<lambda>a. a = in_predefined 0"] by simp

section \<open>Nodes are read back\<close>

text \<open>
  What finding and creating a node do, for a view of the properties stored under an id. A property
  set to null is not stored.
\<close>

definition node_db_laws :: "('s \<Rightarrow> string \<Rightarrow> (string, db_value) dict option) \<Rightarrow> 's neo4j_service \<Rightarrow> bool" where
  "node_db_laws content sv \<longleftrightarrow>
     (\<forall>i s. neo_query sv find_query [(''node_id'', DVal (PStr i))] s =
        (s, Inr (case content s i of None \<Rightarrow> [] | Some d \<Rightarrow> [[(''n'', DProps d)]]))) \<and>
     (\<forall>i props s. map_of props ''node_id'' = Some (DVal (PStr i)) \<longrightarrow>
        (\<exists>s'. neo_query sv create_query props s = (s', Inr [[(''node_id'', DVal (PStr i))]]) \<and>
          content s' = (content s)(i \<mapsto> filter (\<lambda>(k, v). v \<noteq> DVal PNone) props)))"

text \<open>The dict that is validated when a node is read back.\<close>

definition reloaded :: "dumped_node \<Rightarrow> (string, db_value) dict" where
  "reloaded n =
     [(''node_id'', DVal (PStr (dm_id n)))] @
     (case dm_type n of None \<Rightarrow> [] | Some t \<Rightarrow> [(''type'', DVal (PStr t))]) @
     (if py_truthy (dm_format n) then [(''data_format'', DVal (dm_format n))] else []) @
     (if py_truthy (dm_params n) then [(''params'', DVal (dm_params n))] else []) @
     [(''dependencies'', DVal (PList (map PStr (dm_dependencies n))))] @
     (case dm_ttl n of None \<Rightarrow> [] | Some i \<Rightarrow> [(''ttl'', DVal (PInt i))]) @
     [(''tags'', DVal (case dm_tags n of None \<Rightarrow> PDict [] | Some v \<Rightarrow> v)),
      (''interval_settings'', DVal (or_py_none (dm_interval n))),
      (''stream_settings'', DVal (or_py_none (dm_stream n)))]"

lemma dump_Inr: "dump v = Inr x \<longleftrightarrow> json_ok v \<and> x = DText (JText v)"
  by (auto simp: dump_def json_dumps_def)

lemma dump_truthy_Inr:
  "dump_truthy v = Inr x \<longleftrightarrow> (if py_truthy v then json_ok v \<and> x = DText (JText v) else x = DVal PNone)"
  by (auto simp: dump_truthy_def dump_Inr)

lemma parse_stored:
  assumes "node_properties n = Inr props"
  shows "parse_node validate (DProps (filter (\<lambda>(k, v). v \<noteq> DVal PNone) props)) = validate (reloaded n)"
    and "map_of props ''node_id'' = Some (DVal (PStr (dm_id n)))"
proof -
  obtain fmt ps where d: "dump_truthy (dm_format n) = Inr fmt" "dump_truthy (dm_params n) = Inr ps"
    and props: "props =
      [(''node_id'', DVal (PStr (dm_id n))), (''type'', or_none_value PStr (dm_type n)), (''data_format'', fmt), (''params'', ps),
       (''dependencies'', DVal (PList (map PStr (dm_dependencies n)))), (''ttl'', or_none_value PInt (dm_ttl n)),
       (''tags'', DText (JText (case dm_tags n of None \<Rightarrow> PDict [] | Some v \<Rightarrow> v))),
       (''interval_settings'', DText (JText (or_py_none (dm_interval n)))),
       (''stream_settings'', DText (JText (or_py_none (dm_stream n))))]"
    using assms by (auto simp: node_properties_def bind_res_Inr dump_Inr)
  have f: "fmt = (if py_truthy (dm_format n) then DText (JText (dm_format n)) else DVal PNone)"
    and p: "ps = (if py_truthy (dm_params n) then DText (JText (dm_params n)) else DVal PNone)"
    using d by (auto simp: dump_truthy_Inr split: if_splits)
  show "map_of props ''node_id'' = Some (DVal (PStr (dm_id n)))" by (simp add: props)
  show "parse_node validate (DProps (filter (\<lambda>(k, v). v \<noteq> DVal PNone) props)) = validate (reloaded n)"
    by (cases "dm_type n"; cases "dm_ttl n"; cases "py_truthy (dm_format n)"; cases "py_truthy (dm_params n)")
      (simp_all add: props f p or_none_value_def reloaded_def parse_node_def parse_field_def json_loads_def)
qed

lemma db_error_Inr [simp]: "db_error what (Inr x) = Inr x"
  by (simp add: db_error_def)

text \<open>
  C23: a node that is created under a new id is read back as the node its stored values validate to:
  every field comes back as it was dumped, with empty formats and parameters left out. Other nodes stay as they are,
  and creating a node under the same id again fails and changes nothing.
\<close>
theorem neo_node_round_trip:
  assumes "node_db_laws content sv" "content s (dm_id n) = None" "node_properties n = Inr props"
  shows "\<exists>s'. neo_create_node sv n s = (s', Inr (DVal (PStr (dm_id n)))) \<and>
    neo_get_node validate sv (dm_id n) s' =
      (s', map_sum id Some (db_error ''Invalid DataNode format: '' (validate (reloaded n)))) \<and>
    (\<forall>i. i \<noteq> dm_id n \<longrightarrow> content s' i = content s i) \<and>
    (\<forall>n'. dm_id n' = dm_id n \<longrightarrow>
       neo_create_node sv n' s' = (s', raises DatabaseError (''DataNode already exists: '' @ dm_id n)))"
proof -
  note stored = parse_stored [OF assms(3)]
  have find: "neo_query sv find_query [(''node_id'', DVal (PStr i))] t =
      (t, Inr (case content t i of None \<Rightarrow> [] | Some d \<Rightarrow> [[(''n'', DProps d)]]))" for i t
    using assms(1) by (simp add: node_db_laws_def)
  obtain s' where s': "neo_query sv create_query props s = (s', Inr [[(''node_id'', DVal (PStr (dm_id n)))]])"
      "content s' = (content s)(dm_id n \<mapsto> filter (\<lambda>(k, v). v \<noteq> DVal PNone) props)"
    using assms(1) stored(2) unfolding node_db_laws_def by blast
  have "neo_create_node sv n s = (s', Inr (DVal (PStr (dm_id n))))"
    using assms(2,3) by (simp add: neo_create_node_def find s'(1))
  moreover have "neo_get_node validate sv (dm_id n) s' =
      (s', map_sum id Some (db_error ''Invalid DataNode format: '' (validate (reloaded n))))"
    using stored(1) [of validate] by (simp add: neo_get_node_def find s'(2))
  moreover have "neo_create_node sv n' s' = (s', raises DatabaseError (''DataNode already exists: '' @ dm_id n))"
    if "dm_id n' = dm_id n" for n'
    using that by (simp add: neo_create_node_def find s'(2))
  ultimately show ?thesis using s'(2) by auto
qed

section \<open>A database for the examples\<close>

type_synonym demo_db = "(string \<Rightarrow> (string, db_value) dict option) \<times> (string \<times> string) set"

definition key_of :: "(string, db_value) dict \<Rightarrow> string" where
  "key_of ps = (case map_of ps ''node_id'' of Some (DVal (PStr i)) \<Rightarrow> i | _ \<Rightarrow> '''')"

definition demo_zero :: "demo_db \<Rightarrow> demo_db" where
  "demo_zero s =
     (let keep = {n. fst s n \<noteq> None \<and> (\<exists>m. fst s m \<noteq> None \<and> (m, n) \<in> snd s)} in
      (\<lambda>i. if i \<in> keep then fst s i else None, snd s \<inter> keep \<times> keep))"

definition demo_driver :: "demo_db driver" where
  "demo_driver =
     \<lparr>drv_run = (\<lambda>q ps db s.
        if q = find_query then
          (s, Inr (case fst s (key_of ps) of None \<Rightarrow> [] | Some d \<Rightarrow> [[(''n'', DProps d)]]))
        else if q = create_query then
          (((fst s)(key_of ps \<mapsto> filter (\<lambda>(k, v). v \<noteq> DVal PNone) ps), snd s), Inr [[(''node_id'', DVal (PStr (key_of ps)))]])
        else if q = zero_dep_query then (demo_zero s, Inr [[(''deleted_count'', DVal (PInt 0))]])
        else if q = ttl_query then
          ((fst s, snd s \<inter> {n. fst s n \<noteq> None} \<times> {n. fst s n \<noteq> None}), Inr [[(''deleted_count'', DVal (PInt 0))]])
        else (s, Inr [])),
      drv_write = (\<lambda>work db s. work s)\<rparr>"

definition demo_service :: "demo_db neo4j_service" where
  "demo_service = \<lparr>ns_driver = demo_driver, ns_database = None\<rparr>"

lemma queries_differ:
  "create_query \<noteq> find_query" "zero_dep_query \<noteq> find_query" "zero_dep_query \<noteq> create_query"
  "ttl_query \<noteq> find_query" "ttl_query \<noteq> create_query" "ttl_query \<noteq> zero_dep_query"
  by (simp_all add: create_query_def find_query_def zero_dep_query_def ttl_query_def)

lemma demo_node_laws: "node_db_laws fst demo_service"
  by (simp add: node_db_laws_def neo_query_def execute_query_def demo_service_def demo_driver_def queries_differ key_of_def)

definition demo_dumped :: dumped_node where
  "demo_dumped = \<lparr>dm_id = ''n'', dm_type = Some ''RAW'', dm_format = PDict [(''type'', PStr ''csv'')], dm_params = PNone,
     dm_dependencies = [], dm_ttl = None, dm_tags = None, dm_interval = None, dm_stream = None\<rparr>"

lemma demo_properties: "\<exists>props. node_properties demo_dumped = Inr props"
  by (simp add: node_properties_def demo_dumped_def dump_def dump_truthy_def json_dumps_def or_py_none_def)

theorem neo_node_round_trip_witness:
  "\<exists>s'. snd (neo_get_node (\<lambda>d. Inr (map fst d)) demo_service ''n'' s') =
    Inr (Some [''node_id'', ''type'', ''data_format'', ''dependencies'', ''tags'', ''interval_settings'', ''stream_settings''])"
proof -
  obtain props where p: "node_properties demo_dumped = Inr props" using demo_properties by blast
  have "fst ((\<lambda>_. None, {}) :: demo_db) (dm_id demo_dumped) = None" by simp
  from neo_node_round_trip [OF demo_node_laws this p, of "\<lambda>d. Inr (map fst d)"]
  obtain s' where "neo_get_node (\<lambda>d. Inr (map fst d)) demo_service (dm_id demo_dumped) s' =
      (s', map_sum id Some (db_error ''Invalid DataNode format: '' (Inr (map fst (reloaded demo_dumped)))))"
    by blast
  then show ?thesis by (intro exI [of _ s']) (simp add: demo_dumped_def reloaded_def)
qed

lemma demo_gc_laws: "gc_laws (\<lambda>s. {n. fst s n \<noteq> None}) (\<lambda>s. snd s) None demo_driver"
  unfolding gc_laws_def
proof (intro conjI allI)
  fix now and s :: demo_db
  show "\<exists>s' k. execute_query demo_driver ttl_query (Some [(''now'', DVal (PInt now))]) None s =
          (s', Inr [[(''deleted_count'', DVal (PInt k))]]) \<and>
        {n. fst s' n \<noteq> None} \<subseteq> {n. fst s n \<noteq> None} \<and> snd s' = snd s \<inter> {n. fst s' n \<noteq> None} \<times> {n. fst s' n \<noteq> None}"
    by (simp add: execute_query_def demo_driver_def queries_differ)
next
  fix s :: demo_db
  have "execute_query demo_driver zero_dep_query (Some []) None s = (demo_zero s, Inr [[(''deleted_count'', DVal (PInt 0))]])"
    by (simp add: execute_query_def demo_driver_def queries_differ)
  moreover have "{n. fst (demo_zero s) n \<noteq> None} = {n \<in> {n. fst s n \<noteq> None}. \<exists>m \<in> {n. fst s n \<noteq> None}. (m, n) \<in> snd s}"
    by (auto simp: demo_zero_def Let_def)
  moreover have "snd (demo_zero s) = snd s \<inter> {n. fst (demo_zero s) n \<noteq> None} \<times> {n. fst (demo_zero s) n \<noteq> None}"
    by (auto simp: demo_zero_def Let_def)
  ultimately show "\<exists>s' k. execute_query demo_driver zero_dep_query (Some []) None s =
          (s', Inr [[(''deleted_count'', DVal (PInt k))]]) \<and>
        {n. fst s' n \<noteq> None} = {n \<in> {n. fst s n \<noteq> None}. \<exists>m \<in> {n. fst s n \<noteq> None}. (m, n) \<in> snd s} \<and>
        snd s' = snd s \<inter> {n. fst s' n \<noteq> None} \<times> {n. fst s' n \<noteq> None}"
    by blast
qed

definition demo_graph :: demo_db where
  "demo_graph = ([''a'' \<mapsto> [], ''b'' \<mapsto> []], {(''b'', ''a'')})"

theorem gc_empties_registry_witness:
  "\<exists>p' s'. gc_rounds (Inr demo_driver) None [(0, ''t0''), (600, ''t1'')] (new_pool 10, demo_graph) = Some (p', s') \<and>
    {n. fst s' n \<noteq> None} = {}"
proof (rule gc_empties_registry [where deps = "\<lambda>s. snd s"])
  show "usable_pool (gc_laws (\<lambda>s. {n. fst s n \<noteq> None}) (\<lambda>s. snd s) None) (new_pool 10)"
    by (simp add: usable_pool_def new_pool_def)
  show "gc_laws (\<lambda>s. {n. fst s n \<noteq> None}) (\<lambda>s. snd s) None demo_driver" by (rule demo_gc_laws)
  have ids: "{n. fst demo_graph n \<noteq> None} = {''a'', ''b''}" by (auto simp: demo_graph_def)
  show "finite {n. fst demo_graph n \<noteq> None}" "card {n. fst demo_graph n \<noteq> None} \<le> length [(0 :: int, ''t0''), (600, ''t1'')]"
    by (simp_all only: ids) simp_all
  have "\<not> (''a'', ''a'') \<in> {(''b'', ''a'')}\<^sup>+" by (auto dest: tranclD)
  then show "acyclic (snd demo_graph)" by (auto simp: demo_graph_def acyclic_def dest: tranclD tranclD2)
qed

end
