(* ===== verification/SdkModels.thy ===== *)
theory SdkModels
  imports Pipeline
begin

text \<open>
  The definition models of the SDK (\<open>sdk/models.py\<close>): the functions that build protobuf messages
  and the wrapper classes around them.

  A message is a record with the fields that the descriptors under \<open>models/generated\<close> declare;
  reading a field that the descriptor does not declare raises \<open>AttributeError\<close>. The protobuf
  runtime is a parameter: what it stores for a value assigned to a string or 32 bit field, and the
  text \<open>str(v)\<close>. Arguments are \<open>pyval\<close>s; \<open>heap\<close> gives the objects the code can tell apart behind a
  \<open>PObject\<close>. The keys of a dict of intervals are the values of the enum members.
\<close>

section \<open>Messages and the runtime\<close>

record interval_msg =
  im_interval :: interval_enum
  im_period :: int
  im_max_history :: "int option"

record node_msg =
  nm_name :: string
  nm_tags :: "string list"
  nm_params :: "(string, string) dict"
  nm_upstreams :: "string list"

record query_msg =
  qm_name :: string
  qm_tags :: "string list"
  qm_upstreams :: "string list"
  qm_key_params :: "string list"
  qm_query_tags :: "string list"
  qm_interval :: "string option"
  qm_period :: "int option"

record pipeline_msg =
  pm_name :: string
  pm_nodes :: "node_msg list"
  pm_query_nodes :: "query_msg list"
  pm_metadata :: "(string, string) dict"

datatype selector_mode = SelList | SelBatch | SelRandom | SelFilter

record selector_msg =
  sm_mode :: selector_mode
  sm_batch :: "int option"
  sm_sample :: "int option"
  sm_meta :: "(string, string) dict"

definition node_fields :: "string list" where
  "node_fields = [''name'', ''tags'', ''params'', ''upstreams'']"

definition query_fields :: "string list" where
  "query_fields = [''name'', ''tags'', ''upstreams'', ''key_params'', ''query_tags'', ''interval'', ''period'']"

text \<open>The messages and enums that the module \<open>qmtl_pipeline_pb2\<close> defines.\<close>

definition pipeline_module :: "string list" where
  "pipeline_module = [''NodeDefinition'', ''QueryNodeDefinition'', ''PipelineDefinition'',
     ''QueryNodeResultSelector'', ''SelectorMode'', ''LIST'', ''BATCH'', ''RANDOM'', ''FILTER'']"

definition attr_in :: "string list \<Rightarrow> string \<Rightarrow> unit res" where
  "attr_in names a = (if a \<in> set names then Inr () else raises AttributeError a)"

record proto =
  set_string :: "pyval \<Rightarrow> string res"
  set_int32 :: "pyval \<Rightarrow> int res"
  text_of :: "pyval \<Rightarrow> string"

definition in_int32 :: "int \<Rightarrow> bool" where
  "in_int32 i \<longleftrightarrow> - (2 ^ 31) \<le> i \<and> i < 2 ^ 31"

text \<open>What is documented of the runtime: text goes into string fields and integers in range into 32 bit ones.\<close>

definition proto_ok :: "proto \<Rightarrow> bool" where
  "proto_ok lib \<longleftrightarrow>
     (\<forall>s. set_string lib (PStr s) = Inr s \<and> text_of lib (PStr s) = s) \<and>
     (\<forall>i. set_int32 lib (PInt i) = (if in_int32 i then Inr i else raises ValueError ''Value out of range'')) \<and>
     (\<forall>v. (\<exists>s. v = PStr s) \<or> (\<exists>x. set_string lib v = Inl x \<and> ex_class x = TypeError))"

datatype py_object =
    SettingsObject interval_obj | StreamObject intervals | StreamMessage "(string, interval_msg) dict"
  | NodeMessage node_msg | QueryMessage query_msg | OtherObject

type_synonym heap = "nat \<Rightarrow> py_object"

section \<open>Helpers\<close>

text \<open>\<open>Message(name=v)\<close> leaves the field at its default when the value is \<open>None\<close>.\<close>

definition field_arg :: "'a \<Rightarrow> (pyval \<Rightarrow> 'a res) \<Rightarrow> pyval \<Rightarrow> 'a res" where
  "field_arg d conv v = (if v = PNone then Inr d else conv v)"

text \<open>\<open>if v is not None: message.field = v\<close> for an optional field.\<close>

definition opt_field :: "(pyval \<Rightarrow> 'a res) \<Rightarrow> pyval \<Rightarrow> 'a option res" where
  "opt_field conv v = (if v = PNone then Inr None else bind_res (conv v) (\<lambda>x. Inr (Some x)))"

fun map_res :: "('a \<Rightarrow> 'b res) \<Rightarrow> 'a list \<Rightarrow> 'b list res" where
  "map_res f [] = Inr []"
| "map_res f (x # xs) = bind_res (f x) (\<lambda>y. bind_res (map_res f xs) (\<lambda>ys. Inr (y # ys)))"

text \<open>\<open>if v: message.field.extend(v)\<close> for a repeated string field.\<close>

definition extend_field :: "proto \<Rightarrow> string list \<Rightarrow> string \<Rightarrow> pyval \<Rightarrow> string list res" where
  "extend_field lib flds f v =
     (if py_truthy v
      then bind_res (attr_in flds f) (\<lambda>_. bind_res (elements v) (map_res (set_string lib)))
      else Inr [])"

text \<open>\<open>if v: for k, x in v.items(): message.field[k] = str(x)\<close>\<close>

definition put_strings :: "proto \<Rightarrow> string list \<Rightarrow> string \<Rightarrow> pyval \<Rightarrow> (string, string) dict res" where
  "put_strings lib flds f v =
     (if py_truthy v
      then bind_res (items_of v) (map_res (\<lambda>(k, x). bind_res (attr_in flds f) (\<lambda>_. Inr (k, text_of lib x))))
      else Inr [])"

definition dict_get :: "(string, pyval) dict \<Rightarrow> string \<Rightarrow> pyval" where
  "dict_get d k = (case map_of d k of None \<Rightarrow> PNone | Some v \<Rightarrow> v)"

definition dict_get_or :: "(string, pyval) dict \<Rightarrow> string \<Rightarrow> pyval \<Rightarrow> pyval" where
  "dict_get_or d k v = (case map_of d k of None \<Rightarrow> v | Some w \<Rightarrow> w)"

section \<open>Interval and stream settings\<close>

text \<open>\<open>SDK_TO_PROTO_INTERVAL.get(v, MINUTE)\<close>; an \<open>IntervalEnum\<close> member is a \<open>str\<close> with the same hash.\<close>

definition proto_interval :: "pyval \<Rightarrow> interval_enum res" where
  "proto_interval v =
     (if \<not> hashable v then raises TypeError ''unhashable type''
      else
        (case v of
           PStr s \<Rightarrow> (case interval_by_value s of Some i \<Rightarrow> Inr i | None \<Rightarrow> Inr MINUTE)
         | _ \<Rightarrow> Inr MINUTE))"

definition create_interval_settings :: "proto \<Rightarrow> pyval \<Rightarrow> pyval \<Rightarrow> pyval \<Rightarrow> interval_msg res" where
  "create_interval_settings lib iv period max_history =
     bind_res (proto_interval iv) (\<lambda>i.
     bind_res (field_arg 0 (set_int32 lib) period) (\<lambda>p.
     bind_res (opt_field (set_int32 lib) max_history) (\<lambda>m.
       Inr \<lparr>im_interval = i, im_period = p, im_max_history = m\<rparr>)))"

fun settings_msg :: "proto \<Rightarrow> setting \<Rightarrow> interval_msg res" where
  "settings_msg lib (SettingDict d) =
     create_interval_settings lib (dict_get d ''interval'') (dict_get d ''period'') (dict_get d ''max_history'')"
| "settings_msg lib (SettingObj ob) =
     create_interval_settings lib (obj_interval ob) (obj_period ob) (obj_max_history ob)"

fun stream_entries :: "proto \<Rightarrow> intervals \<Rightarrow> (string, interval_msg) dict \<Rightarrow> (string, interval_msg) dict res" where
  "stream_entries lib [] acc = Inr acc"
| "stream_entries lib ((k, st) # ivs) acc =
     bind_res (settings_msg lib st) (\<lambda>m. stream_entries lib ivs (AList.update k m acc))"

definition create_node_stream_settings :: "proto \<Rightarrow> intervals \<Rightarrow> (string, interval_msg) dict res" where
  "create_node_stream_settings lib ivs = stream_entries lib ivs []"

text \<open>A message as the settings object the function reads from it: the enum is its number.\<close>

fun interval_number :: "interval_enum \<Rightarrow> int" where
  "interval_number MINUTE = 0"
| "interval_number HOUR = 1"
| "interval_number DAY = 2"

definition msg_setting :: "interval_msg \<Rightarrow> setting" where
  "msg_setting m =
     SettingObj \<lparr>obj_interval = PInt (interval_number (im_interval m)), obj_period = PInt (im_period m),
                 obj_max_history = PInt (case im_max_history m of None \<Rightarrow> 0 | Some h \<Rightarrow> h)\<rparr>"

definition setting_arg :: "heap \<Rightarrow> pyval \<Rightarrow> setting res" where
  "setting_arg heap v =
     (case v of
        PDict d \<Rightarrow> Inr (SettingDict d)
      | PObject k \<Rightarrow>
          (case heap k of SettingsObject ob \<Rightarrow> Inr (SettingObj ob) | _ \<Rightarrow> raises AttributeError ''interval'')
      | _ \<Rightarrow> raises AttributeError ''interval'')"

text \<open>\<open>v.intervals if hasattr(v, "intervals") else v\<close>, and the items of the result.\<close>

definition intervals_arg :: "heap \<Rightarrow> pyval \<Rightarrow> intervals res" where
  "intervals_arg heap v =
     (case v of
        PObject k \<Rightarrow>
          (case heap k of
             StreamObject ivs \<Rightarrow> Inr ivs
           | StreamMessage ms \<Rightarrow> Inr (map (\<lambda>(iv, m). (iv, msg_setting m)) ms)
           | _ \<Rightarrow> raises AttributeError ''items'')
      | _ \<Rightarrow> bind_res (items_of v) (map_res (\<lambda>(k, x). bind_res (setting_arg heap x) (\<lambda>st. Inr (k, st)))))"

text \<open>
  The loop over \<open>stream_settings.items()\<close>. A map field of messages refuses assignments, so a field
  with that name would not help.
\<close>

definition put_stream :: "proto \<Rightarrow> heap \<Rightarrow> string list \<Rightarrow> string \<times> pyval \<Rightarrow> unit res" where
  "put_stream lib heap flds e =
     bind_res (intervals_arg heap (snd e)) (\<lambda>ivs.
     bind_res (create_node_stream_settings lib ivs) (\<lambda>_.
     bind_res (attr_in flds ''stream_settings'') (\<lambda>_.
       raises ValueError ''Direct assignment of submessage not allowed'')))"

definition put_streams :: "proto \<Rightarrow> heap \<Rightarrow> string list \<Rightarrow> pyval \<Rightarrow> unit res" where
  "put_streams lib heap flds v =
     (if py_truthy v then bind_res (items_of v) (\<lambda>d. bind_res (map_res (put_stream lib heap flds) d) (\<lambda>_. Inr ()))
      else Inr ())"

section \<open>Node, query node and pipeline definitions\<close>

definition create_node_definition ::
  "proto \<Rightarrow> heap \<Rightarrow> pyval \<Rightarrow> pyval \<Rightarrow> pyval \<Rightarrow> pyval \<Rightarrow> pyval \<Rightarrow> pyval \<Rightarrow> node_msg res" where
  "create_node_definition lib heap name tag_list params upstreams key_params streams =
     bind_res (field_arg '''' (set_string lib) name) (\<lambda>nm.
     bind_res (extend_field lib node_fields ''tags'' tag_list) (\<lambda>ts.
     bind_res (put_strings lib node_fields ''params'' params) (\<lambda>ps.
     bind_res (extend_field lib node_fields ''upstreams'' upstreams) (\<lambda>us.
     bind_res (extend_field lib node_fields ''key_params'' key_params) (\<lambda>_.
     bind_res (put_streams lib heap node_fields streams) (\<lambda>_.
       Inr \<lparr>nm_name = nm, nm_tags = ts, nm_params = ps, nm_upstreams = us\<rparr>))))))"

definition create_query_node_definition ::
  "proto \<Rightarrow> heap \<Rightarrow> pyval \<Rightarrow> pyval \<Rightarrow> pyval \<Rightarrow> pyval \<Rightarrow> pyval \<Rightarrow> pyval \<Rightarrow> pyval \<Rightarrow> pyval \<Rightarrow> pyval
     \<Rightarrow> query_msg res" where
  "create_query_node_definition lib heap name query_tag_list tag_list params upstreams key_params streams iv period =
     bind_res (field_arg '''' (set_string lib) name) (\<lambda>nm.
     bind_res (bind_res (elements query_tag_list) (map_res (set_string lib))) (\<lambda>qts.
     bind_res (extend_field lib query_fields ''tags'' tag_list) (\<lambda>ts.
     bind_res (put_strings lib query_fields ''params'' params) (\<lambda>_.
     bind_res (extend_field lib query_fields ''upstreams'' upstreams) (\<lambda>us.
     bind_res (extend_field lib query_fields ''key_params'' key_params) (\<lambda>ks.
     bind_res (put_streams lib heap query_fields streams) (\<lambda>_.
     bind_res (opt_field (set_string lib) iv) (\<lambda>i.
     bind_res (opt_field (set_int32 lib) period) (\<lambda>p.
       Inr \<lparr>qm_name = nm, qm_tags = ts, qm_upstreams = us, qm_key_params = ks, qm_query_tags = qts,
            qm_interval = i, qm_period = p\<rparr>)))))))))"






definition put_metadata :: "proto \<Rightarrow> pyval \<Rightarrow> (string, string) dict res" where
  "put_metadata lib v =
     (if py_truthy v then bind_res (items_of v) (\<lambda>d. Inr (map (\<lambda>(k, x). (k, text_of lib x)) d)) else Inr [])"


text \<open>
  \<open>create_analyzer_definition\<close> starts by reading \<open>AnalyzerDefinition\<close> from the pipeline module,
  which does not define that message: \<open>qmtl_analyzer_pb2\<close> does.
\<close>

definition create_analyzer_definition :: "unit res" where
  "create_analyzer_definition = attr_in pipeline_module ''AnalyzerDefinition''"

definition selector_mode_of :: "pyval \<Rightarrow> selector_mode res" where
  "selector_mode_of v =
     (if \<not> hashable v then raises TypeError ''unhashable type''
      else Inr (if v = PStr ''batch'' then SelBatch else if v = PStr ''random'' then SelRandom
                else if v = PStr ''filter'' then SelFilter else SelList))"

definition create_query_node_result_selector ::
  "proto \<Rightarrow> pyval \<Rightarrow> pyval \<Rightarrow> pyval \<Rightarrow> pyval \<Rightarrow> selector_msg res" where
  "create_query_node_result_selector lib mode batch_size sample_size filter_meta =
     bind_res (selector_mode_of mode) (\<lambda>m.
     bind_res (opt_field (set_int32 lib) batch_size) (\<lambda>b.
     bind_res (opt_field (set_int32 lib) sample_size) (\<lambda>s.
     bind_res (put_metadata lib filter_meta) (\<lambda>meta.
       Inr \<lparr>sm_mode = m, sm_batch = b, sm_sample = s, sm_meta = meta\<rparr>))))"

section \<open>The wrapper classes\<close>

definition new_interval_settings :: "proto \<Rightarrow> pyval \<Rightarrow> pyval \<Rightarrow> pyval \<Rightarrow> (interval_obj \<times> interval_msg) res" where
  "new_interval_settings lib iv period max_history =
     bind_res (create_interval_settings lib iv period max_history) (\<lambda>m.
       Inr (\<lparr>obj_interval = iv, obj_period = period, obj_max_history = max_history\<rparr>, m))"

definition new_stream_settings :: "proto \<Rightarrow> intervals \<Rightarrow> (intervals \<times> (string, interval_msg) dict) res" where
  "new_stream_settings lib ivs = bind_res (create_node_stream_settings lib ivs) (\<lambda>m. Inr (ivs, m))"

definition or_default :: "pyval \<Rightarrow> pyval \<Rightarrow> pyval" where
  "or_default v d = (if py_truthy v then v else d)"

record node_wrapper =
  nw_name :: pyval
  nw_tags :: pyval
  nw_params :: pyval
  nw_upstreams :: pyval
  nw_key_params :: pyval
  nw_streams :: pyval
  nw_proto :: node_msg

definition new_node_definition ::
  "proto \<Rightarrow> heap \<Rightarrow> pyval \<Rightarrow> pyval \<Rightarrow> pyval \<Rightarrow> pyval \<Rightarrow> pyval \<Rightarrow> pyval \<Rightarrow> node_wrapper res" where
  "new_node_definition lib heap name tag_list params upstreams key_params streams =
     bind_res (create_node_definition lib heap name tag_list params upstreams key_params streams) (\<lambda>m.
       Inr \<lparr>nw_name = name, nw_tags = or_default tag_list (PList []), nw_params = or_default params (PDict []),
            nw_upstreams = or_default upstreams (PList []), nw_key_params = or_default key_params (PList []),
            nw_streams = or_default streams (PDict []), nw_proto = m\<rparr>)"

definition node_from_definition :: "proto \<Rightarrow> heap \<Rightarrow> (string, pyval) dict \<Rightarrow> node_wrapper res" where
  "node_from_definition lib heap data =
     new_node_definition lib heap (dict_get data ''name'') (dict_get_or data ''tags'' (PList []))
       (dict_get_or data ''params'' (PDict [])) (dict_get_or data ''upstreams'' (PList []))
       (dict_get_or data ''key_params'' (PList [])) (dict_get_or data ''stream_settings'' (PDict []))"

text \<open>\<open>__getattr__\<close> runs when the wrapper itself has no such attribute: it asks the message.\<close>

definition node_msg_attr :: "node_msg \<Rightarrow> string \<Rightarrow> pyval res" where
  "node_msg_attr m a =
     (case map_of [(''name'', PStr (nm_name m)), (''tags'', PList (map PStr (nm_tags m))),
                   (''params'', PDict (map (\<lambda>(k, v). (k, PStr v)) (nm_params m))),
                   (''upstreams'', PList (map PStr (nm_upstreams m)))] a of
        None \<Rightarrow> raises AttributeError a
      | Some v \<Rightarrow> Inr v)"

definition node_wrapper_attr :: "node_wrapper \<Rightarrow> string \<Rightarrow> pyval res" where
  "node_wrapper_attr w a =
     (case map_of [(''name'', nw_name w), (''tags'', nw_tags w), (''params'', nw_params w),
                   (''upstreams'', nw_upstreams w), (''key_params'', nw_key_params w),
                   (''stream_settings'', nw_streams w)] a of
        Some v \<Rightarrow> Inr v
      | None \<Rightarrow>
          if starts_with a ''_'' then raises AttributeError (''No attribute '' @ a)
          else (case node_msg_attr (nw_proto w) a of
                  Inl _ \<Rightarrow> raises AttributeError (''No attribute '' @ a)
                | Inr v \<Rightarrow> Inr v))"

text \<open>
  The constructor of a query node definition runs the one of its base class first, so the
  arguments have to fit both messages.
\<close>

record query_wrapper =
  qw_base :: node_wrapper
  qw_query_tags :: pyval
  qw_interval :: pyval
  qw_period :: pyval
  qw_proto :: query_msg

definition new_query_node_definition ::
  "proto \<Rightarrow> heap \<Rightarrow> pyval \<Rightarrow> pyval \<Rightarrow> pyval \<Rightarrow> pyval \<Rightarrow> pyval \<Rightarrow> pyval \<Rightarrow> pyval \<Rightarrow> pyval \<Rightarrow> pyval
     \<Rightarrow> query_wrapper res" where
  "new_query_node_definition lib heap name query_tag_list tag_list params upstreams key_params streams iv period =
     bind_res (new_node_definition lib heap name tag_list params upstreams key_params streams) (\<lambda>w.
     bind_res (create_query_node_definition lib heap name query_tag_list tag_list params upstreams key_params
                 streams iv period) (\<lambda>m.
       Inr \<lparr>qw_base = w, qw_query_tags = query_tag_list, qw_interval = iv, qw_period = period, qw_proto = m\<rparr>))"

text \<open>A period in text form such as \<open>7d\<close> loses its \<open>d\<close>s and becomes a number when it can.\<close>

definition period_arg :: "pyval \<Rightarrow> pyval" where
  "period_arg v =
     (case v of
        PStr s \<Rightarrow> (case py_int (filter (\<lambda>c. c \<noteq> CHR ''d'') s) of Some i \<Rightarrow> PInt i | None \<Rightarrow> v)
      | _ \<Rightarrow> v)"

definition query_from_definition :: "proto \<Rightarrow> heap \<Rightarrow> (string, pyval) dict \<Rightarrow> query_wrapper res" where
  "query_from_definition lib heap data =
     new_query_node_definition lib heap (dict_get data ''name'') (dict_get_or data ''query_tags'' (PList []))
       (dict_get_or data ''tags'' (PList [])) (dict_get_or data ''params'' (PDict []))
       (dict_get_or data ''upstreams'' (PList [])) (dict_get_or data ''key_params'' (PList []))
       (dict_get_or data ''stream_settings'' (PDict [])) (dict_get data ''interval'')
       (period_arg (dict_get data ''period''))"

record pipeline_wrapper =
  pw_name :: pyval
  pw_proto :: pipeline_msg



definition wrapped_nodes :: "pipeline_wrapper \<Rightarrow> node_msg list" where
  "wrapped_nodes w = pm_nodes (pw_proto w)"

definition wrapped_query_nodes :: "pipeline_wrapper \<Rightarrow> query_msg list" where
  "wrapped_query_nodes w = pm_query_nodes (pw_proto w)"

definition wrapped_metadata :: "pipeline_wrapper \<Rightarrow> (string, string) dict" where
  "wrapped_metadata w = pm_metadata (pw_proto w)"

text \<open>
  The constructor of an analyzer definition first sets \<open>analyzer_type\<close>, whose setter finds no
  message yet and keeps the value aside, then builds the message.
\<close>

record analyzer_attrs =
  aa_name :: pyval
  aa_type :: pyval
  aa_tags :: pyval

definition new_analyzer_definition :: "pyval \<Rightarrow> pyval \<Rightarrow> pyval \<Rightarrow> (analyzer_attrs, exn, unit) outcome" where
  "new_analyzer_definition name analyzer_type tag_list =
     (\<lparr>aa_name = name, aa_type = analyzer_type, aa_tags = or_default tag_list (PList [PStr ''ANALYZER''])\<rparr>,
      create_analyzer_definition)"

definition analyzer_from_definition :: "(string, pyval) dict \<Rightarrow> (analyzer_attrs, exn, unit) outcome" where
  "analyzer_from_definition data =
     new_analyzer_definition (dict_get data ''name'') (dict_get_or data ''analyzer_type'' (PStr ''custom''))
       (dict_get_or data ''tags'' (PList [PStr ''ANALYZER'']))"

record selector_wrapper =
  sw_mode :: pyval
  sw_batch :: pyval
  sw_sample :: pyval
  sw_meta :: pyval
  sw_proto :: selector_msg

definition new_result_selector :: "proto \<Rightarrow> pyval \<Rightarrow> pyval \<Rightarrow> pyval \<Rightarrow> pyval \<Rightarrow> selector_wrapper res" where
  "new_result_selector lib mode batch_size sample_size filter_meta =
     bind_res (create_query_node_result_selector lib mode batch_size sample_size filter_meta) (\<lambda>m.
       Inr \<lparr>sw_mode = mode, sw_batch = batch_size, sw_sample = sample_size,
            sw_meta = or_default filter_meta (PDict []), sw_proto = m\<rparr>)"

section \<open>Which definitions can be built\<close>

lemma py_truthy_list [simp]: "py_truthy (PList xs) = (xs \<noteq> [])" "py_truthy (PDict d) = (d \<noteq> [])"
  by simp_all

lemma map_res_strings: "proto_ok lib \<Longrightarrow> map_res (set_string lib) (map PStr ts) = Inr ts"
  by (induction ts) (simp_all add: proto_ok_def)

lemma extend_strings:
  assumes "proto_ok lib"
  shows "extend_field lib flds f (PList (map PStr ts)) =
    (if ts = [] then Inr [] else if f \<in> set flds then Inr ts else raises AttributeError f)"
  using map_res_strings [OF assms, of ts] by (simp add: extend_field_def attr_in_def)

lemma map_res_pairs: "map_res (\<lambda>(k, x). Inr (k, g x)) d = Inr (map (\<lambda>(k, x). (k, g x)) d)"
  by (induction d) auto

lemma put_strings_dict:
  "put_strings lib flds f (PDict d) =
    (if d = [] then Inr [] else if f \<in> set flds then Inr (map (\<lambda>(k, x). (k, text_of lib x)) d)
     else raises AttributeError f)"
proof (cases "f \<in> set flds")
  case True
  then show ?thesis
    using map_res_pairs [of "text_of lib" d] by (simp add: put_strings_def items_of_def attr_in_def)
next
  case False
  then show ?thesis by (cases d) (auto simp: put_strings_def items_of_def attr_in_def)
qed

lemma put_stream_fails: "f = ''stream_settings'' \<Longrightarrow> f \<notin> set flds \<Longrightarrow> \<exists>e. put_stream lib heap flds x = Inl e"
  unfolding put_stream_def attr_in_def
  by (cases "intervals_arg heap (snd x)"; cases "create_node_stream_settings lib (projr (intervals_arg heap (snd x)))")
    auto

lemma put_streams_fails:
  assumes "''stream_settings'' \<notin> set flds" "py_truthy v"
  shows "\<exists>e. put_streams lib heap flds v = Inl e"
proof (cases "items_of v")
  case (Inl e)
  then show ?thesis using assms by (simp add: put_streams_def)
next
  case (Inr d)
  then have "v = PDict d" by (cases v) (auto simp: items_of_def)
  with assms(2) obtain x xs where "d = x # xs" by (cases d) auto
  moreover obtain e where "put_stream lib heap flds x = Inl e"
    using put_stream_fails [OF refl assms(1)] by blast
  ultimately show ?thesis using assms Inr by (simp add: put_streams_def)
qed

lemma put_streams_Nil [simp]: "put_streams lib heap flds (PDict []) = Inr ()"
  by (simp add: put_streams_def)

lemma schema_simps [simp]:
  "''tags'' \<in> set node_fields" "''params'' \<in> set node_fields" "''upstreams'' \<in> set node_fields"
  "''key_params'' \<notin> set node_fields" "''stream_settings'' \<notin> set node_fields"
  "''tags'' \<in> set query_fields" "''params'' \<notin> set query_fields" "''upstreams'' \<in> set query_fields"
  "''key_params'' \<in> set query_fields" "''stream_settings'' \<notin> set query_fields"
  by (simp_all add: node_fields_def query_fields_def)

lemma field_arg_string: "proto_ok lib \<Longrightarrow> field_arg d (set_string lib) (PStr s) = Inr s"
  by (simp add: field_arg_def proto_ok_def)

lemma node_definition_value:
  assumes "proto_ok lib"
  shows "create_node_definition lib heap (PStr name) (PList (map PStr ts)) (PDict ps) (PList (map PStr us))
      (PList (map PStr ks)) (PDict ss) =
    (if ks \<noteq> [] then raises AttributeError ''key_params''
     else bind_res (put_streams lib heap node_fields (PDict ss)) (\<lambda>_.
       Inr \<lparr>nm_name = name, nm_tags = ts, nm_params = map (\<lambda>(k, x). (k, text_of lib x)) ps, nm_upstreams = us\<rparr>))"
  using assms
  by (simp add: create_node_definition_def field_arg_string extend_strings put_strings_dict)

lemma query_definition_value:
  assumes "proto_ok lib"
  shows "create_query_node_definition lib heap (PStr name) (PList (map PStr qts)) (PList (map PStr ts)) (PDict ps)
      (PList (map PStr us)) (PList (map PStr ks)) (PDict ss) (PStr iv) (PInt n) =
    (if ps \<noteq> [] then raises AttributeError ''params''
     else bind_res (put_streams lib heap query_fields (PDict ss)) (\<lambda>_.
       bind_res (set_int32 lib (PInt n)) (\<lambda>p.
       Inr \<lparr>qm_name = name, qm_tags = ts, qm_upstreams = us, qm_key_params = ks, qm_query_tags = qts,
            qm_interval = Some iv, qm_period = Some p\<rparr>)))"
  using assms map_res_strings [OF assms, of qts]
  by (simp add: create_query_node_definition_def field_arg_string extend_strings put_strings_dict opt_field_def
      proto_ok_def)

lemma definitions_build:
  assumes "proto_ok lib"
  shows "new_node_definition lib heap (PStr name) (PList (map PStr ts)) (PDict ps) (PList (map PStr us))
      (PList (map PStr ks)) (PDict ss) =
      Inr \<lparr>nw_name = PStr name, nw_tags = PList (map PStr ts), nw_params = PDict ps,
           nw_upstreams = PList (map PStr us), nw_key_params = PList [], nw_streams = PDict [],
           nw_proto = \<lparr>nm_name = name, nm_tags = ts, nm_params = map (\<lambda>(k, x). (k, text_of lib x)) ps,
                       nm_upstreams = us\<rparr>\<rparr> \<longleftrightarrow> ks = [] \<and> ss = []"
    and "is_ok (new_node_definition lib heap (PStr name) (PList (map PStr ts)) (PDict ps) (PList (map PStr us))
      (PList (map PStr ks)) (PDict ss)) \<longleftrightarrow> ks = [] \<and> ss = []"
    and "is_ok (new_query_node_definition lib heap (PStr name) (PList (map PStr qts)) (PList (map PStr ts)) (PDict ps)
      (PList (map PStr us)) (PList (map PStr ks)) (PDict ss) (PStr iv) (PInt n)) \<longleftrightarrow>
      ps = [] \<and> ks = [] \<and> ss = [] \<and> in_int32 n"
proof -
  let ?m = "create_node_definition lib heap (PStr name) (PList (map PStr ts)) (PDict ps) (PList (map PStr us))
      (PList (map PStr ks)) (PDict ss)"
  let ?q = "create_query_node_definition lib heap (PStr name) (PList (map PStr qts)) (PList (map PStr ts)) (PDict ps)
      (PList (map PStr us)) (PList (map PStr ks)) (PDict ss) (PStr iv) (PInt n)"
  have fails: "\<exists>e. put_streams lib heap flds (PDict ss) = Inl e"
    if "ss \<noteq> []" "''stream_settings'' \<notin> set flds" for flds
    using put_streams_fails [of flds "PDict ss"] that by simp
  have m: "is_ok ?m \<longleftrightarrow> ks = [] \<and> ss = []"
    using node_definition_value [OF assms] fails [of node_fields] by (cases "ss = []") auto
  then show ok: "is_ok (new_node_definition lib heap (PStr name) (PList (map PStr ts)) (PDict ps) (PList (map PStr us))
      (PList (map PStr ks)) (PDict ss)) \<longleftrightarrow> ks = [] \<and> ss = []"
    by (cases ?m) (simp_all add: new_node_definition_def)
  show "new_node_definition lib heap (PStr name) (PList (map PStr ts)) (PDict ps) (PList (map PStr us))
      (PList (map PStr ks)) (PDict ss) =
      Inr \<lparr>nw_name = PStr name, nw_tags = PList (map PStr ts), nw_params = PDict ps,
           nw_upstreams = PList (map PStr us), nw_key_params = PList [], nw_streams = PDict [],
           nw_proto = \<lparr>nm_name = name, nm_tags = ts, nm_params = map (\<lambda>(k, x). (k, text_of lib x)) ps,
                       nm_upstreams = us\<rparr>\<rparr> \<longleftrightarrow> ks = [] \<and> ss = []" (is "?l = Inr ?r \<longleftrightarrow> _")
  proof
    assume "?l = Inr ?r"
    then have "is_ok ?l" by simp
    with ok show "ks = [] \<and> ss = []" by simp
  next
    assume "ks = [] \<and> ss = []"
    then show "?l = Inr ?r"
      using node_definition_value [OF assms, of heap name ts ps us "[]" "[]"]
      by (auto simp: new_node_definition_def or_default_def)
  qed
  have range: "is_ok (set_int32 lib (PInt n)) \<longleftrightarrow> in_int32 n"
    using assms by (simp add: proto_ok_def)
  have q: "is_ok ?q \<longleftrightarrow> ps = [] \<and> ss = [] \<and> in_int32 n"
  proof (cases "ps = [] \<and> ss = []")
    case True
    then show ?thesis
      using query_definition_value [OF assms, of heap name qts ts "[]" us ks "[]"] range
      by (cases "set_int32 lib (PInt n)") auto
  next
    case False
    then show ?thesis
      using query_definition_value [OF assms, of heap name qts ts ps us ks ss] fails [of query_fields]
      by (cases "ps = []") auto
  qed
  obtain c where c: "new_node_definition lib heap (PStr name) (PList (map PStr ts)) (PDict ps) (PList (map PStr us))
      (PList (map PStr ks)) (PDict ss) = c" by simp
  show "is_ok (new_query_node_definition lib heap (PStr name) (PList (map PStr qts)) (PList (map PStr ts)) (PDict ps)
      (PList (map PStr us)) (PList (map PStr ks)) (PDict ss) (PStr iv) (PInt n)) \<longleftrightarrow>
      ps = [] \<and> ks = [] \<and> ss = [] \<and> in_int32 n"
    using ok q unfolding new_query_node_definition_def c by (cases c; cases ?q) auto
qed

text \<open>
  Which definitions can be built. A node definition keeps its name, tags, parameters (as
  text) and upstreams, and can be built exactly when it has neither key parameters nor stream
  settings, for which its message has no field. A query node definition can be built exactly when
  it has no parameters, key parameters or stream settings and its period fits into 32 bits: the
  base class rejects the key parameters its own message would take.
\<close>
theorem definitions_that_build:
  assumes "proto_ok lib"
  shows "(new_node_definition lib heap (PStr name) (PList (map PStr ts)) (PDict ps) (PList (map PStr us))
      (PList (map PStr ks)) (PDict ss) =
      Inr \<lparr>nw_name = PStr name, nw_tags = PList (map PStr ts), nw_params = PDict ps,
           nw_upstreams = PList (map PStr us), nw_key_params = PList [], nw_streams = PDict [],
           nw_proto = \<lparr>nm_name = name, nm_tags = ts, nm_params = map (\<lambda>(k, x). (k, text_of lib x)) ps,
                       nm_upstreams = us\<rparr>\<rparr> \<longleftrightarrow> ks = [] \<and> ss = [])
    \<and> (is_ok (new_node_definition lib heap (PStr name) (PList (map PStr ts)) (PDict ps) (PList (map PStr us))
      (PList (map PStr ks)) (PDict ss)) \<longleftrightarrow> ks = [] \<and> ss = [])
    \<and> (is_ok (new_query_node_definition lib heap (PStr name) (PList (map PStr qts)) (PList (map PStr ts)) (PDict ps)
      (PList (map PStr us)) (PList (map PStr ks)) (PDict ss) (PStr iv) (PInt n)) \<longleftrightarrow>
      ps = [] \<and> ks = [] \<and> ss = [] \<and> in_int32 n)"
  by (rule conjI [OF definitions_build(1) [OF assms] conjI [OF definitions_build(2) [OF assms]
        definitions_build(3) [OF assms]]])

text \<open>A runtime with the documented behaviour.\<close>

definition demo_proto :: proto where
  "demo_proto =
     \<lparr>set_string = (\<lambda>v. case v of PStr s \<Rightarrow> Inr s | _ \<Rightarrow> raises TypeError ''bad argument type''),
      set_int32 = (\<lambda>v. case v of
          PInt i \<Rightarrow> if in_int32 i then Inr i else raises ValueError ''Value out of range''
        | _ \<Rightarrow> raises TypeError ''bad argument type''),
      text_of = (\<lambda>v. case v of PStr s \<Rightarrow> s | PInt i \<Rightarrow> show_int i | PNone \<Rightarrow> ''None'' | _ \<Rightarrow> ''object'')\<rparr>"

lemma demo_proto_ok: "proto_ok demo_proto"
proof -
  have "(\<exists>s. v = PStr s) \<or> (\<exists>x. set_string demo_proto v = Inl x \<and> ex_class x = TypeError)" for v
    by (cases v) (simp_all add: demo_proto_def)
  then show ?thesis by (simp add: proto_ok_def demo_proto_def)
qed

theorem definitions_that_build_witness:
  "\<not> is_ok (new_node_definition demo_proto (\<lambda>_. OtherObject) (PStr ''ma'') (PList (map PStr [''FEATURE'']))
      (PDict [(''window'', PInt 5)]) (PList (map PStr [''price''])) (PList (map PStr [''window''])) (PDict []))"
  using definitions_that_build [OF demo_proto_ok, where ks = "[''window'']" and ss = "[]" and ts = "[''FEATURE'']"
      and us = "[''price'']", THEN conjunct2, THEN conjunct1] by simp

section \<open>Reading an exported pipeline\<close>



definition attribute_error :: "'a res \<Rightarrow> bool" where
  "attribute_error r \<longleftrightarrow> (\<exists>a. r = raises AttributeError a)"

lemma attribute_error_raises [simp]: "attribute_error (raises AttributeError a)"
  by (simp add: attribute_error_def)


lemma attribute_error_bind_ok: "r = Inr x \<Longrightarrow> attribute_error (f x) \<Longrightarrow> attribute_error (bind_res r f)"
  by simp









text \<open>The number of an interval in a message is not one of the keys of the table: it is read back as a minute.\<close>

lemma message_settings_lose_interval:
  assumes "proto_ok lib" "in_int32 (im_period m)" "im_max_history m = Some h" "in_int32 h"
  shows "settings_msg lib (msg_setting m) = Inr (m\<lparr>im_interval := MINUTE\<rparr>)"
  using assms by (simp add: msg_setting_def create_interval_settings_def proto_interval_def field_arg_def opt_field_def
      proto_ok_def)

lemma interval_settings_stored:
  assumes "proto_ok lib" "in_int32 p" "in_int32 h"
  shows "settings_msg lib (SettingObj \<lparr>obj_interval = PStr s, obj_period = PInt p, obj_max_history = PInt h\<rparr>) =
    Inr \<lparr>im_interval = (case interval_by_value s of None \<Rightarrow> MINUTE | Some i \<Rightarrow> i), im_period = p, im_max_history = Some h\<rparr>"
  using assms by (simp add: create_interval_settings_def proto_interval_def field_arg_def opt_field_def proto_ok_def
      split: option.split)

end
