(* ===== verification/Analyzers.thy ===== *)
theory Analyzers
  imports Pipeline
begin

text \<open>
  Analyzers: the SDK's \<open>Analyzer\<close>, a pipeline that answers its query nodes (\<open>sdk/analyzer.py\<close>),
  the in-memory \<open>AnalyzerService\<close> (\<open>dag_manager/analyzer.py\<close>) with its models
  (\<open>models/analyzer.py\<close>), and the decorators that mark a function as a node
  (\<open>models/decorators.py\<close>).

  The clock is a sequence of readings, one per result; \<open>uuid4\<close> is an argument of the registration,
  and the SHA-256 function, \<open>inspect.getsource\<close> and \<open>str(v)\<close> of a value are parameters.
\<close>

section \<open>The analyzer of the SDK\<close>

record analyzer_result =
  ar_analyzer :: string
  ar_result :: "(string, pyval) dict"
  ar_time :: int
  ar_status :: string
  ar_error :: "string option"

record analyzer =
  an_pipeline :: pipeline
  an_tags :: "pyval list"
  an_results :: "analyzer_result list"

text \<open>\<open>kwargs.setdefault("analyzer_type", "custom")\<close>; \<open>default_intervals\<close> is the argument of that name.\<close>

definition with_analyzer_type :: "(string, pyval) dict \<Rightarrow> (string, pyval) dict" where
  "with_analyzer_type kwargs =
     (if has_key kwargs ''analyzer_type'' then kwargs
      else AList.update ''analyzer_type'' (PStr ''custom'') kwargs)"

definition new_analyzer :: "string \<Rightarrow> intervals option \<Rightarrow> (string, pyval) dict \<Rightarrow> analyzer res" where
  "new_analyzer name defaults kwargs =
     bind_res (case map_of kwargs ''tags'' of None \<Rightarrow> Inr [] | Some v \<Rightarrow> elements v) (\<lambda>ts.
       Inr \<lparr>an_pipeline = new_pipeline name defaults (with_analyzer_type kwargs),
            an_tags = PStr ''ANALYZER'' # ts, an_results = []\<rparr>)"

definition success_result :: "string \<Rightarrow> string \<Rightarrow> string \<Rightarrow> pyval \<Rightarrow> int \<Rightarrow> analyzer_result" where
  "success_result analyzer q n v t =
     \<lparr>ar_analyzer = analyzer,
      ar_result = [(''query_node'', PStr q), (''node'', PStr n), (''value'', v)],
      ar_time = t, ar_status = ''SUCCESS'', ar_error = None\<rparr>"

definition failure_result :: "string \<Rightarrow> string \<Rightarrow> string \<Rightarrow> string \<Rightarrow> int \<Rightarrow> analyzer_result" where
  "failure_result analyzer q n msg t =
     \<lparr>ar_analyzer = analyzer,
      ar_result = [(''query_node'', PStr q), (''node'', PStr n), (''error'', PStr msg)],
      ar_time = t, ar_status = ''FAIL'', ar_error = Some msg\<rparr>"

text \<open>
  The loop over the matched nodes: the answers to the query node so far and all results so far,
  whose number is also the number of clock readings.
\<close>

fun analyze_nodes ::
  "(nat \<Rightarrow> int) \<Rightarrow> string \<Rightarrow> string \<Rightarrow> (string, pyval) dict \<Rightarrow> sdk_node list
     \<Rightarrow> (string, pyval) dict \<times> analyzer_result list \<Rightarrow> ((string, pyval) dict \<times> analyzer_result list) res" where
  "analyze_nodes stamps an q inputs [] s = Inr s"
| "analyze_nodes stamps an q inputs (n # ns) (d, rs) =
     (case execute_node n inputs of
        Inr v \<Rightarrow>
          analyze_nodes stamps an q inputs ns
            (AList.update (sdk_name n) v d, rs @ [success_result an q (sdk_name n) v (stamps (length rs))])
      | Inl e \<Rightarrow>
          if caught e then
            analyze_nodes stamps an q inputs ns
              (AList.update (sdk_name n) (PStr (''ERROR: '' @ ex_msg e)) d,
               rs @ [failure_result an q (sdk_name n) (ex_msg e) (stamps (length rs))])
          else Inl e)"

fun analyze_queries ::
  "(nat \<Rightarrow> int) \<Rightarrow> (nat \<Rightarrow> sdk_node list \<Rightarrow> sdk_node list) \<Rightarrow> pipeline \<Rightarrow> (string, selector list) dict option
     \<Rightarrow> (string, pyval) dict \<Rightarrow> query_node list \<Rightarrow> (string, pyval) dict \<times> analyzer_result list
     \<Rightarrow> ((string, pyval) dict \<times> analyzer_result list) res" where
  "analyze_queries stamps sample p sels inputs [] s = Inr s"
| "analyze_queries stamps sample p sels inputs (q # qs) (out, rs) =
     bind_res (apply_selectors sample (find_nodes_by_query p q) (selectors_for sels q)) (\<lambda>ns.
     bind_res (analyze_nodes stamps (pl_name p) (q_name q) inputs ns ([], rs)) (\<lambda>(d, rs').
       analyze_queries stamps sample p sels inputs qs (AList.update (q_name q) (PDict d) out, rs')))"

text \<open>
  \<open>Analyzer.execute\<close>. Without query nodes, or not \<open>local\<close>, it runs as a pipeline, but hands on
  neither its \<open>inputs\<close> nor its \<open>selectors\<close>.
\<close>

definition analyzer_execute ::
  "nat \<Rightarrow> (string list \<Rightarrow> string list) \<Rightarrow> (nat \<Rightarrow> sdk_node list \<Rightarrow> sdk_node list) \<Rightarrow> clock \<Rightarrow> (nat \<Rightarrow> int)
     \<Rightarrow> bool \<Rightarrow> run_options \<Rightarrow> analyzer \<times> engine \<Rightarrow> (analyzer \<times> engine, exn, (string, pyval) dict) outcome" where
  "analyzer_execute k ord sample clock stamps is_local opts ae =
     (case ae of (a, s) \<Rightarrow>
        let p = an_pipeline a in
        if pl_query p \<noteq> [] \<and> is_local then
          (case analyze_queries stamps sample p (opt_selectors opts)
                  (case opt_inputs opts of None \<Rightarrow> [] | Some d \<Rightarrow> d) (map snd (pl_query p)) ([], []) of
             Inl e \<Rightarrow> ((a, s), Inl e)
           | Inr (out, rs) \<Rightarrow> ((a\<lparr>an_pipeline := p\<lparr>pl_cache := out\<rparr>, an_results := rs\<rparr>, s), Inr out))
        else
          (case run_pipeline k ord sample clock (opts\<lparr>opt_inputs := None, opt_selectors := None\<rparr>) (p, s) of
             ((p', s'), r) \<Rightarrow> ((a\<lparr>an_pipeline := p'\<rparr>, s'), r)))"

definition analyzer_to_definition :: "(intervals \<Rightarrow> pyval) \<Rightarrow> analyzer \<Rightarrow> pyval" where
  "analyzer_to_definition to_proto a =
     (case pipeline_to_definition to_proto (an_pipeline a) of
        PDict d \<Rightarrow> PDict (AList.update ''tags'' (PList (an_tags a)) (AList.update ''type'' (PStr ''analyzer'') d))
      | v \<Rightarrow> v)"

section \<open>AnalyzerService\<close>

text \<open>
  The service keeps its objects in class variables. A caller that holds a metadata object sees the
  changes made through the service, since it is the same object: here, the entry of its id.
\<close>

record analyzer_spec =
  as_name :: string
  as_description :: "string option"
  as_tags :: "string list"
  as_params :: "(string, string) dict"

definition analyzer_spec_of ::
  "string \<Rightarrow> string option \<Rightarrow> string list option \<Rightarrow> (string, string) dict option \<Rightarrow> analyzer_spec" where
  "analyzer_spec_of name description tag_list params =
     \<lparr>as_name = name, as_description = description,
      as_tags = (case tag_list of None \<Rightarrow> [] | Some ts \<Rightarrow> ts),
      as_params = (case params of None \<Rightarrow> [] | Some d \<Rightarrow> d)\<rparr>"

record analyzer_meta =
  am_id :: string
  am_spec :: analyzer_spec
  am_created :: int
  am_status :: string

record analyzer_service =
  sv_analyzers :: "(string, analyzer_meta) dict"
  sv_results :: "(string, analyzer_result) dict"

definition empty_service :: analyzer_service where
  "empty_service = \<lparr>sv_analyzers = [], sv_results = []\<rparr>"

definition register_analyzer ::
  "string \<Rightarrow> int \<Rightarrow> analyzer_spec \<Rightarrow> analyzer_service \<Rightarrow> analyzer_service \<times> analyzer_meta" where
  "register_analyzer uuid now spec s =
     (let m = \<lparr>am_id = uuid, am_spec = spec, am_created = now, am_status = ''REGISTERED''\<rparr> in
      (s\<lparr>sv_analyzers := AList.update uuid m (sv_analyzers s)\<rparr>, m))"

definition get_analyzer :: "analyzer_service \<Rightarrow> string \<Rightarrow> analyzer_meta option" where
  "get_analyzer s i = map_of (sv_analyzers s) i"

definition activate_analyzer ::
  "int \<Rightarrow> string \<Rightarrow> analyzer_service \<Rightarrow> (analyzer_service, exn, analyzer_meta) outcome" where
  "activate_analyzer now i s =
     (case map_of (sv_analyzers s) i of
        None \<Rightarrow> (s, raises ValueError ''Analyzer not found'')
      | Some m \<Rightarrow>
          (let m' = m\<lparr>am_status := ''ACTIVE''\<rparr>;
               r = \<lparr>ar_analyzer = i, ar_result = [(''message'', PStr ''Dummy analysis result'')], ar_time = now,
                    ar_status = ''SUCCESS'', ar_error = None\<rparr>
           in (s\<lparr>sv_analyzers := AList.update i m' (sv_analyzers s), sv_results := AList.update i r (sv_results s)\<rparr>,
               Inr m')))"

definition get_results :: "analyzer_service \<Rightarrow> string \<Rightarrow> analyzer_result option" where
  "get_results s i = map_of (sv_results s) i"

section \<open>Functions marked as nodes\<close>

record node_fn =
  nf_source :: "string option"
  nf_name :: string
  nf_type :: string
  nf_key_params :: "string list"
  nf_tags :: "string list"

text \<open>The decorators \<open>node\<close> and \<open>signal\<close>, which differ in the type they write.\<close>

definition mark :: "string \<Rightarrow> string list option \<Rightarrow> string list option \<Rightarrow> string option \<Rightarrow> string \<Rightarrow> node_fn" where
  "mark type key_params tag_list source name =
     \<lparr>nf_source = source, nf_name = name, nf_type = type,
      nf_key_params = (case key_params of None \<Rightarrow> [] | Some ks \<Rightarrow> ks),
      nf_tags = (case tag_list of None \<Rightarrow> [] | Some ts \<Rightarrow> ts)\<rparr>"

definition node_decorator :: "string list option \<Rightarrow> string list option \<Rightarrow> string option \<Rightarrow> string \<Rightarrow> node_fn" where
  "node_decorator = mark ''NODE''"

definition signal_decorator :: "string list option \<Rightarrow> string list option \<Rightarrow> string option \<Rightarrow> string \<Rightarrow> node_fn" where
  "signal_decorator = mark ''SIGNAL''"

definition function_source :: "node_fn \<Rightarrow> string" where
  "function_source f = (case nf_source f of Some src \<Rightarrow> src | None \<Rightarrow> nf_name f)"

definition param_text :: "(pyval \<Rightarrow> string) \<Rightarrow> (string, pyval) dict \<Rightarrow> string \<Rightarrow> string" where
  "param_text str params k =
     k @ ''='' @ str (case map_of params k of None \<Rightarrow> PNone | Some v \<Rightarrow> v)"

definition id_base :: "(pyval \<Rightarrow> string) \<Rightarrow> node_fn \<Rightarrow> (string, pyval) dict \<Rightarrow> string" where
  "id_base str f params =
     function_source f @ ''|'' @ join ''|'' (map (param_text str params) (nf_key_params f)) @ ''|'' @ nf_type f
       @ ''|'' @ join '','' (nf_tags f)"

definition make_node_id ::
  "(string \<Rightarrow> string) \<Rightarrow> (pyval \<Rightarrow> string) \<Rightarrow> node_fn \<Rightarrow> (string, pyval) dict \<Rightarrow> string" where
  "make_node_id sha256 str f params = take 32 (sha256 (id_base str f params))"

section \<open>What an analyzer answers\<close>

text \<open>The answer for one node, and the result recorded for it.\<close>

definition answer :: "(string, pyval) dict \<Rightarrow> sdk_node \<Rightarrow> pyval" where
  "answer inputs n = (case execute_node n inputs of Inr v \<Rightarrow> v | Inl e \<Rightarrow> PStr (''ERROR: '' @ ex_msg e))"

definition report :: "string \<Rightarrow> (string, pyval) dict \<Rightarrow> int \<Rightarrow> query_node \<times> sdk_node \<Rightarrow> analyzer_result" where
  "report an inputs t w =
     (case w of (q, n) \<Rightarrow>
        (case execute_node n inputs of
           Inr v \<Rightarrow> success_result an (q_name q) (sdk_name n) v t
         | Inl e \<Rightarrow> failure_result an (q_name q) (sdk_name n) (ex_msg e) t))"

definition reports ::
  "(nat \<Rightarrow> int) \<Rightarrow> string \<Rightarrow> (string, pyval) dict \<Rightarrow> nat \<Rightarrow> (query_node \<times> sdk_node) list \<Rightarrow> analyzer_result list" where
  "reports stamps an inputs i ws = map (\<lambda>(j, w). report an inputs (stamps j) w) (enumerate i ws)"

lemma reports_append:
  "reports stamps an inputs i (vs @ ws) =
     reports stamps an inputs i vs @ reports stamps an inputs (i + length vs) ws"
  by (simp add: reports_def enumerate_append_eq)

lemma length_reports [simp]: "length (reports stamps an inputs i ws) = length ws"
  by (simp add: reports_def)

definition answers :: "(string, pyval) dict \<Rightarrow> sdk_node list \<Rightarrow> (string, pyval) dict \<Rightarrow> (string, pyval) dict" where
  "answers inputs = fold (\<lambda>n. AList.update (sdk_name n) (answer inputs n))"

definition contained :: "(string, pyval) dict \<Rightarrow> sdk_node list \<Rightarrow> bool" where
  "contained inputs ns \<longleftrightarrow> (\<forall>n \<in> set ns. \<forall>e. execute_node n inputs = Inl e \<longrightarrow> caught e)"

lemma analyze_nodes_ok:
  "contained inputs ns \<Longrightarrow>
    analyze_nodes stamps an (q_name q) inputs ns (d, rs) =
      Inr (answers inputs ns d, rs @ reports stamps an inputs (length rs) (map (Pair q) ns))"
proof (induction ns arbitrary: d rs)
  case Nil
  then show ?case by (simp add: answers_def reports_def)
next
  case (Cons n ns)
  then have rest: "contained inputs ns" by (simp add: contained_def)
  show ?case
  proof (cases "execute_node n inputs")
    case (Inl e)
    then have "caught e" using Cons.prems by (simp add: contained_def)
    with Inl show ?thesis
      by (simp add: Cons.IH [OF rest] answers_def answer_def reports_def report_def)
  next
    case (Inr v)
    then show ?thesis
      by (simp add: Cons.IH [OF rest] answers_def answer_def reports_def report_def)
  qed
qed

definition work :: "(query_node \<Rightarrow> sdk_node list) \<Rightarrow> query_node list \<Rightarrow> (query_node \<times> sdk_node) list" where
  "work sel qs = concat (map (\<lambda>q. map (Pair q) (sel q)) qs)"

definition all_answers ::
  "(string, pyval) dict \<Rightarrow> (query_node \<Rightarrow> sdk_node list) \<Rightarrow> query_node list \<Rightarrow> (string, pyval) dict \<Rightarrow> (string, pyval) dict" where
  "all_answers inputs sel = fold (\<lambda>q. AList.update (q_name q) (PDict (answers inputs (sel q) [])))"

lemma analyze_queries_ok:
  assumes "\<forall>q \<in> set qs. apply_selectors sample (find_nodes_by_query p q) (selectors_for sels q) = Inr (sel q)
      \<and> contained inputs (sel q)"
  shows "analyze_queries stamps sample p sels inputs qs (out, rs) =
    Inr (all_answers inputs sel qs out, rs @ reports stamps (pl_name p) inputs (length rs) (work sel qs))"
  using assms
proof (induction qs arbitrary: out rs)
  case Nil
  then show ?case by (simp add: all_answers_def work_def reports_def)
next
  case (Cons q qs)
  then have "contained inputs (sel q)" by simp
  from analyze_nodes_ok [OF this, of stamps "pl_name p" q "[]" rs] Cons show ?case
    by (simp add: all_answers_def work_def reports_append)
qed

lemma map_of_fold_keyed:
  assumes "\<And>x y. \<lbrakk>x \<in> set xs; y \<in> set xs; key x = key y\<rbrakk> \<Longrightarrow> val x = val y" "x \<in> set xs"
  shows "map_of (fold (\<lambda>x. AList.update (key x) (val x)) xs d) (key x) = Some (val x)"
proof -
  have other: "map_of (fold (\<lambda>x. AList.update (key x) (val x)) ys e) k = map_of e k"
    if "k \<notin> key ` set ys" for ys e k
    using that by (induction ys arbitrary: e) auto
  show ?thesis using assms
  proof (induction xs arbitrary: d x)
    case Nil
    then show ?case by simp
  next
    case (Cons y ys)
    let ?e = "AList.update (key y) (val y) d"
    show ?case
    proof (cases "key x \<in> key ` set ys")
      case True
      then obtain z where z: "z \<in> set ys" "key x = key z" by blast
      then have "val z = val x" using Cons.prems(1) [of z x] Cons.prems(2) by simp
      moreover have "map_of (fold (\<lambda>x. AList.update (key x) (val x)) ys ?e) (key z) = Some (val z)"
        by (rule Cons.IH) (use Cons.prems(1) z(1) in auto)
      ultimately show ?thesis by (simp add: z(2))
    next
      case False
      then have "x = y" using Cons.prems(2) by auto
      with other [OF False, of ?e] show ?thesis by simp
    qed
  qed
qed

lemma answer_without_upstream:
  assumes "sdk_kind n = Processing" "u \<in> set (sdk_upstreams n)" "\<not> has_key inputs u"
  shows "\<exists>m. answer inputs n = PStr (''ERROR: '' @ m)"
proof -
  have "validate_upstreams (sdk_name n) (sdk_upstreams n) inputs \<noteq> Inr ()"
    using assms(2,3) by (auto simp: validate_upstreams_ok)
  then obtain e where "validate_upstreams (sdk_name n) (sdk_upstreams n) inputs = Inl e"
    by (cases "validate_upstreams (sdk_name n) (sdk_upstreams n) inputs") auto
  then show ?thesis using assms(1) by (simp add: answer_def execute_node_def execute_processing_def)
qed

text \<open>In a dict whose keys are the names of its values a name belongs to one value.\<close>

lemma named_unique:
  assumes "dict_ok d" "\<forall>(k, x) \<in> set d. name x = k"
  shows "inj_on name (snd ` set d)"
proof (rule inj_on_inverseI)
  fix z assume "z \<in> snd ` set d"
  then obtain k where k: "(k, z) \<in> set d" by auto
  then have "name z = k" using bspec [OF assms(2) k] by simp
  with k have "map_of d (name z) = Some z" using assms(1) by (simp add: map_of_in_set)
  then show "(the \<circ> map_of d) (name z) = z" by simp
qed

lemma selected_nodes:
  assumes "\<forall>k xs. set (sample k xs) \<subseteq> set xs"
    and "apply_selectors sample (find_nodes_by_query p q) sels = Inr ns"
  shows "set ns \<subseteq> snd ` set (pl_nodes p)"
  using mp [OF spec [OF conjunct1 [OF selectors_narrow [OF assms(1)]]] assms(2)]
  by (auto simp: find_nodes_by_query_def)

lemma keyed_answers:
  assumes "inj_on sdk_name (set ns)" "n \<in> set ns"
  shows "map_of (answers inputs ns d) (sdk_name n) = Some (answer inputs n)"
  unfolding answers_def
  by (rule map_of_fold_keyed [OF _ assms(2)]) (use inj_onD [OF assms(1)] in blast)

lemma keyed_queries:
  assumes "inj_on q_name (set qs)" "q \<in> set qs"
  shows "map_of (all_answers inputs sel qs d) (q_name q) = Some (PDict (answers inputs (sel q) []))"
  unfolding all_answers_def
  by (rule map_of_fold_keyed [OF _ assms(2)]) (use inj_onD [OF assms(1)] in blast)

text \<open>
  C13: a local run of an analyzer with query nodes never fails because of a node. Every query
  node is answered under its name, every selected node of it has its value or the text of its
  error there, one result is recorded for each of them in the order they were run, and the
  answers become the cache of the pipeline. The answers only come from the inputs of the run: a
  processing node with an upstream that is not among them is answered with an error, even if that
  upstream is a node that was just run.
\<close>
theorem analyzer_contains_failures:
  assumes ok: "pipeline_ok p" "an_pipeline a = p" "pl_query p \<noteq> []"
    and names: "\<forall>(k, q) \<in> set (pl_query p). q_name q = k"
    and sample: "\<forall>k xs. set (sample k xs) \<subseteq> set xs"
    and sel: "\<forall>(k, q) \<in> set (pl_query p).
      apply_selectors sample (find_nodes_by_query p q) (selectors_for (opt_selectors opts) q) = Inr (sel q)"
    and safe: "\<forall>(k, n) \<in> set (pl_nodes p). \<forall>e. execute_node n inputs = Inl e \<longrightarrow> caught e"
    and inputs: "opt_inputs opts = Some inputs"
  shows "\<exists>out. analyzer_execute k ord sample clock stamps True opts (a, s) =
      ((a\<lparr>an_pipeline := p\<lparr>pl_cache := out\<rparr>,
          an_results := reports stamps (pl_name p) inputs 0 (work sel (map snd (pl_query p)))\<rparr>, s), Inr out)
    \<and> (\<forall>(k, q) \<in> set (pl_query p). \<exists>d. map_of out k = Some (PDict d)
        \<and> (\<forall>n \<in> set (sel q). map_of d (sdk_name n) = Some (answer inputs n)))
    \<and> (\<forall>n u. sdk_kind n = Processing \<and> u \<in> set (sdk_upstreams n) \<and> \<not> has_key inputs u \<longrightarrow>
        (\<exists>m. answer inputs n = PStr (''ERROR: '' @ m)))"
proof -
  let ?qs = "map snd (pl_query p)" and ?out = "all_answers inputs sel (map snd (pl_query p)) []"
  have selq: "apply_selectors sample (find_nodes_by_query p q) (selectors_for (opt_selectors opts) q) = Inr (sel q)"
    if "q \<in> set ?qs" for q using sel that by auto
  have sub: "set (sel q) \<subseteq> snd ` set (pl_nodes p)" if "q \<in> set ?qs" for q
    by (rule selected_nodes [OF sample selq [OF that]])
  have "contained inputs (sel q)" if "q \<in> set ?qs" for q
    using sub [OF that] safe unfolding contained_def by fastforce
  with selq have "\<forall>q \<in> set ?qs. apply_selectors sample (find_nodes_by_query p q)
      (selectors_for (opt_selectors opts) q) = Inr (sel q) \<and> contained inputs (sel q)" by blast
  from analyze_queries_ok [OF this, of stamps "[]" "[]"] have run:
    "analyzer_execute k ord sample clock stamps True opts (a, s) =
      ((a\<lparr>an_pipeline := p\<lparr>pl_cache := ?out\<rparr>,
          an_results := reports stamps (pl_name p) inputs 0 (work sel ?qs)\<rparr>, s), Inr ?out)"
    using ok(2,3) inputs by (simp add: analyzer_execute_def)
  have d: "dict_ok (pl_nodes p)" "names_ok (pl_nodes p)" "dict_ok (pl_query p)" using ok(1) by (simp_all add: pipeline_ok_def)
  have node_names: "\<forall>(k, n) \<in> set (pl_nodes p). sdk_name n = k"
    using d(1,2) by (auto simp: names_ok_def map_of_in_set)
  have one_query: "inj_on q_name (set ?qs)" using named_unique [OF d(3) names] by simp
  have "\<exists>d. map_of ?out k = Some (PDict d) \<and> (\<forall>n \<in> set (sel q). map_of d (sdk_name n) = Some (answer inputs n))"
    if kq: "(k, q) \<in> set (pl_query p)" for k q
  proof (intro exI conjI ballI)
    have q: "q \<in> set ?qs" "q_name q = k"
      using image_eqI [of q snd "(k, q)"] kq bspec [OF names kq] by simp_all
    have "map_of ?out (q_name q) = Some (PDict (answers inputs (sel q) []))"
      by (rule keyed_queries [OF one_query q(1)])
    then show "map_of ?out k = Some (PDict (answers inputs (sel q) []))" by (simp only: q(2))
    fix n assume n: "n \<in> set (sel q)"
    show "map_of (answers inputs (sel q) []) (sdk_name n) = Some (answer inputs n)"
      by (rule keyed_answers [OF inj_on_subset [OF named_unique [OF d(1) node_names] sub [OF q(1)]] n])
  qed
  with run answer_without_upstream show ?thesis by blast
qed

text \<open>The demo pipeline with a query for the nodes of its tag; \<open>sum\<close> has upstreams, so it is answered with an error.\<close>

definition everything_query :: query_node where
  "everything_query = \<lparr>q_name = ''all'', q_tags = [], q_interval = None, q_period = PNone,
     q_settings = Some [(''1d'', day_setting)], q_selectors = []\<rparr>"

definition demo_analyzer :: analyzer where
  "demo_analyzer = \<lparr>an_pipeline = demo_built\<lparr>pl_query := [(''all'', everything_query)]\<rparr>, an_tags = [PStr ''ANALYZER''],
     an_results = []\<rparr>"

lemma demo_analyzer_simps:
  "pl_query (an_pipeline demo_analyzer) = [(''all'', everything_query)]"
  "pl_nodes (an_pipeline demo_analyzer) = pl_nodes demo_built"
  "q_name everything_query = ''all''" "q_selectors everything_query = []"
  by (simp_all add: demo_analyzer_def everything_query_def)

lemma demo_analyzer_nodes:
  "apply_selectors take (find_nodes_by_query (an_pipeline demo_analyzer) everything_query)
     (selectors_for None everything_query) = Inr (map snd (pl_nodes demo_built))"
  by (simp add: selectors_for_def demo_analyzer_simps find_nodes_by_query_def query_matches_def everything_query_def
      demo_built_simps)

lemma demo_analyzer_ok: "pipeline_ok (an_pipeline demo_analyzer)"
  by (simp add: demo_analyzer_def demo_built_simps pipeline_ok_def names_ok_def settings_ok_def setting_ok_def
      day_setting_def demo_node_def demo_source_def source_node_def dict_ok_def everything_query_def)

lemma demo_analyzer_safe:
  "\<forall>(k, n) \<in> set (pl_nodes demo_built). \<forall>e. execute_node n [] = Inl e \<longrightarrow> caught e"
  by (simp add: demo_built_simps execute_node_def demo_node_def demo_source_def source_node_def execute_source_def
      execute_processing_def caught_iff)

theorem analyzer_contains_failures_witness:
  "\<exists>out d m. snd (analyzer_execute 9 remdups take (\<lambda>_. 0) (\<lambda>_. 0) True (plain_run\<lparr>opt_inputs := Some []\<rparr>)
      (demo_analyzer, new_engine)) = Inr out \<and> map_of out ''all'' = Some (PDict d) \<and>
      map_of d ''sum'' = Some (PStr (''ERROR: '' @ m))"
proof -
  let ?opts = "plain_run\<lparr>opt_inputs := Some []\<rparr>" and ?n = "demo_node\<lparr>sdk_settings := Some [(''1d'', day_setting)]\<rparr>"
  have sub: "\<forall>k xs. set (take k xs) \<subseteq> set (xs :: sdk_node list)" by (simp add: set_take_subset)
  have "opt_selectors ?opts = None" "opt_inputs ?opts = Some []" by (simp_all add: plain_run_def)
  with analyzer_contains_failures [OF demo_analyzer_ok refl, of take ?opts "\<lambda>_. map snd (pl_nodes demo_built)" "[]"
      9 remdups "\<lambda>_. 0" "\<lambda>_. 0" new_engine]
  obtain out where "snd (analyzer_execute 9 remdups take (\<lambda>_. 0) (\<lambda>_. 0) True ?opts (demo_analyzer, new_engine)) = Inr out"
    and "\<forall>(k, q) \<in> set (pl_query (an_pipeline demo_analyzer)). \<exists>d. map_of out k = Some (PDict d)
        \<and> (\<forall>n \<in> set (map snd (pl_nodes demo_built)). map_of d (sdk_name n) = Some (answer [] n))"
    and err: "\<forall>n u. sdk_kind n = Processing \<and> u \<in> set (sdk_upstreams n) \<and> \<not> has_key [] u \<longrightarrow>
        (\<exists>m. answer [] n = PStr (''ERROR: '' @ m))"
    using sub demo_analyzer_nodes demo_analyzer_safe by (auto simp: demo_analyzer_simps)
  moreover have "?n \<in> set (map snd (pl_nodes demo_built))" by (simp add: demo_built_simps)
  moreover have "\<exists>m. answer [] ?n = PStr (''ERROR: '' @ m)" 
    by (rule err [rule_format, of ?n "''a''"]) (simp add: demo_node_def)
  ultimately show ?thesis by (force simp: demo_analyzer_simps demo_node_def)
qed

text \<open>Without query nodes the inputs and selectors of the run have no effect.\<close>

lemma analyzer_ignores_inputs:
  assumes "pl_query (an_pipeline a) = [] \<or> \<not> is_local"
  shows "analyzer_execute k ord sample clock stamps is_local (opts\<lparr>opt_inputs := i, opt_selectors := ss\<rparr>) (a, s) =
    analyzer_execute k ord sample clock stamps is_local opts (a, s)"
  using assms by (auto simp: analyzer_execute_def)

section \<open>The life of a registered analyzer\<close>

datatype service_op = Register string int analyzer_spec | Activate string int

fun service_step :: "service_op \<Rightarrow> analyzer_service \<Rightarrow> analyzer_service" where
  "service_step (Register i t spec) s = fst (register_analyzer i t spec s)"
| "service_step (Activate i t) s = fst (activate_analyzer t i s)"

text \<open>The contract: who was registered when, and when each registered analyzer was last activated.\<close>

type_synonym service_log = "(string \<Rightarrow> (int \<times> analyzer_spec) option) \<times> (string \<Rightarrow> int option)"

fun service_log_step :: "service_op \<Rightarrow> service_log \<Rightarrow> service_log" where
  "service_log_step (Register i t spec) (reg, act) = (reg(i \<mapsto> (t, spec)), act)"
| "service_log_step (Activate i t) (reg, act) = (reg, if reg i = None then act else act(i \<mapsto> t))"

fun new_ids :: "service_op list \<Rightarrow> string list" where
  "new_ids [] = []"
| "new_ids (Register i t spec # ops) = i # new_ids ops"
| "new_ids (Activate i t # ops) = new_ids ops"

definition service_abs :: "analyzer_service \<Rightarrow> service_log \<Rightarrow> bool" where
  "service_abs s l \<longleftrightarrow> (case l of (reg, act) \<Rightarrow>
     (\<forall>i. get_analyzer s i = map_option (\<lambda>(t, spec). \<lparr>am_id = i, am_spec = spec, am_created = t,
        am_status = if act i = None then ''REGISTERED'' else ''ACTIVE''\<rparr>) (reg i)) \<and>
     (\<forall>i. get_results s i = map_option (\<lambda>t. \<lparr>ar_analyzer = i,
        ar_result = [(''message'', PStr ''Dummy analysis result'')], ar_time = t, ar_status = ''SUCCESS'',
        ar_error = None\<rparr>) (act i)) \<and>
     (\<forall>i. reg i = None \<longrightarrow> act i = None))"

lemma service_step_refines:
  assumes "service_abs s (reg, act)" "\<And>i t spec. op = Register i t spec \<Longrightarrow> reg i = None"
  shows "service_abs (service_step op s) (service_log_step op (reg, act))"
proof (cases op)
  case (Register i t spec)
  then show ?thesis using assms
    by (auto simp: service_abs_def get_analyzer_def get_results_def register_analyzer_def Let_def)
next
  case (Activate i t)
  show ?thesis
  proof (cases "reg i")
    case None
    then have "map_of (sv_analyzers s) i = None" using assms(1) by (simp add: service_abs_def get_analyzer_def)
    with None Activate assms(1) show ?thesis by (simp add: activate_analyzer_def)
  next
    case (Some e)
    obtain r spec where e: "e = (r, spec)" by (cases e)
    have "map_of (sv_analyzers s) i = Some \<lparr>am_id = i, am_spec = spec, am_created = r,
        am_status = if act i = None then ''REGISTERED'' else ''ACTIVE''\<rparr>"
      using assms(1) Some e by (simp add: service_abs_def get_analyzer_def)
    with Some e Activate assms(1) show ?thesis
      by (auto simp: activate_analyzer_def service_abs_def get_analyzer_def get_results_def Let_def)
  qed
qed

lemma log_registered:
  "fst (fold service_log_step ops (reg, act)) i \<noteq> None \<longleftrightarrow> reg i \<noteq> None \<or> i \<in> set (new_ids ops)"
proof (induction ops arbitrary: reg act)
  case (Cons op ops)
  then show ?case by (cases op) auto
qed simp

text \<open>
  The analyzer service keeps its contract. After any sequence of registrations with new ids
  and activations, an analyzer is found exactly if it was registered, with the data and the time of
  its registration; it is active, and has a result with the time of its last activation, exactly if it
  was activated after that.
\<close>
theorem analyzer_service_refines:
  assumes "distinct (new_ids ops)"
  shows "service_abs (fold service_step ops empty_service) (fold service_log_step ops (Map.empty, Map.empty))"
proof -
  have "service_abs (fold service_step ops s) (fold service_log_step ops (reg, act))"
    if "service_abs s (reg, act)" "distinct (new_ids ops)" "\<forall>i \<in> set (new_ids ops). reg i = None" for s reg act
    using that
  proof (induction ops arbitrary: s reg act)
    case Nil
    then show ?case by simp
  next
    case (Cons op ops)
    obtain reg' act' where l: "service_log_step op (reg, act) = (reg', act')" by fastforce
    have "service_abs (service_step op s) (reg', act')"
      using service_step_refines [OF Cons.prems(1), of op] Cons.prems(3) by (auto simp: l)
    moreover have "distinct (new_ids ops)" "\<forall>i \<in> set (new_ids ops). reg' i = None"
      using Cons.prems(2,3) l by (cases op; auto)+
    ultimately show ?case using Cons.IH by (simp add: l)
  qed
  moreover have "service_abs empty_service (Map.empty, Map.empty)"
    by (simp add: service_abs_def empty_service_def get_analyzer_def get_results_def)
  ultimately show ?thesis using assms by simp
qed

theorem analyzer_service_refines_witness:
  "service_abs (fold service_step [Register ''u1'' 5 (analyzer_spec_of ''risk'' None None None), Activate ''u1'' 7,
      Activate ''u2'' 8] empty_service)
    ([''u1'' \<mapsto> (5, analyzer_spec_of ''risk'' None None None)], [''u1'' \<mapsto> 7])"
  using analyzer_service_refines [of "[Register ''u1'' 5 (analyzer_spec_of ''risk'' None None None), Activate ''u1'' 7,
      Activate ''u2'' 8]"] by simp

section \<open>Ids of marked functions\<close>

text \<open>Only the key parameters enter the id of a marked function, a missing one as \<open>None\<close>.\<close>

lemma node_id_key_params:
  assumes "\<forall>k \<in> set (nf_key_params f). map_of params k = map_of params' k"
  shows "make_node_id sha256 str f params = make_node_id sha256 str f params'"
proof -
  have "map (param_text str params) (nf_key_params f) = map (param_text str params') (nf_key_params f)"
    using assms by (simp add: param_text_def)
  then show ?thesis unfolding make_node_id_def id_base_def by (simp only:)
qed

text \<open>The separators are not escaped: different parameters can have the same id, whatever the hash.\<close>

lemma node_id_collision:
  assumes "\<forall>s. str (PStr s) = s"
  shows "make_node_id sha256 str (node_decorator (Some [''a'', ''b'']) None None ''f'')
      [(''a'', PStr ''1|b=2''), (''b'', PStr ''3'')] =
    make_node_id sha256 str (node_decorator (Some [''a'', ''b'']) None None ''f'')
      [(''a'', PStr ''1''), (''b'', PStr ''2|b=3'')]"
  using assms by (simp add: make_node_id_def id_base_def node_decorator_def mark_def param_text_def)

end
