(* ===== verification/Common.thy ===== *)
theory Common
  imports Errors
begin

text \<open>
  Shared services of the program: the HTTP client (\<open>common/http/client.py\<close>), settings from the
  environment (\<open>common/config/env.py\<close>, \<open>common/config/settings.py\<close>, \<open>models/config.py\<close>), validation
  (\<open>common/utils/validation.py\<close>), string maps (\<open>common/utils/serialization.py\<close>) and work in a
  transaction (\<open>common/db/transaction.py\<close>).

  The HTTP library is a parameter: \<open>ht_send\<close> performs one request. A coroutine that was created and
  not yet awaited is the function that runs it. The environment is a dict of texts.
\<close>

section \<open>The HTTP client\<close>

record http_request =
  hq_url :: string
  hq_method :: string
  hq_headers :: "(string, string) dict option"
  hq_params :: pyval
  hq_data :: pyval
  hq_json :: pyval
  hq_timeout :: "real option"
  hq_auth :: pyval

text \<open>The validator of \<open>method\<close> and the defaults of the other fields.\<close>

definition http_request_of :: "string \<Rightarrow> string option \<Rightarrow> (string, string) dict option \<Rightarrow> pyval \<Rightarrow> http_request" where
  "http_request_of url verb hs json =
     \<lparr>hq_url = url, hq_method = map to_upper (case verb of None \<Rightarrow> ''GET'' | Some m \<Rightarrow> m), hq_headers = hs,
      hq_params = PNone, hq_data = PNone, hq_json = json, hq_timeout = Some 10, hq_auth = PNone\<rparr>"

text \<open>A response of the library; header names are in lower case.\<close>

record raw_response =
  rw_status :: int
  rw_headers :: "(string, string) dict"
  rw_json :: "pyval res"
  rw_text :: string

record http_reply =
  rp_status :: int
  rp_headers :: "(string, string) dict"
  rp_body :: pyval

datatype 'm http_result = Plain http_reply | Parsed 'm

record 's http_client =
  ht_base_url :: "string option"
  ht_default_headers :: "(string, string) dict"
  ht_send :: "http_request \<Rightarrow> 's \<Rightarrow> 's \<times> raw_response res"

definition content_type :: "raw_response \<Rightarrow> string" where
  "content_type w = (case map_of (rw_headers w) ''content-type'' of None \<Rightarrow> '''' | Some t \<Rightarrow> t)"

definition body_of :: "raw_response \<Rightarrow> pyval res" where
  "body_of w = (if occurs_in ''application/json'' (content_type w) then rw_json w else Inr (PStr (rw_text w)))"

text \<open>What the body of \<open>request\<close> makes of a response; \<open>model\<close> validates a body.\<close>

definition read_response :: "(pyval \<Rightarrow> 'm res) option \<Rightarrow> raw_response \<Rightarrow> 'm http_result res" where
  "read_response model w =
     bind_res (body_of w) (\<lambda>b.
       case model of
         None \<Rightarrow> Inr (Plain \<lparr>rp_status = rw_status w, rp_headers = rw_headers w, rp_body = b\<rparr>)
       | Some validate \<Rightarrow> bind_res (validate b) (\<lambda>m. Inr (Parsed m)))"

definition http_failure :: "'a res \<Rightarrow> 'a res" where
  "http_failure r =
     (case r of
        Inl e \<Rightarrow> if caught e then raises QMTLError (''HTTP request failed: '' @ ex_msg e) else Inl e
      | Inr x \<Rightarrow> Inr x)"

definition request_once ::
  "'s http_client \<Rightarrow> (pyval \<Rightarrow> 'm res) option \<Rightarrow> http_request \<Rightarrow> ('s, 'm http_result) call" where
  "request_once c model req s =
     (case ht_send c req s of (s', r) \<Rightarrow> (s', http_failure (bind_res r (read_response model))))"

definition http_send ::
  "'s http_client \<Rightarrow> (pyval \<Rightarrow> 'm res) option \<Rightarrow> http_request \<Rightarrow> 's \<Rightarrow> 's \<times> real list \<times> 'm http_result option res" where
  "http_send c model req s = with_retry (request_once c model req) 3 (1/2) s"

text \<open>
  \<open>arequest\<close> is a coroutine function under the same decorator: calling it cannot fail, and the
  wrapper returns the coroutine at once. The caller awaits it outside the wrapper.
\<close>

definition http_asend ::
  "'s http_client \<Rightarrow> (pyval \<Rightarrow> 'm res) option \<Rightarrow> http_request \<Rightarrow> 's
     \<Rightarrow> 's \<times> real list \<times> ('s, 'm http_result) call option res" where
  "http_asend c model req s = with_retry (\<lambda>s. (s, Inr (request_once c model req))) 3 (1/2) s"

definition await_asend ::
  "'s http_client \<Rightarrow> (pyval \<Rightarrow> 'm res) option \<Rightarrow> http_request \<Rightarrow> 's \<Rightarrow> 's \<times> real list \<times> 'm http_result option res" where
  "await_asend c model req s =
     (case http_asend c model req s of
        (s', ts, Inl e) \<Rightarrow> (s', ts, Inl e)
      | (s', ts, Inr None) \<Rightarrow> (s', ts, Inr None)
      | (s', ts, Inr (Some run)) \<Rightarrow> (case run s' of (s'', r) \<Rightarrow> (s'', ts, bind_res r (\<lambda>x. Inr (Some x)))))"

section \<open>Settings\<close>

type_synonym environment = "(string, string) dict"

definition get_env_vars :: "string \<Rightarrow> environment \<Rightarrow> environment" where
  "get_env_vars prefix env = (if prefix = [] then env else filter (\<lambda>(k, _). starts_with k prefix) env)"

record env_config =
  env_name :: string
  env_debug :: bool
  env_log_level :: string
  neo4j_uri :: string
  neo4j_user :: string
  neo4j_password :: string
  neo4j_database :: string
  redis_uri :: string
  kafka_brokers :: string

record settings =
  st_env :: env_config
  st_service :: string
  st_version :: string

definition env_or :: "environment \<Rightarrow> string \<Rightarrow> string \<Rightarrow> string" where
  "env_or env k d = (case map_of env k of None \<Rightarrow> d | Some v \<Rightarrow> v)"

definition load_settings :: "environment \<Rightarrow> settings" where
  "load_settings os_env =
     (let env = get_env_vars '''' os_env in
      \<lparr>st_env =
         \<lparr>env_name = map to_lower (env_or env ''QMTL_ENV'' (env_or env ''ENV'' ''dev'')),
          env_debug = (map to_lower (env_or env ''DEBUG'' ''false'') = ''true''),
          env_log_level = env_or env ''LOG_LEVEL'' ''INFO'',
          neo4j_uri = env_or env ''NEO4J_URI'' ''bolt://localhost:7687'',
          neo4j_user = env_or env ''NEO4J_USER'' ''neo4j'',
          neo4j_password = env_or env ''NEO4J_PASSWORD'' ''password'',
          neo4j_database = env_or env ''NEO4J_DATABASE'' ''neo4j'',
          redis_uri = env_or env ''REDIS_URI'' ''redis://localhost:6379'',
          kafka_brokers = env_or env ''KAFKA_BROKERS'' ''localhost:9092''\<rparr>,
       st_service = ''qmtl'', st_version = ''0.1.0''\<rparr>)"

text \<open>The global variable \<open>_settings\<close>.\<close>

definition get_settings :: "environment \<Rightarrow> settings option \<Rightarrow> settings \<times> settings option" where
  "get_settings os_env cache =
     (case cache of
        None \<Rightarrow> (let st = load_settings os_env in (st, Some st))
      | Some st \<Rightarrow> (st, cache))"

definition reset_settings :: "settings option \<Rightarrow> settings option" where
  "reset_settings cache = None"

section \<open>Validation and transactions\<close>

text \<open>\<open>is_valid_model\<close> only takes a validation error for a no; any other exception passes.\<close>

definition validate_model :: "('d \<Rightarrow> 'm res) \<Rightarrow> 'd \<Rightarrow> 'm res" where
  "validate_model validate data = validate data"

definition is_valid_model :: "('d \<Rightarrow> 'm res) \<Rightarrow> 'd \<Rightarrow> bool res" where
  "is_valid_model validate data =
     (case validate data of
        Inr _ \<Rightarrow> Inr True
      | Inl e \<Rightarrow> if isinstance_of (ex_class e) PydanticValidationError then Inr False else Inl e)"

text \<open>The docstring of \<open>assert_valid_model\<close> promises an \<open>AssertionError\<close>; the validation error passes instead.\<close>

definition assert_valid_model :: "('d \<Rightarrow> 'm res) \<Rightarrow> 'd \<Rightarrow> unit res" where
  "assert_valid_model validate data = bind_res (validate data) (\<lambda>_. Inr ())"

definition run_in_transaction ::
  "('t \<Rightarrow> 's \<Rightarrow> ('s, exn, 'r list) outcome) \<Rightarrow> 't \<Rightarrow> 's \<Rightarrow> ('s, exn, 'r list) outcome" where
  "run_in_transaction work tx s =
     (case work tx s of
        (s', Inl e) \<Rightarrow>
          (s', if caught e then raises DatabaseError (''transaction failed: '' @ ex_msg e) else Inl e)
      | (s', Inr rows) \<Rightarrow> (s', Inr rows))"

section \<open>String maps\<close>

text \<open>
  \<open>to_str_map\<close>: \<open>str\<close> is \<open>str(v)\<close>, and \<open>heap\<close> tells an enum member with its value from an instance with
  its attributes. The first argument is the number of Python stack frames left: an object that
  reaches itself has no finite map.
\<close>

datatype instance_of = EnumMember pyval | Instance "(string, pyval) dict"

fun to_str :: "(pyval \<Rightarrow> string) \<Rightarrow> (nat \<Rightarrow> instance_of) \<Rightarrow> nat \<Rightarrow> pyval \<Rightarrow> pyval res"
  and to_str_items ::
    "(pyval \<Rightarrow> string) \<Rightarrow> (nat \<Rightarrow> instance_of) \<Rightarrow> nat \<Rightarrow> (string \<times> pyval) list \<Rightarrow> (string \<times> pyval) list res" where
  "to_str str heap 0 v = raises RecursionError ''maximum recursion depth exceeded''"
| "to_str str heap (Suc k) v =
     (case v of
        PNone \<Rightarrow> Inr (PStr [])
      | PDict d \<Rightarrow> bind_res (to_str_items str heap k d) (\<lambda>e. Inr (PDict e))
      | PObject i \<Rightarrow>
          (case heap i of
             EnumMember w \<Rightarrow> Inr w
           | Instance d \<Rightarrow> to_str str heap k (PDict d))
      | w \<Rightarrow> Inr (PStr (str w)))"
| "to_str_items str heap k [] = Inr []"
| "to_str_items str heap k ((key, v) # d) =
     bind_res (to_str str heap k v) (\<lambda>w. bind_res (to_str_items str heap k d) (\<lambda>e. Inr ((key, w) # e)))"

definition to_str_map ::
  "(pyval \<Rightarrow> string) \<Rightarrow> (nat \<Rightarrow> instance_of) \<Rightarrow> nat \<Rightarrow> (string, pyval) dict \<Rightarrow> (string, pyval) dict res" where
  "to_str_map str heap k d = to_str_items str heap k d"

section \<open>Attempts\<close>

lemma http_failure_class: "http_failure r = Inl e \<Longrightarrow> caught e \<Longrightarrow> ex_class e = QMTLError"
  by (cases r) (auto simp: http_failure_def split: if_splits)

lemma request_once_class: "snd (request_once c model req s) = Inl e \<Longrightarrow> caught e \<Longrightarrow> ex_class e = QMTLError"
  by (auto simp: request_once_def split: prod.splits dest: http_failure_class)

lemma await_once:
  "await_asend c model req s =
    (fst (request_once c model req s), [], bind_res (snd (request_once c model req s)) (\<lambda>x. Inr (Some x)))"
proof -
  have "http_asend c model req s = (s, [], Inr (Some (request_once c model req)))"
    by (simp add: http_asend_def with_retry_def upt_rec)
  then show ?thesis by (simp add: await_asend_def split_beta)
qed

lemma backoff_times: "n \<le> 2 \<Longrightarrow> map (\<lambda>i. (1/2) * 2 ^ i) [0..<n] = take n [1/2, 1 :: real]"
proof -
  assume "n \<le> 2"
  then consider "n = 0" | "n = 1" | "n = 2" by linarith
  then show ?thesis by cases (simp_all add: upt_rec eval_nat_numeral)
qed

text \<open>
  C37: how often a request is sent. The synchronous client sends it once, and again after half a
  second and after another second while an attempt fails for any reason, also when the server
  answered and only the body could not be read; every failure it reports is a \<open>QMTLError\<close> after three
  attempts. The asynchronous client uses the same decorator, but awaiting it is always exactly one
  attempt: its failures are never retried.
\<close>
theorem request_attempts:
  assumes "http_send c model req s = (s', sleeps, r)"
  shows "length sleeps \<le> 2 \<and> sleeps = take (length sleeps) [1/2, 1]
    \<and> s' = calls (request_once c model req) (Suc (length sleeps)) s
    \<and> (\<forall>i < length sleeps. \<exists>e. snd (request_once c model req (calls (request_once c model req) i s)) = Inl e)
    \<and> (\<forall>e. r = Inl e \<and> caught e \<longrightarrow> ex_class e = QMTLError \<and> length sleeps = 2)
    \<and> r \<noteq> Inr None
    \<and> await_asend c model req s =
        (calls (request_once c model req) 1 s, [],
         bind_res (snd (request_once c model req s)) (\<lambda>x. Inr (Some x)))"
proof -
  let ?f = "request_once c model req" and ?n = "length sleeps"
  have spec: "?n < 3 \<and> s' = calls ?f (Suc ?n) s \<and> sleeps = map (\<lambda>i. (1/2) * 2 ^ i) [0..<?n]
      \<and> (\<forall>i < ?n. \<exists>e. snd (?f (calls ?f i s)) = Inl e \<and> caught e)
      \<and> (case r of
           Inr (Some x) \<Rightarrow> snd (?f (calls ?f ?n s)) = Inr x
         | Inr None \<Rightarrow> False
         | Inl e \<Rightarrow> snd (?f (calls ?f ?n s)) = Inl e \<and> (\<not> caught e \<or> ?n = 3 - 1))"
    by (rule with_retry_spec) (use assms in \<open>simp_all add: http_send_def\<close>)
  have sl: "sleeps = take ?n [1/2, 1]" using spec backoff_times [of ?n] by simp
  have "r = Inl e \<and> caught e \<longrightarrow> ex_class e = QMTLError \<and> ?n = 2" for e
    using spec request_once_class [of c model req "calls ?f ?n s" e] by auto
  moreover have "r \<noteq> Inr None" using spec by auto
  ultimately show ?thesis using spec sl await_once [of c model req s] by auto
qed

text \<open>A server that answers and a model that rejects every body: the request is sent three times.\<close>

definition demo_client :: "nat http_client" where
  "demo_client =
     \<lparr>ht_base_url = None, ht_default_headers = [],
      ht_send = (\<lambda>req n. (Suc n, Inr \<lparr>rw_status = 201, rw_headers = [], rw_json = Inr PNone, rw_text = ''created''\<rparr>))\<rparr>"

definition reject :: "pyval \<Rightarrow> nat res" where
  "reject v = raises PydanticValidationError ''Input should be a valid dictionary''"

lemma demo_request_run:
  "http_send demo_client (Some reject) (http_request_of ''/orders'' (Some ''post'') None PNone) 0 =
    (3, [1/2, 1], raises QMTLError ''HTTP request failed: Input should be a valid dictionary'')"
  by (simp add: http_send_def with_retry_def upt_rec request_once_def demo_client_def read_response_def body_of_def
      content_type_def starts_with_def reject_def http_failure_def caught_iff)

theorem request_attempts_witness:
  "await_asend demo_client (Some reject) (http_request_of ''/orders'' (Some ''post'') None PNone) 0 =
    (1, [], raises QMTLError ''HTTP request failed: Input should be a valid dictionary'')"
proof -
  let ?req = "http_request_of ''/orders'' (Some ''post'') None PNone"
  have once: "request_once demo_client (Some reject) ?req 0 =
      (1, raises QMTLError ''HTTP request failed: Input should be a valid dictionary'')"
    by (simp add: request_once_def demo_client_def read_response_def body_of_def
        content_type_def starts_with_def reject_def http_failure_def caught_iff)
  have "await_asend demo_client (Some reject) ?req 0 =
      (calls (request_once demo_client (Some reject) ?req) 1 0, [],
       bind_res (snd (request_once demo_client (Some reject) ?req 0)) (\<lambda>x. Inr (Some x)))"
    using request_attempts [OF demo_request_run] by blast
  then show ?thesis by (simp add: once)
qed

section \<open>Settings are read once\<close>

datatype settings_op = GetSettings environment | ResetSettings

fun run_settings :: "settings_op list \<Rightarrow> settings option \<Rightarrow> settings list" where
  "run_settings [] cache = []"
| "run_settings (GetSettings env # ops) cache =
     (case get_settings env cache of (st, cache') \<Rightarrow> st # run_settings ops cache')"
| "run_settings (ResetSettings # ops) cache = run_settings ops (reset_settings cache)"

lemma settings_fixed:
  "list_all (\<lambda>op. op \<noteq> ResetSettings) ops \<Longrightarrow> run_settings ops (Some st) = replicate (length ops) st"
proof (induction ops)
  case (Cons op ops)
  then show ?case by (cases op) (simp_all add: get_settings_def)
qed simp

lemma settings_first_read:
  assumes "list_all (\<lambda>op. op \<noteq> ResetSettings) ops"
  shows "run_settings (ResetSettings # GetSettings env # ops) cache =
    replicate (Suc (length ops)) (load_settings env)"
  using settings_fixed [OF assms] by (simp add: reset_settings_def get_settings_def Let_def)

section \<open>When a string map exists\<close>

text \<open>Values whose dicts and objects nest only finitely deep.\<close>

inductive finite_value :: "(nat \<Rightarrow> instance_of) \<Rightarrow> pyval \<Rightarrow> bool" for heap where
  leaf: "\<lbrakk>\<And>d. v \<noteq> PDict d; \<And>i. v \<noteq> PObject i\<rbrakk> \<Longrightarrow> finite_value heap v"
| dict: "(\<And>key v. (key, v) \<in> set d \<Longrightarrow> finite_value heap v) \<Longrightarrow> finite_value heap (PDict d)"
| enum: "heap i = EnumMember w \<Longrightarrow> finite_value heap (PObject i)"
| obj: "\<lbrakk>heap i = Instance d; finite_value heap (PDict d)\<rbrakk> \<Longrightarrow> finite_value heap (PObject i)"

inductive_simps finite_value_dict: "finite_value heap (PDict d)"

lemma to_str_only_recursion:
  "to_str str heap k v = Inl e \<Longrightarrow> e = exn_of RecursionError ''maximum recursion depth exceeded''"
  "to_str_items str heap k d = Inl e \<Longrightarrow> e = exn_of RecursionError ''maximum recursion depth exceeded''"
proof (induction str heap k v and str heap k d arbitrary: e and e rule: to_str_to_str_items.induct)
  case (2 str heap k v)
  then show ?case by (cases v) (auto simp: bind_res_Inl split: instance_of.splits)
qed (auto simp: bind_res_Inl)

lemma to_str_mono:
  "to_str str heap k v = Inr w \<Longrightarrow> k \<le> k' \<Longrightarrow> to_str str heap k' v = Inr w"
  "to_str_items str heap k d = Inr e \<Longrightarrow> k \<le> k' \<Longrightarrow> to_str_items str heap k' d = Inr e"
proof (induction str heap k v and str heap k d arbitrary: w k' and e k' rule: to_str_to_str_items.induct)
  case (2 str heap k v)
  from "2.prems"(2) obtain j where j: "k' = Suc j" "k \<le> j" by (cases k') auto
  show ?case
  proof (cases v)
    case (PDict d)
    with "2.prems"(1) obtain e where "to_str_items str heap k d = Inr e" "w = PDict e" by (auto simp: bind_res_Inr)
    with "2.IH"(1) [OF PDict _ j(2)] show ?thesis by (simp add: PDict j(1))
  next
    case (PObject i)
    show ?thesis
    proof (cases "heap i")
      case (Instance d)
      then have "to_str str heap k (PDict d) = Inr w" using "2.prems"(1) by (simp add: PObject)
      from "2.IH"(2) [OF PObject Instance this j(2)] Instance show ?thesis by (simp add: PObject j(1))
    qed (use "2.prems"(1) j PObject in simp)
  qed (use "2.prems"(1) j in simp_all)
next
  case (4 str heap k key v d)
  from "4.prems"(1) obtain w e' where w: "to_str str heap k v = Inr w" "to_str_items str heap k d = Inr e'" "e = (key, w) # e'"
    by (auto simp: bind_res_Inr)
  with "4.IH"(1) [OF w(1) "4.prems"(2)] "4.IH"(2) [OF w(2) "4.prems"(2)] show ?case by simp
qed simp_all

lemma to_str_finite:
  "to_str str heap k v = Inr w \<Longrightarrow> finite_value heap v"
  "to_str_items str heap k d = Inr e \<Longrightarrow> \<forall>(key, v) \<in> set d. finite_value heap v"
proof (induction str heap k v and str heap k d arbitrary: w and e rule: to_str_to_str_items.induct)
  case (2 str heap k v)
  show ?case
  proof (cases v)
    case (PDict d)
    with "2.prems" obtain e where "to_str_items str heap k d = Inr e" by (auto simp: bind_res_Inr)
    with "2.IH"(1) [OF PDict] show ?thesis by (auto simp: PDict intro!: finite_value.dict)
  next
    case (PObject i)
    show ?thesis
    proof (cases "heap i")
      case (EnumMember w')
      then show ?thesis unfolding PObject by (rule finite_value.enum)
    next
      case (Instance d)
      with "2.IH"(2) [OF PObject Instance] "2.prems" have "finite_value heap (PDict d)" by (simp add: PObject)
      with Instance show ?thesis unfolding PObject by (rule finite_value.obj)
    qed
  qed (auto intro!: finite_value.leaf)
next
  case (4 str heap k key v d)
  then show ?case by (auto simp: bind_res_Inr)
qed simp_all

lemma to_str_items_enough:
  assumes "\<And>key v. (key, v) \<in> set d \<Longrightarrow> \<exists>k w. to_str str heap k v = Inr w"
  shows "\<exists>k e. to_str_items str heap k d = Inr e"
  using assms
proof (induction d)
  case Nil
  then show ?case by simp
next
  case (Cons x d)
  obtain key v where x: "x = (key, v)" by (cases x)
  from Cons.prems [of key v] x obtain k w where k: "to_str str heap k v = Inr w" by auto
  have "\<exists>k e. to_str_items str heap k d = Inr e"
    by (rule Cons.IH) (use Cons.prems in \<open>meson list.set_intros(2)\<close>)
  then obtain k' e where k': "to_str_items str heap k' d = Inr e" by blast
  have "to_str str heap (max k k') v = Inr w" "to_str_items str heap (max k k') d = Inr e"
    using to_str_mono(1) [OF k] to_str_mono(2) [OF k'] by simp_all
  then have "to_str_items str heap (max k k') (x # d) = Inr ((key, w) # e)" by (simp add: x)
  then show ?case by blast
qed

lemma finite_to_str: "finite_value heap v \<Longrightarrow> \<exists>k w. to_str str heap k v = Inr w"
proof (induction rule: finite_value.induct)
  case (leaf v)
  have "to_str str heap (Suc 0) v = Inr (if v = PNone then PStr [] else PStr (str v))"
  proof (cases v)
    case (PDict d)
    with leaf(1) [of d] show ?thesis by simp
  next
    case (PObject i)
    with leaf(2) [of i] show ?thesis by simp
  qed simp_all
  then show ?case by blast
next
  case (dict d)
  then obtain k e where "to_str_items str heap k d = Inr e" using to_str_items_enough by blast
  then have "to_str str heap (Suc k) (PDict d) = Inr (PDict e)" by simp
  then show ?case by blast
next
  case (enum i w)
  then have "to_str str heap 1 (PObject i) = Inr w" by simp
  then show ?case by blast
next
  case (obj i d)
  then obtain k w where "to_str str heap k (PDict d) = Inr w" by blast
  with obj(1) have "to_str str heap (Suc k) (PObject i) = Inr w" by simp
  then show ?case by blast
qed

text \<open>
  C39: when \<open>to_str_map\<close> returns. If dicts and objects nest only finitely deep below the values, a
  large enough stack gives a map, and the same one for every larger stack. If they do not, for
  instance because an object refers to itself, the call ends with \<open>RecursionError\<close> however large
  the stack is.
\<close>
theorem string_map_returns:
  "if \<forall>(key, v) \<in> set d. finite_value heap v
    then \<exists>k e. \<forall>j \<ge> k. to_str_map str heap j d = Inr e
    else \<forall>k. to_str_map str heap k d = raises RecursionError ''maximum recursion depth exceeded''"
proof (cases "\<forall>(key, v) \<in> set d. finite_value heap v")
  case True
  have "\<exists>k e. to_str_items str heap k d = Inr e"
  proof (rule to_str_items_enough)
    fix key v assume "(key, v) \<in> set d"
    with True show "\<exists>k w. to_str str heap k v = Inr w" using finite_to_str by blast
  qed
  then obtain k e where "to_str_items str heap k d = Inr e" by blast
  from to_str_mono(2) [OF this] True show ?thesis by (auto simp: to_str_map_def)
next
  case False
  have "to_str_map str heap k d = raises RecursionError ''maximum recursion depth exceeded''" for k
  proof (cases "to_str_items str heap k d")
    case (Inl e)
    with to_str_only_recursion(2) [OF Inl] show ?thesis by (simp add: to_str_map_def)
  next
    case (Inr e)
    with to_str_finite(2) False show ?thesis by blast
  qed
  with False show ?thesis by (simp only: if_False) blast
qed

text \<open>An object with itself as an attribute.\<close>

lemma self_reference_fails:
  assumes "heap i = Instance [(''me'', PObject i)]"
  shows "\<not> finite_value heap (PObject i)"
proof -
  have "finite_value heap v \<Longrightarrow> v \<noteq> PObject i \<and> v \<noteq> PDict [(''me'', PObject i)]" for v
    by (induction rule: finite_value.induct) (use assms in auto)
  then show ?thesis by blast
qed

theorem string_map_returns_witness:
  "to_str_map (\<lambda>_. ''text'') (\<lambda>_. Instance [(''me'', PObject 0)]) 1000 [(''x'', PObject 0)] =
     raises RecursionError ''maximum recursion depth exceeded''"
proof -
  have "\<not> finite_value (\<lambda>_. Instance [(''me'', PObject 0)]) (PObject 0)"
    by (rule self_reference_fails) simp
  then show ?thesis
    using string_map_returns [of "[(''x'', PObject 0)]" "\<lambda>_. Instance [(''me'', PObject 0)]" "\<lambda>_. ''text''"] by simp
qed

section \<open>Time arithmetic\<close>

text \<open>
  A datetime is its number of microseconds since the epoch. \<open>int(delta.total_seconds())\<close> truncates
  towards zero; float rounding of spans over 270 years is not modelled.
\<close>

definition add_seconds :: "int \<Rightarrow> int \<Rightarrow> int" where
  "add_seconds dt seconds = dt + seconds * 1000000"

definition diff_seconds :: "int \<Rightarrow> int \<Rightarrow> int" where
  "diff_seconds dt1 dt2 = (let d = dt1 - dt2 in if 0 \<le> d then d div 1000000 else - ((- d) div 1000000))"

lemma diff_add_seconds: "diff_seconds (add_seconds dt n) dt = n"
proof -
  have "- (n * 1000000) div 1000000 = - n"
    using nonzero_mult_div_cancel_right [of "1000000 :: int" "- n"] by simp
  then show ?thesis by (simp add: diff_seconds_def add_seconds_def Let_def)
qed

lemma diff_seconds_flip: "diff_seconds a b = - diff_seconds b a"
  by (simp add: diff_seconds_def Let_def)

lemma diff_seconds_bound: "\<bar>dt1 - dt2 - diff_seconds dt1 dt2 * 1000000\<bar> < 1000000"
proof -
  have "\<bar>d - (d div 1000000) * 1000000\<bar> < 1000000" for d :: int
    by (simp add: minus_div_mult_eq_mod)
  from this [of "dt1 - dt2"] this [of "dt2 - dt1"] show ?thesis
    by (auto simp: diff_seconds_def Let_def)
qed

end
