(* ===== verification/ApiDeps.thy ===== *)
theory ApiDeps
  imports Common Neo4jServices
begin

text \<open>
  What the handlers of the registry API are given: the dependency functions, the test mode and the
  start-up hook of \<open>dag_manager/registry/api.py\<close>, the global pool of
  \<open>common/db/connection_pool.py\<close>, and \<open>MetadataService\<close>
  (\<open>registry/services/metadata_service.py\<close>).

  A dependency function that waits for a free connection has the result \<open>None\<close>: the thread waits
  until another one releases a client. \<open>mk n\<close> is what opening a connection gives when \<open>n\<close> clients are
  handed out.
\<close>

section \<open>State and test mode\<close>

record 'c api_state =
  ap_environ :: environment
  ap_pytest :: bool
  ap_settings :: "settings option"
  ap_instance :: "'c conn_pool option"
  ap_pool :: bool

definition api_start :: "environment \<Rightarrow> bool \<Rightarrow> 'c api_state" where
  "api_start env pytest =
     \<lparr>ap_environ = env, ap_pytest = pytest, ap_settings = None, ap_instance = None, ap_pool = False\<rparr>"

definition api_settings :: "'c api_state \<Rightarrow> settings \<times> 'c api_state" where
  "api_settings st =
     (case get_settings (ap_environ st) (ap_settings st) of (s, cache) \<Rightarrow> (s, st\<lparr>ap_settings := cache\<rparr>))"

definition is_test_mode :: "'c api_state \<Rightarrow> bool \<times> 'c api_state" where
  "is_test_mode st =
     (if map to_lower (env_or (ap_environ st) ''QMTL_SKIP_NEO4J'' '''') \<in> {''1'', ''true'', ''yes''} then (True, st)
      else if ap_pytest st then (True, st)
      else (case api_settings st of (s, st') \<Rightarrow> (env_name (st_env s) = ''test'', st')))"

section \<open>The global pool\<close>

text \<open>\<open>Neo4jConnectionPool(uri=..., username=..., password=...)\<close> on the singleton, of size 10.\<close>

definition get_neo4j_pool :: "'c api_state \<Rightarrow> 'c api_state" where
  "get_neo4j_pool st =
     (if ap_pool st then st
      else
        (case api_settings st of (s, st') \<Rightarrow>
           st'\<lparr>ap_instance := Some (pool_init True 10 (ap_instance st')), ap_pool := True\<rparr>))"

type_synonym ('c, 'a) dep_result = "('c api_state, exn, 'a) outcome option"

definition then_dep :: "('c, 'a) dep_result \<Rightarrow> ('a \<Rightarrow> 'c api_state \<Rightarrow> ('c, 'b) dep_result) \<Rightarrow> ('c, 'b) dep_result" where
  "then_dep m f =
     (case m of
        None \<Rightarrow> None
      | Some (st, Inl e) \<Rightarrow> Some (st, Inl e)
      | Some (st, Inr x) \<Rightarrow> f x st)"

definition pool_client :: "(nat \<Rightarrow> 'c res) \<Rightarrow> 'c api_state \<Rightarrow> ('c, 'c) dep_result" where
  "pool_client mk st =
     (case ap_instance st of
        None \<Rightarrow> Some (st, raises AttributeError ''get_client'')
      | Some p \<Rightarrow>
          map_option (\<lambda>(p', r). (st\<lparr>ap_instance := Some p'\<rparr>, r)) (get_client (mk (length (cp_in_use p))) p))"

section \<open>The dependencies\<close>

datatype 'c service = LocalService | Neo4jService 'c string

text \<open>A service on a client of the pool, which nobody gives back.\<close>

definition neo4j_dep :: "(nat \<Rightarrow> 'c res) \<Rightarrow> string \<Rightarrow> 'c api_state \<Rightarrow> ('c, 'c service) dep_result" where
  "neo4j_dep mk db st = then_dep (pool_client mk st) (\<lambda>c st. Some (st, Inr (Neo4jService c db)))"

definition local_or_neo4j :: "(nat \<Rightarrow> 'c res) \<Rightarrow> 'c api_state \<Rightarrow> ('c, 'c service) dep_result" where
  "local_or_neo4j mk st =
     (case is_test_mode st of
        (True, st) \<Rightarrow> Some (st, Inr LocalService)
      | (False, st) \<Rightarrow>
          (case api_settings (get_neo4j_pool st) of (s, st) \<Rightarrow> neo4j_dep mk (neo4j_database (st_env s)) st))"

definition get_node_service :: "(nat \<Rightarrow> 'c res) \<Rightarrow> 'c api_state \<Rightarrow> ('c, 'c service) dep_result" where
  "get_node_service = local_or_neo4j"

definition get_strategy_service :: "(nat \<Rightarrow> 'c res) \<Rightarrow> 'c api_state \<Rightarrow> ('c, 'c service) dep_result" where
  "get_strategy_service = local_or_neo4j"

definition get_snapshot_service :: "(nat \<Rightarrow> 'c res) \<Rightarrow> 'c api_state \<Rightarrow> ('c, 'c service) dep_result" where
  "get_snapshot_service = local_or_neo4j"

definition three_services ::
  "('c api_state \<Rightarrow> ('c, 'c service) dep_result) \<Rightarrow> ('c api_state \<Rightarrow> ('c, 'c service) dep_result)
     \<Rightarrow> ('c api_state \<Rightarrow> ('c, 'c service) dep_result) \<Rightarrow> 'c api_state \<Rightarrow> ('c, 'c service list) dep_result" where
  "three_services a b c st =
     then_dep (a st) (\<lambda>x st. then_dep (b st) (\<lambda>y st. then_dep (c st) (\<lambda>z st. Some (st, Inr [x, y, z]))))"

definition get_metadata_service :: "(nat \<Rightarrow> 'c res) \<Rightarrow> 'c api_state \<Rightarrow> ('c, 'c service list) dep_result" where
  "get_metadata_service mk st =
     (case is_test_mode st of
        (True, st) \<Rightarrow>
          three_services (get_node_service mk) (get_strategy_service mk) (get_snapshot_service mk) st
      | (False, st) \<Rightarrow>
          (case api_settings (get_neo4j_pool st) of (s, st) \<Rightarrow>
             (let dep = neo4j_dep mk (neo4j_database (st_env s)) in three_services dep dep dep st)))"

text \<open>
  The start-up hook: \<open>init\<close> applies the schema with a client; every \<open>Exception\<close> is logged only.
\<close>

definition on_startup :: "(nat \<Rightarrow> 'c res) \<Rightarrow> ('c \<Rightarrow> unit res) \<Rightarrow> 'c api_state \<Rightarrow> ('c, unit) dep_result" where
  "on_startup mk init st =
     map_option (\<lambda>(st, r). (st, case r of Inl e \<Rightarrow> (if caught e then Inr () else Inl e) | Inr _ \<Rightarrow> Inr ()))
       (case is_test_mode st of
          (True, st) \<Rightarrow> Some (st, Inr ())
        | (False, st) \<Rightarrow> then_dep (pool_client mk (get_neo4j_pool st)) (\<lambda>c st. Some (st, init c)))"

section \<open>Requests\<close>

text \<open>
  Every route declares one of these dependencies. A request first resolves it, then runs its
  handler, which uses the services and releases nothing. A dependency that raises ends its request only.
\<close>

datatype dep = NodeDep | StrategyDep | SnapshotDep | MetadataDep

definition resolve :: "(nat \<Rightarrow> 'c res) \<Rightarrow> dep \<Rightarrow> 'c api_state \<Rightarrow> 'c api_state option" where
  "resolve mk d st =
     (case d of
        NodeDep \<Rightarrow> map_option fst (get_node_service mk st)
      | StrategyDep \<Rightarrow> map_option fst (get_strategy_service mk st)
      | SnapshotDep \<Rightarrow> map_option fst (get_snapshot_service mk st)
      | MetadataDep \<Rightarrow> map_option fst (get_metadata_service mk st))"

fun serve :: "(nat \<Rightarrow> 'c res) \<Rightarrow> dep list \<Rightarrow> 'c api_state \<Rightarrow> 'c api_state option" where
  "serve mk [] st = Some st"
| "serve mk (d # ds) st = Option.bind (resolve mk d st) (serve mk ds)"

definition run_api :: "(nat \<Rightarrow> 'c res) \<Rightarrow> ('c \<Rightarrow> unit res) \<Rightarrow> dep list \<Rightarrow> 'c api_state \<Rightarrow> 'c api_state option" where
  "run_api mk init ds st = Option.bind (on_startup mk init st) (\<lambda>out. serve mk ds (fst out))"

fun connections :: "dep \<Rightarrow> nat" where
  "connections MetadataDep = 3"
| "connections _ = 1"

section \<open>MetadataService\<close>

text \<open>The services behind it, as the operations it calls; \<open>'d\<close> is a snapshot, \<open>'v\<close> a strategy version.\<close>

record ('s, 'n, 'v, 'd) metadata_service =
  ms_create_node :: "'n \<Rightarrow> 's \<Rightarrow> ('s, exn, unit) outcome"
  ms_get_node :: "string \<Rightarrow> 's \<Rightarrow> ('s, exn, 'n option) outcome"
  ms_delete_node :: "string \<Rightarrow> 's \<Rightarrow> ('s, exn, unit) outcome"
  ms_get_version :: "string \<Rightarrow> 's \<Rightarrow> ('s, exn, 'v option) outcome"
  ms_create_snapshot :: "'d \<Rightarrow> 's \<Rightarrow> ('s, exn, unit) outcome"
  ms_get_snapshots :: "string \<Rightarrow> 's \<Rightarrow> ('s, exn, 'd list) outcome"

definition meta_create_node :: "('s, 'n, 'v, 'd) metadata_service \<Rightarrow> 'n \<Rightarrow> 's \<Rightarrow> ('s, exn, unit) outcome" where
  "meta_create_node ms n = ms_create_node ms n"

definition meta_get_node :: "('s, 'n, 'v, 'd) metadata_service \<Rightarrow> string \<Rightarrow> 's \<Rightarrow> ('s, exn, 'n option) outcome" where
  "meta_get_node ms i = ms_get_node ms i"

definition meta_update_node :: "('s, 'n, 'v, 'd) metadata_service \<Rightarrow> 'n \<Rightarrow> 's \<Rightarrow> ('s, exn, unit) outcome" where
  "meta_update_node ms n = ms_create_node ms n"

definition meta_delete_node :: "('s, 'n, 'v, 'd) metadata_service \<Rightarrow> string \<Rightarrow> 's \<Rightarrow> ('s, exn, unit) outcome" where
  "meta_delete_node ms i = ms_delete_node ms i"

definition meta_get_strategy :: "('s, 'n, 'v, 'd) metadata_service \<Rightarrow> string \<Rightarrow> 's \<Rightarrow> ('s, exn, 'v option) outcome" where
  "meta_get_strategy ms i = ms_get_version ms i"

definition meta_create_dag :: "('s, 'n, 'v, 'd) metadata_service \<Rightarrow> 'd \<Rightarrow> 's \<Rightarrow> ('s, exn, unit) outcome" where
  "meta_create_dag ms d = ms_create_snapshot ms d"

definition meta_get_dag :: "('s, 'n, 'v, 'd) metadata_service \<Rightarrow> string \<Rightarrow> 's \<Rightarrow> ('s, exn, 'd option) outcome" where
  "meta_get_dag ms p s =
     and_then (ms_get_snapshots ms p s) (\<lambda>snaps s. (s, Inr (case snaps of [] \<Rightarrow> None | d # _ \<Rightarrow> Some d)))"

definition meta_update_dag :: "('s, 'n, 'v, 'd) metadata_service \<Rightarrow> 'd \<Rightarrow> 's \<Rightarrow> ('s, exn, unit) outcome" where
  "meta_update_dag ms d = ms_create_snapshot ms d"

text \<open>\<open>create_strategy\<close>, \<open>update_strategy\<close>, \<open>delete_strategy\<close> and \<open>delete_dag\<close> have no body yet.\<close>

definition meta_no_op :: "'s \<Rightarrow> ('s, exn, unit) outcome" where
  "meta_no_op s = (s, Inr ())"

section \<open>Connections that are never returned\<close>

definition production :: "environment \<Rightarrow> bool" where
  "production env \<longleftrightarrow>
     map to_lower (env_or env ''QMTL_SKIP_NEO4J'' '''') \<notin> {''1'', ''true'', ''yes''} \<and>
     env_name (st_env (load_settings env)) \<noteq> ''test''"

text \<open>The states of an API in production after \<open>n\<close> clients were taken.\<close>

definition serving :: "environment \<Rightarrow> nat \<Rightarrow> 'c api_state \<Rightarrow> bool" where
  "serving env n st \<longleftrightarrow>
     ap_environ st = env \<and> \<not> ap_pytest st \<and> ap_settings st \<in> {None, Some (load_settings env)} \<and>
     (if ap_pool st
      then \<exists>p. ap_instance st = Some p \<and> cp_pool p = [] \<and> cp_available p + n = 10 \<and> length (cp_in_use p) = n
      else ap_instance st = None \<and> n = 0)"

lemma serving_settings:
  assumes "serving env n st"
  shows "\<exists>st'. api_settings st = (load_settings env, st') \<and> serving env n st' \<and> ap_pool st' = ap_pool st"
proof (intro exI conjI)
  let ?st = "st\<lparr>ap_settings := Some (load_settings env)\<rparr>"
  have "ap_environ st = env" "ap_settings st \<in> {None, Some (load_settings env)}"
    using assms by (simp_all add: serving_def)
  then show "api_settings st = (load_settings env, ?st)"
    by (auto simp: api_settings_def get_settings_def Let_def)
  show "serving env n ?st" "ap_pool ?st = ap_pool st" using assms by (simp_all add: serving_def)
qed

lemma serving_production:
  assumes "serving env n st" "production env"
  shows "\<exists>st'. is_test_mode st = (False, st') \<and> serving env n st'"
proof -
  have "ap_environ st = env" "\<not> ap_pytest st" using assms(1) by (simp_all add: serving_def)
  moreover obtain st' where "api_settings st = (load_settings env, st')" "serving env n st'"
    using serving_settings [OF assms(1)] by blast
  ultimately show ?thesis using assms(2) by (simp add: is_test_mode_def production_def)
qed

lemma serving_pool:
  assumes "serving env n st"
  shows "serving env n (get_neo4j_pool st) \<and> ap_pool (get_neo4j_pool st)"
proof (cases "ap_pool st")
  case True
  with assms show ?thesis by (simp add: get_neo4j_pool_def)
next
  case False
  obtain st' where "api_settings st = (load_settings env, st')" "serving env n st'" "\<not> ap_pool st'"
    using serving_settings [OF assms] False by auto
  with False show ?thesis
    by (auto simp: get_neo4j_pool_def serving_def pool_init_def new_pool_def)
qed

lemma serving_client:
  assumes "serving env n st" "ap_pool st" "\<forall>i. is_ok (mk i)"
  shows "if n < 10 then \<exists>st' c. pool_client mk st = Some (st', Inr c) \<and> serving env (Suc n) st' \<and> ap_pool st'
    else pool_client mk st = None"
proof -
  obtain p where p: "ap_instance st = Some p" "cp_pool p = []" "cp_available p + n = 10" "length (cp_in_use p) = n"
    using assms(1,2) by (auto simp: serving_def)
  obtain c where c: "mk n = Inr c" using assms(3) by (auto simp: is_ok_iff)
  have st: "ap_environ st = env" "\<not> ap_pytest st" "ap_settings st \<in> {None, Some (load_settings env)}"
    using assms(1) by (simp_all add: serving_def)
  show ?thesis
  proof (cases "n < 10")
    case True
    then have "cp_available p \<noteq> 0" using p(3) by linarith
    then have "get_client (mk n) p =
        Some (p\<lparr>cp_available := cp_available p - 1, cp_in_use := c # cp_in_use p\<rparr>, Inr c)"
      using p(2) c by (simp add: get_client_def pool_acquire_def pool_take_def)
    with p True assms(2) st show ?thesis
      by (simp add: pool_client_def serving_def)
  next
    case False
    then have "cp_available p = 0" using p(3) by linarith
    with p False show ?thesis by (simp add: pool_client_def get_client_def pool_acquire_def)
  qed
qed

lemma serving_dep:
  assumes "serving env n st" "ap_pool st" "\<forall>i. is_ok (mk i)"
  shows "if n < 10 then \<exists>st' c. neo4j_dep mk db st = Some (st', Inr c) \<and> serving env (Suc n) st' \<and> ap_pool st'
    else neo4j_dep mk db st = None"
  using serving_client [OF assms] by (auto simp: neo4j_dep_def then_dep_def)

lemma serving_local_or_neo4j:
  assumes "serving env n st" "production env" "\<forall>i. is_ok (mk i)"
  shows "if n < 10 then \<exists>st' r. local_or_neo4j mk st = Some (st', r) \<and> serving env (Suc n) st'
    else local_or_neo4j mk st = None"
proof -
  obtain st1 where st1: "is_test_mode st = (False, st1)" "serving env n st1"
    using serving_production [OF assms(1,2)] by blast
  obtain st2 where st2: "api_settings (get_neo4j_pool st1) = (load_settings env, st2)" "serving env n st2" "ap_pool st2"
    using serving_settings [of env n "get_neo4j_pool st1"] serving_pool [OF st1(2)] by auto
  from serving_dep [OF st2(2,3) assms(3), where db = "neo4j_database (st_env (load_settings env))"] show ?thesis
    by (auto simp: local_or_neo4j_def st1(1) st2(1) split: if_splits)
qed

lemma serving_metadata:
  assumes "serving env n st" "production env" "\<forall>i. is_ok (mk i)"
  shows "if n + 3 \<le> 10 then \<exists>st' r. get_metadata_service mk st = Some (st', r) \<and> serving env (n + 3) st'
    else get_metadata_service mk st = None"
proof -
  obtain st1 where st1: "is_test_mode st = (False, st1)" "serving env n st1"
    using serving_production [OF assms(1,2)] by blast
  obtain st2 where st2: "api_settings (get_neo4j_pool st1) = (load_settings env, st2)" "serving env n st2" "ap_pool st2"
    using serving_settings [of env n "get_neo4j_pool st1"] serving_pool [OF st1(2)] by auto
  let ?dep = "neo4j_dep mk (neo4j_database (st_env (load_settings env)))"
  have g: "get_metadata_service mk st = three_services ?dep ?dep ?dep st2"
    by (simp add: get_metadata_service_def st1(1) st2(1) Let_def)
  note step = serving_dep [OF _ _ assms(3), where db = "neo4j_database (st_env (load_settings env))"]
  show ?thesis
  proof (cases "n < 10")
    case False
    with step [OF st2(2,3)] show ?thesis by (simp add: g three_services_def then_dep_def)
  next
    case True
    with step [OF st2(2,3)] obtain st3 c where st3: "?dep st2 = Some (st3, Inr c)" "serving env (Suc n) st3" "ap_pool st3"
      by auto
    show ?thesis
    proof (cases "Suc n < 10")
      case False
      with step [OF st3(2,3)] show ?thesis by (simp add: g three_services_def then_dep_def st3(1))
    next
      case True
      with step [OF st3(2,3)] obtain st4 c' where st4: "?dep st3 = Some (st4, Inr c')" "serving env (Suc (Suc n)) st4" "ap_pool st4"
        by auto
      from step [OF st4(2,3)] show ?thesis
        by (auto simp: g three_services_def then_dep_def st3(1) st4(1) numeral_3_eq_3 split: if_splits)
    qed
  qed
qed

lemma serving_resolve:
  assumes "serving env n st" "production env" "\<forall>i. is_ok (mk i)"
  shows "if n + connections d \<le> 10 then \<exists>st'. resolve mk d st = Some st' \<and> serving env (n + connections d) st'
    else resolve mk d st = None"
  using serving_metadata [OF assms] serving_local_or_neo4j [OF assms]
  by (cases d)
    (auto simp: resolve_def get_node_service_def get_strategy_service_def get_snapshot_service_def split: if_splits)

lemma serving_serve:
  assumes "serving env n st" "production env" "\<forall>i. is_ok (mk i)" "n \<le> 10"
  shows "serve mk ds st = None \<longleftrightarrow> 10 < n + sum_list (map connections ds)"
  using assms(1,4)
proof (induction ds arbitrary: n st)
  case Nil
  then show ?case by simp
next
  case (Cons d ds)
  show ?case
  proof (cases "n + connections d \<le> 10")
    case True
    with serving_resolve [OF Cons.prems(1) assms(2,3), of d]
    obtain st' where "resolve mk d st = Some st'" "serving env (n + connections d) st'" by auto
    with Cons.IH [OF this(2) True] show ?thesis by (simp add: add.assoc)
  next
    case False
    with serving_resolve [OF Cons.prems(1) assms(2,3), of d] have "resolve mk d st = None" by simp
    with False show ?thesis by simp
  qed
qed

lemma settings_stable: "\<exists>s st'. api_settings st = (s, st') \<and> api_settings st' = (s, st') \<and>
    ap_environ st' = ap_environ st \<and> ap_pytest st' = ap_pytest st"
  by (cases "ap_settings st") (simp_all add: api_settings_def get_settings_def Let_def)

lemma test_mode_stable:
  assumes "fst (is_test_mode st)"
  shows "\<exists>st'. is_test_mode st = (True, st') \<and> is_test_mode st' = (True, st')"
proof -
  define skip where "skip x \<longleftrightarrow> map to_lower (env_or (ap_environ x) ''QMTL_SKIP_NEO4J'' []) \<in> {''1'', ''true'', ''yes''}"
    for x :: "'a api_state"
  have u: "is_test_mode x = (if skip x \<or> ap_pytest x then (True, x)
      else (case api_settings x of (s, x') \<Rightarrow> (env_name (st_env s) = ''test'', x')))" for x
    unfolding is_test_mode_def skip_def [symmetric] by (cases "skip x") simp_all
  obtain s st' where s: "api_settings st = (s, st')" "api_settings st' = (s, st')"
      "ap_environ st' = ap_environ st" "ap_pytest st' = ap_pytest st"
    using settings_stable by blast
  show ?thesis
  proof (cases "skip st \<or> ap_pytest st")
    case True
    then show ?thesis by (simp add: u)
  next
    case False
    then have "\<not> (skip st' \<or> ap_pytest st')" using s(3,4) by (simp add: skip_def)
    with False s(1,2) assms show ?thesis by (simp add: u)
  qed
qed

lemma test_mode_resolves:
  assumes "fst (is_test_mode st)"
  shows "\<exists>st'. resolve mk d st = Some st' \<and> fst (is_test_mode st')"
proof -
  obtain st' where "is_test_mode st = (True, st')" "is_test_mode st' = (True, st')"
    using test_mode_stable [OF assms] by blast
  then show ?thesis
    by (cases d) (simp_all add: resolve_def get_node_service_def get_strategy_service_def get_snapshot_service_def
        get_metadata_service_def local_or_neo4j_def three_services_def then_dep_def)
qed

lemma test_mode_serves: "fst (is_test_mode st) \<Longrightarrow> serve mk ds st \<noteq> None"
proof (induction ds arbitrary: st)
  case (Cons d ds)
  with test_mode_resolves [OF Cons.prems, of mk d] show ?case by auto
qed simp

text \<open>
  C24: the registry API runs out of database connections. In production, with a database that
  always accepts connections, the start-up takes one client of the pool of ten, every request takes one
  more, or three if it uses the metadata service, and none is ever given back: a sequence of
  requests is stuck waiting for a client exactly when they need more than the nine that are left. In
  test mode no request ever waits.
\<close>
theorem api_runs_out_of_connections:
  fixes mk :: "nat \<Rightarrow> 'c res"
  assumes "\<forall>i. is_ok (mk i)"
  shows "if production env \<and> \<not> pytest
    then run_api mk init ds (api_start env pytest) = None \<longleftrightarrow> 9 < sum_list (map connections ds)
    else run_api mk init ds (api_start env pytest) \<noteq> None"
proof (cases "production env \<and> \<not> pytest")
  case True
  then have "serving env 0 (api_start env pytest :: 'c api_state)" by (simp add: serving_def api_start_def)
  from serving_production [OF this] True obtain st1 :: "'c api_state"
    where st1: "is_test_mode (api_start env pytest) = (False, st1)" "serving env 0 st1" by blast
  from serving_client [OF _ _ assms, of env 0 "get_neo4j_pool st1"] serving_pool [OF st1(2)]
  obtain st2 c where st2: "pool_client mk (get_neo4j_pool st1) = Some (st2, Inr c)" "serving env 1 st2" by auto
  have "\<exists>r. on_startup mk init (api_start env pytest) = Some (st2, r)"
    by (simp add: on_startup_def st1(1) then_dep_def st2(1))
  then have "run_api mk init ds (api_start env pytest) = serve mk ds st2" by (auto simp: run_api_def)
  moreover have "serve mk ds st2 = None \<longleftrightarrow> 10 < 1 + sum_list (map connections ds)"
    by (rule serving_serve [OF st2(2)]) (use True assms in auto)
  ultimately show ?thesis using True by auto
next
  case False
  then have test: "fst (is_test_mode (api_start env pytest :: 'c api_state))"
    by (auto simp: is_test_mode_def api_start_def production_def api_settings_def get_settings_def Let_def)
  obtain st1 :: "'c api_state" where "is_test_mode (api_start env pytest) = (True, st1)" "is_test_mode st1 = (True, st1)"
    using test_mode_stable [OF test] by blast
  then have "run_api mk init ds (api_start env pytest) \<noteq> None"
    using test_mode_serves [of st1] by (simp add: run_api_def on_startup_def)
  with False show ?thesis by (simp only: if_False) blast
qed

theorem api_runs_out_of_connections_witness:
  "run_api (\<lambda>i. Inr i) (\<lambda>_. Inr ()) [NodeDep, MetadataDep, MetadataDep, MetadataDep] (api_start [] False) = None"
proof -
  have "production []" by (simp add: production_def env_or_def load_settings_def get_env_vars_def to_lower_def is_upper_def)
  then show ?thesis
    using api_runs_out_of_connections [of "\<lambda>i. Inr i" "[]" False "\<lambda>_. Inr ()" "[NodeDep, MetadataDep, MetadataDep, MetadataDep]"]
    by simp
qed

end
