(* ===== verification/NodeServices.thy ===== *)
theory NodeServices
  imports NodeRegistry Neo4jServices
begin

text \<open>
  The interface \<open>NodeManagementService\<close> (\<open>dag_manager/registry/services/node/management.py\<close>) and its two
  implementations, the one in memory that the test mode uses and the one on Neo4j. The locale \<open>node_service\<close>
  states what creating, reading and deleting a node promise in terms of a map from ids to what is kept of the
  nodes; both implementations are interpretations, with different ways to read a node that is kept. So their answers
  are the same but for a node that is found: the service in memory returns the node itself, the one on Neo4j what
  the stored values are read back as, which need not succeed.
\<close>

section \<open>The interface\<close>

datatype 'n node_op = CreateNode 'n | GetNode string | DeleteNode string

datatype 'm node_answer = Created | Found "'m option" | Deleted bool | Failed exn

definition answer :: "('a \<Rightarrow> 'm node_answer) \<Rightarrow> exn + 'a \<Rightarrow> 'm node_answer" where
  "answer f r = (case r of Inl e \<Rightarrow> Failed e | Inr x \<Rightarrow> f x)"

text \<open>A client that makes one call after the other, whatever the answers are.\<close>

fun service_answers ::
    "('n \<Rightarrow> 's \<Rightarrow> ('s, exn, 'i) outcome) \<Rightarrow> (string \<Rightarrow> 's \<Rightarrow> ('s, exn, 'm option) outcome)
      \<Rightarrow> (string \<Rightarrow> 's \<Rightarrow> ('s, exn, bool) outcome) \<Rightarrow> 'n node_op list \<Rightarrow> 's \<Rightarrow> 'm node_answer list" where
  "service_answers create look delete [] s = []"
| "service_answers create look delete (CreateNode n # ops) s =
     (case create n s of (s', r) \<Rightarrow> answer (\<lambda>_. Created) r # service_answers create look delete ops s')"
| "service_answers create look delete (GetNode i # ops) s =
     (case look i s of (s', r) \<Rightarrow> answer Found r # service_answers create look delete ops s')"
| "service_answers create look delete (DeleteNode i # ops) s =
     (case delete i s of (s', r) \<Rightarrow> answer Deleted r # service_answers create look delete ops s')"

text \<open>
  The specification: \<open>kept\<close> is what is kept of a node, \<open>loaded\<close> reads it back. Then the sequences that create no id
  that is in use.
\<close>

fun node_map_answers ::
    "('n \<Rightarrow> string) \<Rightarrow> ('n \<Rightarrow> 'd) \<Rightarrow> ('d \<Rightarrow> 'm res) \<Rightarrow> 'n node_op list \<Rightarrow> (string \<rightharpoonup> 'd) \<Rightarrow> 'm node_answer list" where
  "node_map_answers ident kept loaded [] m = []"
| "node_map_answers ident kept loaded (CreateNode n # ops) m =
     Created # node_map_answers ident kept loaded ops (m(ident n \<mapsto> kept n))"
| "node_map_answers ident kept loaded (GetNode i # ops) m =
     (case m i of None \<Rightarrow> Found None | Some d \<Rightarrow> answer (Found \<circ> Some) (loaded d)) #
     node_map_answers ident kept loaded ops m"
| "node_map_answers ident kept loaded (DeleteNode i # ops) m =
     Deleted (m i \<noteq> None) # node_map_answers ident kept loaded ops (m(i := None))"

fun creates_fresh :: "('n \<Rightarrow> string) \<Rightarrow> ('n \<Rightarrow> bool) \<Rightarrow> 'n node_op list \<Rightarrow> string set \<Rightarrow> bool" where
  "creates_fresh ident good [] used \<longleftrightarrow> True"
| "creates_fresh ident good (CreateNode n # ops) used \<longleftrightarrow>
     good n \<and> ident n \<notin> used \<and> creates_fresh ident good ops (insert (ident n) used)"
| "creates_fresh ident good (GetNode i # ops) used \<longleftrightarrow> creates_fresh ident good ops used"
| "creates_fresh ident good (DeleteNode i # ops) used \<longleftrightarrow> creates_fresh ident good ops (used - {i})"

locale node_service =
  fixes inv :: "'s \<Rightarrow> bool"
    and good :: "'n \<Rightarrow> bool"
    and ident :: "'n \<Rightarrow> string"
    and kept :: "'n \<Rightarrow> 'd"
    and loaded :: "'d \<Rightarrow> 'm res"
    and stored :: "'s \<Rightarrow> string \<rightharpoonup> 'd"
    and create :: "'n \<Rightarrow> 's \<Rightarrow> ('s, exn, 'i) outcome"
    and look :: "string \<Rightarrow> 's \<Rightarrow> ('s, exn, 'm option) outcome"
    and delete :: "string \<Rightarrow> 's \<Rightarrow> ('s, exn, bool) outcome"
  assumes create_law: "\<lbrakk>inv s; good n; stored s (ident n) = None\<rbrakk> \<Longrightarrow>
      \<exists>s' x. create n s = (s', Inr x) \<and> inv s' \<and> stored s' = (stored s)(ident n \<mapsto> kept n)"
    and get_law: "inv s \<Longrightarrow>
      look i s = (s, case stored s i of None \<Rightarrow> Inr None | Some d \<Rightarrow> map_sum id Some (loaded d))"
    and delete_law: "inv s \<Longrightarrow>
      \<exists>s'. delete i s = (s', Inr (stored s i \<noteq> None)) \<and> inv s' \<and> stored s' = (stored s)(i := None)"
begin

lemma answer_found:
  "inv s \<Longrightarrow> answer Found (snd (look i s)) = (case stored s i of None \<Rightarrow> Found None | Some d \<Rightarrow> answer (Found \<circ> Some) (loaded d))"
  by (simp add: get_law answer_def split: option.split sum.split)

text \<open>An implementation answers as the map does.\<close>

lemma answers_as_map:
  assumes "inv s" "creates_fresh ident good ops (dom (stored s))"
  shows "service_answers create look delete ops s = node_map_answers ident kept loaded ops (stored s)"
  using assms
proof (induction ops arbitrary: s)
  case Nil
  then show ?case by simp
next
  case (Cons op ops)
  show ?case
  proof (cases op)
    case (CreateNode n)
    then have n: "good n" "stored s (ident n) = None" "creates_fresh ident good ops (insert (ident n) (dom (stored s)))"
      using Cons.prems(2) by auto
    obtain s' x where s': "create n s = (s', Inr x)" "inv s'" "stored s' = (stored s)(ident n \<mapsto> kept n)"
      using create_law [OF Cons.prems(1) n(1,2)] by blast
    have "service_answers create look delete ops s' = node_map_answers ident kept loaded ops (stored s')"
      by (rule Cons.IH [OF s'(2)]) (unfold s'(3) dom_fun_upd, simp add: n(3))
    with s'(1,3) CreateNode show ?thesis by (simp add: answer_def)
  next
    case (GetNode i)
    moreover have "fst (look i s) = s" using Cons.prems(1) by (simp add: get_law)
    ultimately show ?thesis using Cons answer_found [OF Cons.prems(1), of i] by (simp add: split_beta)
  next
    case (DeleteNode i)
    obtain s' where s': "delete i s = (s', Inr (stored s i \<noteq> None))" "inv s'" "stored s' = (stored s)(i := None)"
      using delete_law [OF Cons.prems(1)] by blast
    have "service_answers create look delete ops s' = node_map_answers ident kept loaded ops (stored s')"
      by (rule Cons.IH [OF s'(2)]) (unfold s'(3) dom_fun_upd, use Cons.prems(2) DeleteNode in simp)
    with s'(1,3) DeleteNode show ?thesis by (simp add: answer_def)
  qed
qed

end

section \<open>The service in memory\<close>

definition memory_create :: "proto_node \<Rightarrow> registry \<Rightarrow> (registry, exn, string) outcome" where
  "memory_create n r = (case create_node n r of (r', i) \<Rightarrow> (r', Inr i))"

definition memory_get :: "string \<Rightarrow> registry \<Rightarrow> (registry, exn, proto_node option) outcome" where
  "memory_get i r = (r, Inr (find_node r i))"

definition memory_delete :: "string \<Rightarrow> registry \<Rightarrow> (registry, exn, bool) outcome" where
  "memory_delete i r = (case delete_node i r of (r', b) \<Rightarrow> (r', Inr b))"

lemma delete_node_nodes:
  "map_of (nodes (fst (delete_node i r))) = (map_of (nodes r))(i := None) \<and> snd (delete_node i r) = (map_of (nodes r) i \<noteq> None)"
  by (auto simp: delete_node_def has_key_def Let_def delete_conv' split: option.splits)

interpretation memory: node_service "\<lambda>_. True" "\<lambda>_. True" pn_node_id "\<lambda>n. n" Inr "\<lambda>r. map_of (nodes r)"
    memory_create memory_get memory_delete
proof (unfold_locales, goal_cases)
  case (1 s n)
  then show ?case by (simp add: memory_create_def create_node_def update_conv')
next
  case (2 s i)
  then show ?case by (simp add: memory_get_def find_node_def split: option.split)
next
  case (3 s i)
  then show ?case using delete_node_nodes [of i s] by (simp add: memory_delete_def split_beta)
qed

section \<open>The service on Neo4j\<close>

definition delete_query :: string where
  "delete_query = ''MATCH (n:DataNode {node_id: $node_id}) DETACH DELETE n RETURN COUNT(n) AS deleted''"

text \<open>The documented meaning of the statement that deletes: it counts the nodes it found.\<close>

definition delete_law_holds :: "('s \<Rightarrow> string \<Rightarrow> (string, db_value) dict option) \<Rightarrow> 's neo4j_service \<Rightarrow> bool" where
  "delete_law_holds content sv \<longleftrightarrow>
     (\<forall>i s. \<exists>s'. neo_query sv delete_query [(''node_id'', DVal (PStr i))] s =
        (s', Inr [[(''deleted'', DVal (PInt (if content s i = None then 0 else 1)))]]) \<and>
        content s' = (content s)(i := None))"

text \<open>
  What the database keeps of a node, the properties that are not null, and how the service reads it back. A node is
  storable when its fields can be dumped as JSON.
\<close>

definition stored_fields :: "dumped_node \<Rightarrow> (string, db_value) dict" where
  "stored_fields n = filter (\<lambda>(k, v). v \<noteq> DVal PNone) (projr (node_properties n))"

definition read_node :: "((string, db_value) dict \<Rightarrow> 'm res) \<Rightarrow> (string, db_value) dict \<Rightarrow> 'm res" where
  "read_node validate d = db_error ''Invalid DataNode format: '' (parse_node validate (DProps d))"

definition storable :: "dumped_node \<Rightarrow> bool" where
  "storable n \<longleftrightarrow> is_ok (node_properties n)"

lemma read_stored:
  "storable n \<Longrightarrow> read_node validate (stored_fields n) = db_error ''Invalid DataNode format: '' (validate (reloaded n))"
  by (auto simp: storable_def is_ok_iff read_node_def stored_fields_def parse_stored(1))

lemma neo_delete_known:
  assumes "delete_law_holds content sv"
  shows "\<exists>s'. neo_delete_node sv i s = (s', Inr (content s i \<noteq> None)) \<and> content s' = (content s)(i := None)"
proof -
  obtain s' where "neo_query sv delete_query [(''node_id'', DVal (PStr i))] s =
      (s', Inr [[(''deleted'', DVal (PInt (if content s i = None then 0 else 1)))]])" "content s' = (content s)(i := None)"
    using assms unfolding delete_law_holds_def by blast
  then show ?thesis by (simp add: neo_delete_node_def delete_query_def int_column_def)
qed

interpretation neo: node_service "\<lambda>s. node_db_laws content sv \<and> delete_law_holds content sv"
    storable dm_id stored_fields "read_node validate" content
    "neo_create_node sv" "neo_get_node validate sv" "neo_delete_node sv" for content sv validate
proof (unfold_locales, goal_cases)
  case (1 s n)
  then obtain props where p: "node_properties n = Inr props" by (auto simp: storable_def is_ok_iff)
  obtain s' where s': "neo_query sv create_query props s = (s', Inr [[(''node_id'', DVal (PStr (dm_id n)))]])"
      "content s' = (content s)(dm_id n \<mapsto> filter (\<lambda>(k, v). v \<noteq> DVal PNone) props)"
    using 1 parse_stored(2) [OF p] unfolding node_db_laws_def by blast
  have "neo_create_node sv n s = (s', Inr (DVal (PStr (dm_id n))))"
    using 1 p s'(1) by (simp add: neo_create_node_def node_db_laws_def)
  with 1 s'(2) p show ?case by (simp add: stored_fields_def)
next
  case (2 s i)
  then have find: "neo_query sv find_query [(''node_id'', DVal (PStr i))] s =
      (s, Inr (case content s i of None \<Rightarrow> [] | Some d \<Rightarrow> [[(''n'', DProps d)]]))"
    by (simp add: node_db_laws_def)
  show ?case by (simp add: neo_get_node_def find read_node_def split: option.split)
next
  case (3 s i)
  with neo_delete_known [of content sv i s] show ?case by blast
qed

section \<open>The answers of the two services\<close>

text \<open>
  The nodes of the services are of different classes: \<open>dump_of\<close> gives the Neo4j service the node it gets in the place
  of one of the other service. It keeps the id, and its fields can be dumped as JSON.
\<close>

definition transfers :: "(proto_node \<Rightarrow> dumped_node) \<Rightarrow> proto_node \<Rightarrow> bool" where
  "transfers dump_of n \<longleftrightarrow> storable (dump_of n) \<and> dm_id (dump_of n) = pn_node_id n"

text \<open>The answer of Neo4j for one of the service in memory: a node that is found is what its stored values validate to.\<close>

fun read_back ::
    "((string, db_value) dict \<Rightarrow> 'm res) \<Rightarrow> (proto_node \<Rightarrow> dumped_node) \<Rightarrow> proto_node node_answer \<Rightarrow> 'm node_answer" where
  "read_back validate dump_of (Found (Some n)) =
     answer (Found \<circ> Some) (db_error ''Invalid DataNode format: '' (validate (reloaded (dump_of n))))"
| "read_back validate dump_of (Found None) = Found None"
| "read_back validate dump_of Created = Created"
| "read_back validate dump_of (Deleted b) = Deleted b"
| "read_back validate dump_of (Failed e) = Failed e"

text \<open>
  So the services disagree on a node whose data format is empty: it is stored as null, and \<open>data_format\<close> is a required
  field of \<open>DataNode\<close>.
\<close>

lemma empty_format_lost:
  assumes "\<And>d. map_of d ''data_format'' = None \<Longrightarrow> validate d = raises PydanticValidationError ''Field required''"
    and "\<not> py_truthy (dm_format (dump_of n))"
  shows "read_back validate dump_of (Found (Some n)) =
    Failed (exn_of DatabaseError ''Invalid DataNode format: Field required'')"
proof -
  have "map_of (reloaded (dump_of n)) ''data_format'' = None"
    using assms(2) by (simp add: reloaded_def split: option.split)
  then show ?thesis by (simp add: assms(1) db_error_def answer_def caught_iff exn_of_def)
qed

lemma creates_fresh_mapped:
  assumes "\<forall>op \<in> set ops. \<forall>n \<in> set_node_op op. good' (f n) \<and> ident' (f n) = ident n"
  shows "creates_fresh ident good ops used \<Longrightarrow> creates_fresh ident' good' (map (map_node_op f) ops) used"
  using assms by (induction ident good ops used rule: creates_fresh.induct) simp_all

lemma node_map_answers_mapped:
  assumes "\<forall>op \<in> set ops. \<forall>n \<in> set_node_op op. transfers dump_of n"
    and "\<forall>n \<in> ran m. transfers dump_of n"
  shows "node_map_answers dm_id stored_fields (read_node validate) (map (map_node_op dump_of) ops)
      (\<lambda>i. map_option (\<lambda>n. stored_fields (dump_of n)) (m i)) =
    map (read_back validate dump_of) (node_map_answers pn_node_id (\<lambda>n. n) Inr ops m)"
  using assms
proof (induction ops arbitrary: m)
  case Nil
  then show ?case by simp
next
  case (Cons op ops)
  show ?case
  proof (cases op)
    case (CreateNode n)
    then have n: "transfers dump_of n" "dm_id (dump_of n) = pn_node_id n" using Cons.prems(1) by (simp_all add: transfers_def)
    have upd: "(\<lambda>i. map_option (\<lambda>n. stored_fields (dump_of n)) (m i))(pn_node_id n \<mapsto> stored_fields (dump_of n)) =
        (\<lambda>i. map_option (\<lambda>n. stored_fields (dump_of n)) ((m(pn_node_id n \<mapsto> n)) i))"
      by auto
    have "\<forall>x \<in> ran (m(pn_node_id n \<mapsto> n)). transfers dump_of x"
      using n(1) Cons.prems(2) by (auto simp: ran_def split: if_splits)
    then show ?thesis using Cons.IH [of "m(pn_node_id n \<mapsto> n)"] Cons.prems(1) CreateNode n(2) upd by (simp del: fun_upd_apply)
  next
    case (GetNode i)
    have "answer (Found \<circ> Some) (read_node validate (stored_fields (dump_of n))) = read_back validate dump_of (Found (Some n))"
      if "m i = Some n" for n
    proof -
      have "storable (dump_of n)" using Cons.prems(2) that by (simp add: transfers_def ranI)
      then show ?thesis by (simp add: read_stored)
    qed
    then show ?thesis using Cons GetNode by (simp add: answer_def [of _ "Inr x" for x] split: option.split)
  next
    case (DeleteNode i)
    have upd: "(\<lambda>j. map_option (\<lambda>n. stored_fields (dump_of n)) (m j))(i := None) =
        (\<lambda>j. map_option (\<lambda>n. stored_fields (dump_of n)) ((m(i := None)) j))"
      by auto
    have "\<forall>x \<in> ran (m(i := None)). transfers dump_of x"
      using Cons.prems(2) by (auto simp: ran_def split: if_splits)
    then show ?thesis using Cons.IH [of "m(i := None)"] Cons.prems(1) DeleteNode upd by (simp del: fun_upd_apply)
  qed
qed

text \<open>
  C34: Start the service on Neo4j and the one in memory with the same nodes, and let a client make any sequence of
  creations, reads and deletions that creates no id that is in use. Then the services give the same answers, but for a
  node that is found: where the service in memory returns the node, the one on Neo4j returns what its stored values
  validate to, and raises \<open>DatabaseError\<close> where they do not. So they agree on the nodes that survive this and only on those;
  a node with an empty data format does not (\<open>empty_format_lost\<close>). The database does what is documented of
  the three statements, and the nodes' fields can be dumped as JSON.
\<close>

theorem node_services_agree:
  assumes "node_db_laws content sv" "delete_law_holds content sv"
    and "content s = (\<lambda>i. map_option (\<lambda>n. stored_fields (dump_of n)) (map_of (nodes r) i))"
    and "\<forall>n \<in> ran (map_of (nodes r)). transfers dump_of n"
    and "\<forall>op \<in> set ops. \<forall>n \<in> set_node_op op. transfers dump_of n"
    and "creates_fresh pn_node_id (\<lambda>_. True) ops (fst ` set (nodes r))"
  shows "service_answers (neo_create_node sv) (neo_get_node validate sv) (neo_delete_node sv) (map (map_node_op dump_of) ops) s =
    map (read_back validate dump_of) (service_answers memory_create memory_get memory_delete ops r)"
proof -
  have "dom (content s) = fst ` set (nodes r)"
    by (simp add: assms(3) dom_def dom_map_of_conv_image_fst [symmetric])
  moreover have "creates_fresh dm_id storable (map (map_node_op dump_of) ops) (fst ` set (nodes r))"
    by (rule creates_fresh_mapped [OF _ assms(6)]) (use assms(5) in \<open>auto simp: transfers_def\<close>)
  ultimately have "service_answers (neo_create_node sv) (neo_get_node validate sv) (neo_delete_node sv)
      (map (map_node_op dump_of) ops) s =
      node_map_answers dm_id stored_fields (read_node validate) (map (map_node_op dump_of) ops) (content s)"
    using assms(1,2) by (intro neo.answers_as_map) simp_all
  also have "\<dots> = map (read_back validate dump_of) (node_map_answers pn_node_id (\<lambda>n. n) Inr ops (map_of (nodes r)))"
    unfolding assms(3) by (rule node_map_answers_mapped [OF assms(5,4)])
  also have "node_map_answers pn_node_id (\<lambda>n. n) Inr ops (map_of (nodes r)) =
      service_answers memory_create memory_get memory_delete ops r"
    by (rule memory.answers_as_map [symmetric]) (simp_all add: assms(6) dom_map_of_conv_image_fst)
  finally show ?thesis .
qed

text \<open>A database that behaves as documented.\<close>

type_synonym demo_content = "string \<Rightarrow> (string, db_value) dict option"

definition node_driver :: "demo_content driver" where
  "node_driver =
     \<lparr>drv_run = (\<lambda>q ps db s.
        if q = find_query then
          (s, Inr (case s (key_of ps) of None \<Rightarrow> [] | Some d \<Rightarrow> [[(''n'', DProps d)]]))
        else if q = create_query then
          (s(key_of ps \<mapsto> filter (\<lambda>(k, v). v \<noteq> DVal PNone) ps), Inr [[(''node_id'', DVal (PStr (key_of ps)))]])
        else if q = delete_query then
          (s(key_of ps := None), Inr [[(''deleted'', DVal (PInt (if s (key_of ps) = None then 0 else 1)))]])
        else (s, Inr [])),
      drv_write = (\<lambda>work db s. work s)\<rparr>"

definition node_demo :: "demo_content neo4j_service" where
  "node_demo = \<lparr>ns_driver = node_driver, ns_database = None\<rparr>"

lemma node_demo_laws: "node_db_laws (\<lambda>s. s) node_demo" "delete_law_holds (\<lambda>s. s) node_demo"
proof -
  have q: "create_query \<noteq> find_query" "delete_query \<noteq> find_query" "delete_query \<noteq> create_query"
    by (simp_all add: create_query_def find_query_def delete_query_def)
  show "node_db_laws (\<lambda>s. s) node_demo"
    by (simp add: node_db_laws_def neo_query_def execute_query_def node_demo_def node_driver_def key_of_def q)
  show "delete_law_holds (\<lambda>s. s) node_demo"
    by (simp add: delete_law_holds_def neo_query_def execute_query_def node_demo_def node_driver_def key_of_def q)
qed

text \<open>
  Two nodes, one with a data format and one without, and a validation that requires the field. What is read back is the
  list of the fields.
\<close>

definition plain_proto :: "string \<Rightarrow> (string, string) dict \<Rightarrow> proto_node" where
  "plain_proto i fmt = \<lparr>pn_node_id = i, pn_type = '''', pn_data_format = fmt, pn_params = [], pn_dependencies = [], pn_ttl = None,
     pn_predefined = [], pn_custom = [], pn_interval = 0, pn_period = 0\<rparr>"

definition plain_dumped :: "proto_node \<Rightarrow> dumped_node" where
  "plain_dumped n = \<lparr>dm_id = pn_node_id n, dm_type = None, dm_format = PDict (map (\<lambda>(k, v). (k, PStr v)) (pn_data_format n)),
     dm_params = PNone, dm_dependencies = [], dm_ttl = None, dm_tags = None, dm_interval = None, dm_stream = None\<rparr>"

definition needs_format :: "(string, db_value) dict \<Rightarrow> string list res" where
  "needs_format d = (if map_of d ''data_format'' = None then raises PydanticValidationError ''Field required'' else Inr (map fst d))"

definition csv_node :: proto_node where
  "csv_node = plain_proto ''a'' [(''type'', ''csv'')]"

definition bare_node :: proto_node where
  "bare_node = plain_proto ''b'' []"

lemma demo_transfers: "transfers plain_dumped csv_node" "transfers plain_dumped bare_node"
  by (simp_all add: transfers_def storable_def node_properties_def plain_dumped_def csv_node_def bare_node_def plain_proto_def
      dump_def dump_truthy_def json_dumps_def or_py_none_def)

definition demo_ops :: "proto_node node_op list" where
  "demo_ops = [CreateNode csv_node, CreateNode bare_node, GetNode ''a'', GetNode ''b'', GetNode ''c'', DeleteNode ''b'', GetNode ''b'',
     DeleteNode ''c'']"

lemma demo_ops_memory:
  "service_answers memory_create memory_get memory_delete demo_ops empty_registry =
   [Created, Created, Found (Some csv_node), Found (Some bare_node), Found None, Deleted True, Found None, Deleted False]"
  by code_simp

theorem node_services_agree_witness:
  "service_answers (neo_create_node node_demo) (neo_get_node needs_format node_demo) (neo_delete_node node_demo)
     (map (map_node_op plain_dumped) demo_ops) (\<lambda>_. None) =
   [Created, Created,
    Found (Some [''node_id'', ''data_format'', ''dependencies'', ''tags'', ''interval_settings'', ''stream_settings'']),
    Failed (exn_of DatabaseError ''Invalid DataNode format: Field required''), Found None, Deleted True, Found None, Deleted False]"
proof -
  have "service_answers (neo_create_node node_demo) (neo_get_node needs_format node_demo) (neo_delete_node node_demo)
      (map (map_node_op plain_dumped) demo_ops) (\<lambda>_. None) =
    map (read_back needs_format plain_dumped) (service_answers memory_create memory_get memory_delete demo_ops empty_registry)"
    by (rule node_services_agree [OF node_demo_laws])
      (use demo_transfers in \<open>auto simp: empty_registry_def demo_ops_def csv_node_def bare_node_def plain_proto_def\<close>)
  moreover have "read_back needs_format plain_dumped (Found (Some bare_node)) =
      Failed (exn_of DatabaseError ''Invalid DataNode format: Field required'')"
    by (rule empty_format_lost) (simp_all add: needs_format_def plain_dumped_def bare_node_def plain_proto_def)
  moreover have "read_back needs_format plain_dumped (Found (Some csv_node)) =
      Found (Some [''node_id'', ''data_format'', ''dependencies'', ''tags'', ''interval_settings'', ''stream_settings''])"
    by (simp add: needs_format_def plain_dumped_def csv_node_def plain_proto_def reloaded_def answer_def)
  ultimately show ?thesis by (simp add: demo_ops_memory)
qed

end
