(* ===== verification/Events.thy ===== *)
theory Events
  imports RegistryApi "HOL-Library.Sublist"
begin

text \<open>
  The subscribers of status events (\<open>dag_manager/event_client.py\<close>, \<open>EventSubscriber\<close> of
  \<open>registry/services/event.py\<close>), to which \<open>EventPublisher\<close> of RegistryApi publishes.

  Redis and redis-py are parameters: \<open>bus_subscribe\<close> is \<open>pubsub.subscribe(**handlers)\<close> on the
  \<open>PubSub\<close> object of a client, \<open>bus_run\<close> is its \<open>run_in_thread()\<close> and \<open>bus_publish\<close> the \<open>PUBLISH\<close>
  command. Delivery is a matter of its own: \<open>bus_work\<close> is a step of a client's worker thread and
  \<open>bus_lose\<close> a failure of its connection. The clients are numbered. \<open>parse\<close> is \<open>ParseFromString\<close> of the message class of the kind. A handler
  acts on the state of the subscribing application.
\<close>

datatype event_kind = NodeStatusEvent | PipelineStatusEvent | AlertEvent

record bus_message =
  bm_type :: string
  bm_channel :: string
  bm_data :: string

type_synonym 'a handler = "bus_message \<Rightarrow> 'a \<Rightarrow> ('a, exn, unit) outcome"
type_synonym 'a event_callback = "event \<Rightarrow> 'a \<Rightarrow> ('a, exn, unit) outcome"

record ('a, 'w) bus =
  bus_subscribe :: "nat \<Rightarrow> (string, 'a handler) dict \<Rightarrow> 'w \<Rightarrow> ('w, exn, unit) outcome"
  bus_run :: "nat \<Rightarrow> 'w \<Rightarrow> ('w, exn, unit) outcome"
  bus_publish :: "string \<Rightarrow> string \<Rightarrow> 'w \<Rightarrow> 'w"
  bus_work :: "nat \<Rightarrow> 'w \<Rightarrow> 'w"
  bus_lose :: "nat \<Rightarrow> 'w \<Rightarrow> 'w"

section \<open>Building the messages\<close>

text \<open>
  \<open>node_status_to_proto\<close> and \<open>pipeline_status_to_proto\<close> of \<open>models/status.py\<close>. The time field has 64
  bits, which the protobuf runtime checks; \<open>str_of\<close> is \<open>str\<close>.
\<close>

record status_msg =
  st_kind :: event_kind
  st_target :: string
  st_status :: string
  st_timestamp :: int
  st_meta :: "(string, string) dict"

definition status_to_proto ::
    "event_kind \<Rightarrow> (pyval \<Rightarrow> string) \<Rightarrow> string \<Rightarrow> string \<Rightarrow> int \<Rightarrow> (string, pyval) dict option \<Rightarrow> status_msg res" where
  "status_to_proto k str_of target status timestamp meta =
     (if timestamp < - (2 ^ 63) \<or> 2 ^ 63 \<le> timestamp then raises ValueError ''Value out of range''
      else Inr \<lparr>st_kind = k, st_target = target, st_status = status, st_timestamp = timestamp,
                st_meta = (case meta of None \<Rightarrow> [] | Some d \<Rightarrow> fold (\<lambda>(k, v). AList.update k (str_of v)) d [])\<rparr>)"

definition node_status_to_proto ::
    "(pyval \<Rightarrow> string) \<Rightarrow> string \<Rightarrow> string \<Rightarrow> int \<Rightarrow> (string, pyval) dict option \<Rightarrow> status_msg res" where
  "node_status_to_proto = status_to_proto NodeStatusEvent"

definition pipeline_status_to_proto ::
    "(pyval \<Rightarrow> string) \<Rightarrow> string \<Rightarrow> string \<Rightarrow> int \<Rightarrow> (string, pyval) dict option \<Rightarrow> status_msg res" where
  "pipeline_status_to_proto = status_to_proto PipelineStatusEvent"

text \<open>Every entry of \<open>meta\<close> arrives as text under its own key.\<close>

lemma map_of_fold_text:
  "distinct (map fst d) \<Longrightarrow>
   map_of (fold (\<lambda>(k, v). AList.update k (str_of v)) d acc) k =
     (case map_of d k of None \<Rightarrow> map_of acc k | Some v \<Rightarrow> Some (str_of v))"
proof (induction d arbitrary: acc)
  case (Cons e d)
  obtain j v where e: "e = (j, v)" by (cases e)
  then have "map_of d j = None" using Cons.prems by (simp add: map_of_eq_None_iff)
  then show ?case using Cons.IH Cons.prems by (cases "k = j") (simp_all add: e update_conv split: option.split)
qed simp

lemma status_to_proto_meta:
  assumes "status_to_proto k str_of target status timestamp (Some d) = Inr m" "distinct (map fst d)"
  shows "map_of (st_meta m) key = map_option str_of (map_of d key)"
  using assms(1) map_of_fold_text [OF assms(2), of str_of "[]" key]
  by (auto simp: status_to_proto_def split: if_splits option.splits)

section \<open>Subscribing\<close>

definition protobuf_callback ::
    "(event_kind \<Rightarrow> string \<Rightarrow> event res) \<Rightarrow> event_kind \<Rightarrow> 'a event_callback \<Rightarrow> 'a handler" where
  "protobuf_callback parse k callback msg a =
     (if bm_type msg = ''message''
      then (case parse k (bm_data msg) of
              Inl e \<Rightarrow> (a, Inl e)
            | Inr ev \<Rightarrow> callback ev a)
      else (a, Inr ()))"

text \<open>\<open>self.pubsub.subscribe(**handlers)\<close> and \<open>self.pubsub.run_in_thread(sleep_time=0.1)\<close>.\<close>

definition subscribe_and_run ::
    "('a, 'w) bus \<Rightarrow> nat \<Rightarrow> (string, 'a handler) dict \<Rightarrow> 'w \<Rightarrow> ('w, exn, unit) outcome" where
  "subscribe_and_run bus c hs w = and_then (bus_subscribe bus c hs w) (\<lambda>_. bus_run bus c)"

definition subscribe_node_status ::
    "('a, 'w) bus \<Rightarrow> (event_kind \<Rightarrow> string \<Rightarrow> event res) \<Rightarrow> nat \<Rightarrow> string \<Rightarrow> 'a event_callback
     \<Rightarrow> 'w \<Rightarrow> ('w, exn, unit) outcome" where
  "subscribe_node_status bus parse c nid callback =
     subscribe_and_run bus c [(''event:node:'' @ nid, protobuf_callback parse NodeStatusEvent callback)]"

definition subscribe_pipeline_status ::
    "('a, 'w) bus \<Rightarrow> (event_kind \<Rightarrow> string \<Rightarrow> event res) \<Rightarrow> nat \<Rightarrow> string \<Rightarrow> 'a event_callback
     \<Rightarrow> 'w \<Rightarrow> ('w, exn, unit) outcome" where
  "subscribe_pipeline_status bus parse c pid callback =
     subscribe_and_run bus c
       [(''event:pipeline:'' @ pid, protobuf_callback parse PipelineStatusEvent callback)]"

definition subscribe_alerts ::
    "('a, 'w) bus \<Rightarrow> (event_kind \<Rightarrow> string \<Rightarrow> event res) \<Rightarrow> nat \<Rightarrow> string \<Rightarrow> 'a event_callback
     \<Rightarrow> 'w \<Rightarrow> ('w, exn, unit) outcome" where
  "subscribe_alerts bus parse c target callback =
     subscribe_and_run bus c [(''event:alert:'' @ target, protobuf_callback parse AlertEvent callback)]"

text \<open>\<open>EventSubscriber.subscribe\<close>: one name or a list of names, and the raw message for the callback.\<close>

definition raw_subscribe ::
    "('a, 'w) bus \<Rightarrow> nat \<Rightarrow> string + string list \<Rightarrow> 'a handler \<Rightarrow> 'w \<Rightarrow> ('w, exn, unit) outcome" where
  "raw_subscribe bus c channels callback =
     subscribe_and_run bus c
       (fold (\<lambda>ch. AList.update ch callback) (case channels of Inl ch \<Rightarrow> [ch] | Inr chs \<Rightarrow> chs) [])"

section \<open>Subscriptions and publications of every kind\<close>

fun subscribe_status ::
    "('a, 'w) bus \<Rightarrow> (event_kind \<Rightarrow> string \<Rightarrow> event res) \<Rightarrow> event_kind \<Rightarrow> nat \<Rightarrow> string
     \<Rightarrow> 'a event_callback \<Rightarrow> 'w \<Rightarrow> ('w, exn, unit) outcome" where
  "subscribe_status bus parse NodeStatusEvent = subscribe_node_status bus parse"
| "subscribe_status bus parse PipelineStatusEvent = subscribe_pipeline_status bus parse"
| "subscribe_status bus parse AlertEvent = subscribe_alerts bus parse"

fun publish_status :: "(string \<Rightarrow> string \<Rightarrow> 's \<Rightarrow> 's) \<Rightarrow> event_kind \<Rightarrow> event \<Rightarrow> 's \<Rightarrow> ('s, exn, unit) outcome" where
  "publish_status publish NodeStatusEvent = publish_node_status publish"
| "publish_status publish PipelineStatusEvent = publish_pipeline_status publish"
| "publish_status publish AlertEvent = publish_alert publish"

section \<open>The channels\<close>

fun prefix_of :: "event_kind \<Rightarrow> string" where
  "prefix_of NodeStatusEvent = ''event:node:''"
| "prefix_of PipelineStatusEvent = ''event:pipeline:''"
| "prefix_of AlertEvent = ''event:alert:''"

fun shared_channel :: "event_kind \<Rightarrow> string" where
  "shared_channel NodeStatusEvent = ''event:node_status''"
| "shared_channel PipelineStatusEvent = ''event:pipeline_status''"
| "shared_channel AlertEvent = ''event:alert''"

lemma channel_inject [simp]: "prefix_of k @ i = prefix_of k' @ i' \<longleftrightarrow> k = k' \<and> i = i'"
  by (cases k; cases k') simp_all

lemma channel_not_shared [simp]:
  "prefix_of k @ i \<noteq> shared_channel k'" "shared_channel k' \<noteq> prefix_of k @ i"
  by (cases k; cases k'; simp)+

lemma subscribe_status_run:
  "subscribe_status bus parse k c i cb =
    subscribe_and_run bus c [(prefix_of k @ i, protobuf_callback parse k cb)]"
  by (cases k) (simp_all add: fun_eq_iff subscribe_node_status_def subscribe_pipeline_status_def subscribe_alerts_def)

lemma publish_status_event:
  "publish_status publish k = publish_event publish (prefix_of k) (shared_channel k)"
  by (cases k) (simp_all add: fun_eq_iff publish_node_status_def publish_pipeline_status_def publish_alert_def)

section \<open>Delivery\<close>

text \<open>
  What Redis and redis-py document. \<open>subscribe\<close> adds the handlers, the last one of a channel wins, and
  \<open>run_in_thread\<close> starts one more worker thread. A published message is sent to each client that has
  subscribed its channel at that time, to no other, and is not kept anywhere else: a failing connection loses
  messages for good, so that delivery is at most once. The worker of a client hands the messages over in
  the order they came, each to the handler of its channel, and ends when a handler raises. A \<open>PubSub\<close> object is not
  safe for threads, so that handlers may be added only before a worker runs, and nothing is promised of the
  messages of a client with several workers.

  The view shows the handlers of each client, how many workers it has started (one that has ended does nothing), the messages sent to it that its worker has not
  taken yet, and the state of the application, on which the handlers act.
\<close>

record ('a, 'w) bus_view =
  handlers :: "'w \<Rightarrow> nat \<Rightarrow> string \<Rightarrow> 'a handler option"
  workers :: "'w \<Rightarrow> nat \<Rightarrow> nat"
  inbox :: "'w \<Rightarrow> nat \<Rightarrow> bus_message list"
  app :: "'w \<Rightarrow> 'a"

definition message_on :: "string \<Rightarrow> string \<Rightarrow> bus_message" where
  "message_on ch d = \<lparr>bm_type = ''message'', bm_channel = ch, bm_data = d\<rparr>"

definition run_handler :: "(string \<Rightarrow> 'a handler option) \<Rightarrow> bus_message \<Rightarrow> 'a \<Rightarrow> 'a" where
  "run_handler hs m a = (case hs (bm_channel m) of None \<Rightarrow> a | Some h \<Rightarrow> fst (h m a))"

definition same_but_messages :: "('a, 'w) bus_view \<Rightarrow> 'w \<Rightarrow> 'w \<Rightarrow> bool" where
  "same_but_messages v w w' \<longleftrightarrow> handlers v w' = handlers v w \<and> workers v w' = workers v w"

definition subscribe_law :: "('a, 'w) bus \<Rightarrow> ('a, 'w) bus_view \<Rightarrow> bool" where
  "subscribe_law bus v \<longleftrightarrow> (\<forall>c hs w w'. bus_subscribe bus c hs w = (w', Inr ()) \<longrightarrow>
     workers v w' = workers v w \<and>
     (workers v w c = 0 \<longrightarrow>
        handlers v w' = (handlers v w)(c := handlers v w c ++ map_of hs) \<and>
        inbox v w' = inbox v w \<and> app v w' = app v w))"

definition run_law :: "('a, 'w) bus \<Rightarrow> ('a, 'w) bus_view \<Rightarrow> bool" where
  "run_law bus v \<longleftrightarrow> (\<forall>c w w'. bus_run bus c w = (w', Inr ()) \<longrightarrow>
     workers v w' = (workers v w)(c := Suc (workers v w c)) \<and> handlers v w' = handlers v w \<and>
     inbox v w' = inbox v w \<and> app v w' = app v w)"

definition publish_law :: "('a, 'w) bus \<Rightarrow> ('a, 'w) bus_view \<Rightarrow> bool" where
  "publish_law bus v \<longleftrightarrow> (\<forall>ch d w. let w' = bus_publish bus ch d w in
     same_but_messages v w w' \<and> app v w' = app v w \<and>
     (\<forall>c. inbox v w' c = inbox v w c @ (if handlers v w c ch = None then [] else [message_on ch d])))"

definition work_law :: "('a, 'w) bus \<Rightarrow> ('a, 'w) bus_view \<Rightarrow> bool" where
  "work_law bus v \<longleftrightarrow> (\<forall>c w. let w' = bus_work bus c w in
     (workers v w c = 0 \<longrightarrow> w' = w) \<and>
     (workers v w c = 1 \<longrightarrow> same_but_messages v w w' \<and>
        (inbox v w' = inbox v w \<and> app v w' = app v w \<or>
         (\<exists>m ms. inbox v w c = m # ms \<and> inbox v w' = (inbox v w)(c := ms) \<and>
            app v w' = run_handler (handlers v w c) m (app v w)))))"

definition lose_law :: "('a, 'w) bus \<Rightarrow> ('a, 'w) bus_view \<Rightarrow> bool" where
  "lose_law bus v \<longleftrightarrow> (\<forall>c w. let w' = bus_lose bus c w in
     same_but_messages v w w' \<and> app v w' = app v w \<and>
     subseq (inbox v w' c) (inbox v w c) \<and> (\<forall>c'. c' \<noteq> c \<longrightarrow> inbox v w' c' = inbox v w c'))"

definition bus_laws :: "('a, 'w) bus \<Rightarrow> ('a, 'w) bus_view \<Rightarrow> bool" where
  "bus_laws bus v \<longleftrightarrow>
     subscribe_law bus v \<and> run_law bus v \<and> publish_law bus v \<and> work_law bus v \<and> lose_law bus v"

lemma bus_subscribes:
  assumes "bus_laws bus v" "bus_subscribe bus c hs w = (w', Inr ())"
  shows "workers v w' = workers v w"
    and "workers v w c = 0 \<Longrightarrow> handlers v w' = (handlers v w)(c := handlers v w c ++ map_of hs) \<and>
      inbox v w' = inbox v w \<and> app v w' = app v w"
  using assms by (auto simp: bus_laws_def subscribe_law_def)

lemma bus_runs:
  assumes "bus_laws bus v" "bus_run bus c w = (w', Inr ())"
  shows "workers v w' = (workers v w)(c := Suc (workers v w c)) \<and> handlers v w' = handlers v w \<and>
      inbox v w' = inbox v w \<and> app v w' = app v w"
  using assms by (simp add: bus_laws_def run_law_def)

lemma bus_publishes:
  assumes "bus_laws bus v"
  shows "same_but_messages v w (bus_publish bus ch d w)" "app v (bus_publish bus ch d w) = app v w"
    and "inbox v (bus_publish bus ch d w) c =
      inbox v w c @ (if handlers v w c ch = None then [] else [message_on ch d])"
  using assms by (simp_all add: bus_laws_def publish_law_def Let_def)

lemma bus_works:
  assumes "bus_laws bus v"
  shows "workers v w c = 0 \<Longrightarrow> bus_work bus c w = w"
    and "workers v w c = 1 \<Longrightarrow> same_but_messages v w (bus_work bus c w) \<and>
      (inbox v (bus_work bus c w) = inbox v w \<and> app v (bus_work bus c w) = app v w \<or>
       (\<exists>m ms. inbox v w c = m # ms \<and> inbox v (bus_work bus c w) = (inbox v w)(c := ms) \<and>
          app v (bus_work bus c w) = run_handler (handlers v w c) m (app v w)))"
  using assms by (simp_all add: bus_laws_def work_law_def Let_def)

lemma bus_loses:
  assumes "bus_laws bus v"
  shows "same_but_messages v w (bus_lose bus c w)" "app v (bus_lose bus c w) = app v w"
    "subseq (inbox v (bus_lose bus c w) c) (inbox v w c)"
    "c' \<noteq> c \<Longrightarrow> inbox v (bus_lose bus c w) c' = inbox v w c'"
  using assms by (simp_all add: bus_laws_def lose_law_def Let_def)

text \<open>A second subscription of one client starts a second worker on the same \<open>PubSub\<close>.\<close>

lemma second_subscription_shares_pubsub:
  assumes "bus_laws bus v" "workers v w c = 0"
    and "subscribe_status bus parse k c i cb w = (w1, Inr ())"
    and "subscribe_status bus parse k' c i' cb' w1 = (w2, Inr ())"
  shows "workers v w2 c = 2"
proof -
  have "workers v w' c = Suc (workers v w c)"
    if run: "subscribe_status bus parse k c i cb w = (w', Inr ())" for w w' k i cb
  proof -
    obtain u where "bus_subscribe bus c [(prefix_of k @ i, protobuf_callback parse k cb)] w = (u, Inr ())"
        "bus_run bus c u = (w', Inr ())"
      using run by (auto simp: subscribe_status_run subscribe_and_run_def and_then_def split: prod.splits sum.splits)
    then show ?thesis using bus_subscribes(1) [OF assms(1)] bus_runs [OF assms(1)] by (metis fun_upd_same)
  qed
  from this [OF assms(3)] this [OF assms(4)] assms(2) show ?thesis by simp
qed

section \<open>Who receives what\<close>

text \<open>
  The things that happen: a client subscribes, an event is published (a publication that raises does not stop
  the next), the worker of a client makes a step, a connection fails.
\<close>

datatype 'a bus_action =
    Subscribed nat event_kind string "'a event_callback"
  | Published event_kind event
  | Worked nat
  | Lost nat

fun bus_act ::
    "('a, 'w) bus \<Rightarrow> (event_kind \<Rightarrow> string \<Rightarrow> event res) \<Rightarrow> 'a bus_action \<Rightarrow> 'w \<Rightarrow> 'w option" where
  "bus_act bus parse (Subscribed c k i cb) w =
     (case subscribe_status bus parse k c i cb w of (w', Inl _) \<Rightarrow> None | (w', Inr _) \<Rightarrow> Some w')"
| "bus_act bus parse (Published k ev) w = Some (fst (publish_status (bus_publish bus) k ev w))"
| "bus_act bus parse (Worked c) w = Some (bus_work bus c w)"
| "bus_act bus parse (Lost c) w = Some (bus_lose bus c w)"

fun bus_acts ::
    "('a, 'w) bus \<Rightarrow> (event_kind \<Rightarrow> string \<Rightarrow> event res) \<Rightarrow> 'a bus_action list \<Rightarrow> 'w \<Rightarrow> 'w option" where
  "bus_acts bus parse [] w = Some w"
| "bus_acts bus parse (a # as) w =
     (case bus_act bus parse a w of None \<Rightarrow> None | Some w' \<Rightarrow> bus_acts bus parse as w')"

type_synonym 'a subscriptions = "(nat, event_kind \<times> string \<times> 'a event_callback) dict"

fun subscribed :: "'a bus_action list \<Rightarrow> 'a subscriptions" where
  "subscribed [] = []"
| "subscribed (Subscribed c k i cb # as) = (c, k, i, cb) # subscribed as"
| "subscribed (_ # as) = subscribed as"

text \<open>
  The specification. To a client that has subscribed a kind and a target are addressed the protobuf events of
  that kind and target that are published afterwards, as its message class reads them; nothing else is.
\<close>

fun event_for ::
    "(event_kind \<Rightarrow> string \<Rightarrow> event res) \<Rightarrow> (event_kind \<times> string \<times> 'a event_callback) option \<Rightarrow> event_kind \<Rightarrow> event
      \<Rightarrow> event list" where
  "event_for parse (Some (k, i, cb)) k' (ProtoEvent i' d) =
     (if k' = k \<and> i' = i then (case parse k d of Inl _ \<Rightarrow> [] | Inr ev \<Rightarrow> [ev]) else [])"
| "event_for parse _ _ _ = []"

fun addressed ::
    "(event_kind \<Rightarrow> string \<Rightarrow> event res) \<Rightarrow> nat \<Rightarrow> (event_kind \<times> string \<times> 'a event_callback) option
      \<Rightarrow> 'a bus_action list \<Rightarrow> event list" where
  "addressed parse c s [] = []"
| "addressed parse c s (Subscribed c' k i cb # as) =
     addressed parse c (if c' = c then Some (k, i, cb) else s) as"
| "addressed parse c s (Published k ev # as) = event_for parse s k ev @ addressed parse c s as"
| "addressed parse c s (_ # as) = addressed parse c s as"

text \<open>A call is the client whose callback is called and the event it gets.\<close>

definition call :: "(nat \<Rightarrow> (event_kind \<times> string \<times> 'a event_callback) option) \<Rightarrow> nat \<times> event \<Rightarrow> 'a \<Rightarrow> 'a" where
  "call subs x a = (case subs (fst x) of None \<Rightarrow> a | Some (k, i, cb) \<Rightarrow> fst (cb (snd x) a))"

definition got :: "nat \<Rightarrow> (nat \<times> event) list \<Rightarrow> event list" where
  "got c cs = map snd (filter (\<lambda>x. fst x = c) cs)"

lemma got_simps [simp]:
  "got c [] = []"
  "got c ((c', ev) # cs) = (if c' = c then ev # got c cs else got c cs)"
  by (simp_all add: got_def)

text \<open>What a worker will read of the messages that wait.\<close>

fun waiting_events ::
    "(event_kind \<Rightarrow> string \<Rightarrow> event res) \<Rightarrow> (event_kind \<times> string \<times> 'a event_callback) option
      \<Rightarrow> bus_message list \<Rightarrow> event list" where
  "waiting_events parse (Some (k, i, cb)) (m # ms) =
     (case parse k (bm_data m) of Inl _ \<Rightarrow> [] | Inr ev \<Rightarrow> [ev]) @ waiting_events parse (Some (k, i, cb)) ms"
| "waiting_events parse _ _ = []"

lemma waiting_append: "waiting_events parse s (ms @ ms') = waiting_events parse s ms @ waiting_events parse s ms'"
  by (induction parse s ms rule: waiting_events.induct) auto

lemma waiting_subseq: "subseq ms ms' \<Longrightarrow> subseq (waiting_events parse s ms) (waiting_events parse s ms')"
proof (induction rule: list_emb.induct)
  case (list_emb_Nil ys)
  then show ?case by (cases s) auto
next
  case (list_emb_Cons xs ys y)
  then show ?case by (cases s) (auto intro: list_emb_append2)
next
  case (list_emb_Cons2 x y xs ys)
  then show ?case by (cases s) (auto intro: list_emb_append_mono split: sum.split)
qed

lemma set_subseq: "subseq xs ys \<Longrightarrow> set xs \<subseteq> set ys"
  by (induction rule: list_emb.induct) auto

text \<open>Each client has the handler it asked for and one worker, and waits for messages of its channel only.\<close>

definition served ::
    "('a, 'w) bus_view \<Rightarrow> (event_kind \<Rightarrow> string \<Rightarrow> event res)
      \<Rightarrow> (event_kind \<times> string \<times> 'a event_callback) option \<Rightarrow> 'w \<Rightarrow> nat \<Rightarrow> bool" where
  "served v parse s w c \<longleftrightarrow> (case s of
       None \<Rightarrow> handlers v w c = Map.empty \<and> workers v w c = 0 \<and> inbox v w c = []
     | Some (k, i, cb) \<Rightarrow> handlers v w c = [prefix_of k @ i \<mapsto> protobuf_callback parse k cb] \<and> workers v w c = 1 \<and>
         (\<forall>m \<in> set (inbox v w c). bm_type m = ''message'' \<and> bm_channel m = prefix_of k @ i))"

definition serves ::
    "('a, 'w) bus_view \<Rightarrow> (event_kind \<Rightarrow> string \<Rightarrow> event res)
      \<Rightarrow> (nat \<Rightarrow> (event_kind \<times> string \<times> 'a event_callback) option) \<Rightarrow> 'w \<Rightarrow> bool" where
  "serves v parse subs w \<longleftrightarrow> (\<forall>c. served v parse (subs c) w c)"

lemma serves_same:
  assumes "serves v parse subs w" "same_but_messages v w w'" "\<forall>c. set (inbox v w' c) \<subseteq> set (inbox v w c)"
  shows "serves v parse subs w'"
  unfolding serves_def
proof
  fix c
  have "served v parse (subs c) w c" using assms(1) by (simp add: serves_def)
  then show "served v parse (subs c) w' c"
    using assms(2) assms(3) [rule_format, of c]
    by (cases "subs c") (auto simp: served_def same_but_messages_def)
qed

text \<open>Each action keeps that invariant, and what its callbacks get is what was waiting or is addressed to the clients.\<close>

definition delivered ::
    "('a, 'w) bus_view \<Rightarrow> (event_kind \<Rightarrow> string \<Rightarrow> event res)
      \<Rightarrow> (nat \<Rightarrow> (event_kind \<times> string \<times> 'a event_callback) option) \<Rightarrow> 'a bus_action list \<Rightarrow> 'w \<Rightarrow> 'w
      \<Rightarrow> (nat \<Rightarrow> (event_kind \<times> string \<times> 'a event_callback) option) \<Rightarrow> (nat \<times> event) list \<Rightarrow> bool" where
  "delivered v parse subs as w w' subs' cs \<longleftrightarrow> app v w' = fold (call subs') cs (app v w) \<and>
     (\<forall>c. let sent = waiting_events parse (subs c) (inbox v w c) @ addressed parse c (subs c) as in
        subseq (got c cs) sent \<and> (Lost c \<notin> set as \<longrightarrow> inbox v w' c = [] \<longrightarrow> got c cs = sent))"

lemma subscribed_step:
  assumes laws: "bus_laws bus v" and serves: "serves v parse subs w" and fresh: "subs c = None"
    and ok: "subscribe_status bus parse k c i cb w = (w', Inr ())"
  shows "serves v parse (subs(c \<mapsto> (k, i, cb))) w' \<and> app v w' = app v w \<and> inbox v w' = inbox v w"
proof -
  obtain w1 where w1: "bus_subscribe bus c [(prefix_of k @ i, protobuf_callback parse k cb)] w = (w1, Inr ())"
      "bus_run bus c w1 = (w', Inr ())"
    using ok by (auto simp: subscribe_status_run subscribe_and_run_def and_then_def split: prod.splits sum.splits)
  have c: "handlers v w c = Map.empty" "workers v w c = 0" "inbox v w c = []"
    using serves [unfolded serves_def served_def, rule_format, of c] fresh by simp_all
  from bus_subscribes [OF laws w1(1)] bus_runs [OF laws w1(2)]
  have w': "workers v w' = (workers v w)(c := 1)" "app v w' = app v w" "inbox v w' = inbox v w"
      "handlers v w' = (handlers v w)(c := [prefix_of k @ i \<mapsto> protobuf_callback parse k cb])"
    using c by simp_all
  have "served v parse ((subs(c \<mapsto> (k, i, cb))) c') w' c'" for c'
    using serves [unfolded serves_def, rule_format, of c'] w' c
    by (cases "c' = c"; cases "subs c'") (auto simp: served_def)
  then show ?thesis using w' by (simp add: serves_def)
qed

lemma published_step:
  assumes laws: "bus_laws bus v" and serves: "serves v parse subs w"
    and w': "w' = fst (publish_status (bus_publish bus) k ev w)"
  shows "serves v parse subs w' \<and> app v w' = app v w \<and>
    (\<forall>c. waiting_events parse (subs c) (inbox v w' c) =
       waiting_events parse (subs c) (inbox v w c) @ event_for parse (subs c) k ev)"
proof (cases ev)
  case (PydanticEvent i p)
  then have "w' = w" using w' by (simp add: publish_status_event publish_event_def serialize_event_def)
  then show ?thesis using serves PydanticEvent by simp
next
  case (ProtoEvent i d)
  let ?w1 = "bus_publish bus (prefix_of k @ i) d w"
  have w': "w' = bus_publish bus (shared_channel k) d ?w1"
    by (simp add: w' ProtoEvent publish_status_event publish_event_def serialize_event_def event_target_def)
  have same: "same_but_messages v w w'"
    using bus_publishes(1) [OF laws, of w "prefix_of k @ i" d] bus_publishes(1) [OF laws, of ?w1 "shared_channel k" d]
    by (simp add: w' same_but_messages_def)
  have box: "inbox v w' c = inbox v w c @ (case subs c of None \<Rightarrow> []
      | Some (k', i', cb) \<Rightarrow> if k' = k \<and> i' = i then [message_on (prefix_of k @ i) d] else [])" for c
  proof -
    have "handlers v ?w1 = handlers v w"
      using bus_publishes(1) [OF laws] by (simp add: same_but_messages_def)
    then show ?thesis
      using serves [unfolded serves_def served_def, rule_format, of c]
      by (auto simp: w' bus_publishes(3) [OF laws] split: option.splits)
  qed
  have "served v parse (subs c) w' c" for c
    using serves [unfolded serves_def, rule_format, of c] same box [of c]
    by (cases "subs c") (auto simp: served_def same_but_messages_def message_on_def)
  then have "serves v parse subs w'" by (simp add: serves_def)
  moreover have "app v w' = app v w" by (simp add: w' bus_publishes(2) [OF laws])
  moreover have "waiting_events parse (subs c) (inbox v w' c) =
      waiting_events parse (subs c) (inbox v w c) @ event_for parse (subs c) k ev" for c
    by (cases "subs c") (auto simp: ProtoEvent box waiting_append message_on_def split: sum.split)
  ultimately show ?thesis by blast
qed

text \<open>A step of a worker calls the callback with the next event, or with nothing.\<close>

lemma worked_step:
  assumes laws: "bus_laws bus v" and serves: "serves v parse subs w" and c: "subs c = Some (k, i, cb)"
  shows "serves v parse subs (bus_work bus c w) \<and>
    (\<exists>evs. app v (bus_work bus c w) = fold (call subs) (map (Pair c) evs) (app v w) \<and>
      waiting_events parse (subs c) (inbox v w c) = evs @ waiting_events parse (subs c) (inbox v (bus_work bus c w) c) \<and>
      (\<forall>c'. c' \<noteq> c \<longrightarrow> inbox v (bus_work bus c w) c' = inbox v w c'))"
proof -
  let ?w = "bus_work bus c w"
  have at_c: "handlers v w c = [prefix_of k @ i \<mapsto> protobuf_callback parse k cb]" "workers v w c = 1"
      "\<forall>m \<in> set (inbox v w c). bm_type m = ''message'' \<and> bm_channel m = prefix_of k @ i"
    using serves [unfolded serves_def served_def, rule_format, of c] c by simp_all
  note law = bus_works(2) [OF laws at_c(2)]
  from law consider "inbox v ?w = inbox v w" "app v ?w = app v w"
    | m ms where "inbox v w c = m # ms" "inbox v ?w = (inbox v w)(c := ms)"
        "app v ?w = run_handler (handlers v w c) m (app v w)" by blast
  then show ?thesis
  proof cases
    case 1
    then have "serves v parse subs ?w" using serves_same [OF serves] law by simp
    then show ?thesis using 1 by (intro conjI exI [of _ "[]"]) simp_all
  next
    case (2 m ms)
    have "set (inbox v ?w c') \<subseteq> set (inbox v w c')" for c' using 2 by auto
    then have "serves v parse subs ?w" using serves_same [OF serves] law by simp
    moreover have "app v ?w = (case parse k (bm_data m) of Inl _ \<Rightarrow> app v w | Inr ev \<Rightarrow> fst (cb ev (app v w)))"
      using 2 at_c by (simp add: run_handler_def protobuf_callback_def split: sum.split)
    ultimately show ?thesis
      using 2 c
      by (intro conjI exI [of _ "case parse k (bm_data m) of Inl _ \<Rightarrow> [] | Inr ev \<Rightarrow> [ev]"])
        (simp_all add: call_def split: sum.split)
  qed
qed

lemma lost_step:
  assumes laws: "bus_laws bus v" and serves: "serves v parse subs w"
  shows "serves v parse subs (bus_lose bus c w) \<and> app v (bus_lose bus c w) = app v w \<and>
    (\<forall>c'. subseq (inbox v (bus_lose bus c w) c') (inbox v w c'))"
proof -
  have sub: "subseq (inbox v (bus_lose bus c w) c') (inbox v w c')" for c'
    using bus_loses(3,4) [OF laws] by (cases "c' = c") auto
  then have "\<forall>c'. set (inbox v (bus_lose bus c w) c') \<subseteq> set (inbox v w c')"
    using set_subseq by blast
  from serves_same [OF serves bus_loses(1) [OF laws] this] sub show ?thesis
    using bus_loses(2) [OF laws] by simp
qed

text \<open>Over any sequence of actions.\<close>

lemma call_same: "subs c = subs' c \<Longrightarrow> fold (call subs) (map (Pair c) evs) a = fold (call subs') (map (Pair c) evs) a"
  by (induction evs arbitrary: a) (simp_all add: call_def)

lemma got_append [simp]: "got c (xs @ ys) = got c xs @ got c ys"
  by (simp add: got_def)

lemma got_pair [simp]: "got c (map (Pair c') evs) = (if c = c' then evs else [])"
  by (induction evs) auto

lemma acts_delivered:
  assumes laws: "bus_laws bus v"
  shows "\<lbrakk>serves v parse subs w; bus_acts bus parse as w = Some w'; distinct (map fst (subscribed as));
      \<forall>c \<in> fst ` set (subscribed as). subs c = None\<rbrakk> \<Longrightarrow>
    \<exists>cs. delivered v parse subs as w w' (subs ++ map_of (subscribed as)) cs"
proof (induction as arbitrary: subs w)
  case Nil
  then show ?case by (intro exI [of _ "[]"]) (simp add: delivered_def waiting_events.simps)
next
  case (Cons x as)
  obtain w1 where w1: "bus_act bus parse x w = Some w1" "bus_acts bus parse as w1 = Some w'"
    using Cons.prems(2) by (auto split: option.splits)
  show ?case
  proof (cases x)
    case (Subscribed c k i cb)
    have ok: "subscribe_status bus parse k c i cb w = (w1, Inr ())"
      using w1(1) Subscribed by (auto split: prod.splits sum.splits)
    have c: "subs c = None" "c \<notin> fst ` set (subscribed as)" using Cons.prems(3,4) Subscribed by auto
    note step = subscribed_step [OF laws Cons.prems(1) c(1) ok]
    have "\<forall>c' \<in> fst ` set (subscribed as). (subs(c \<mapsto> (k, i, cb))) c' = None"
      using Cons.prems(4) Subscribed c(2) by auto
    moreover have "distinct (map fst (subscribed as))" using Cons.prems(3) Subscribed by simp
    ultimately obtain cs where
      cs: "delivered v parse (subs(c \<mapsto> (k, i, cb))) as w1 w' (subs(c \<mapsto> (k, i, cb)) ++ map_of (subscribed as)) cs"
      using Cons.IH [OF _ w1(2)] step by blast
    have "subs(c \<mapsto> (k, i, cb)) ++ map_of (subscribed as) = subs ++ map_of (subscribed (x # as))"
      using map_add_upd_left [of c "map_of (subscribed as)" subs] c(2)
      by (simp add: Subscribed dom_map_of_conv_image_fst)
    moreover have "waiting_events parse ((subs(c \<mapsto> (k, i, cb))) c') (inbox v w1 c') =
        waiting_events parse (subs c') (inbox v w c')" for c'
    proof (cases "c' = c")
      case True
      have "inbox v w c = []" using Cons.prems(1) [unfolded serves_def served_def, rule_format, of c] c(1) by simp
      then show ?thesis using step c(1) True by (cases "subs c") simp_all
    qed (simp add: step)
    moreover have "addressed parse c' (subs c') (x # as) = addressed parse c' ((subs(c \<mapsto> (k, i, cb))) c') as" for c'
      by (simp add: Subscribed)
    moreover have "Lost c' \<in> set (x # as) \<longleftrightarrow> Lost c' \<in> set as" for c' by (simp add: Subscribed)
    ultimately have "delivered v parse subs (x # as) w w' (subs ++ map_of (subscribed (x # as))) cs"
      using cs step unfolding delivered_def by metis
    then show ?thesis by blast
  next
    case (Published k ev)
    have "w1 = fst (publish_status (bus_publish bus) k ev w)" using w1(1) Published by simp
    note step = published_step [OF laws Cons.prems(1) this]
    have "distinct (map fst (subscribed as))" "\<forall>c \<in> fst ` set (subscribed as). subs c = None"
      using Cons.prems(3,4) Published by simp_all
    from Cons.IH [OF _ w1(2) this] step obtain cs where
      "delivered v parse subs as w1 w' (subs ++ map_of (subscribed as)) cs" by blast
    then show ?thesis using step by (intro exI [of _ cs]) (simp add: delivered_def Published)
  next
    case (Worked c)
    then have w1': "w1 = bus_work bus c w" using w1(1) by simp
    have as: "distinct (map fst (subscribed as))" "\<forall>c \<in> fst ` set (subscribed as). subs c = None"
      using Cons.prems(3,4) Worked by simp_all
    show ?thesis
    proof (cases "subs c")
      case None
      then have "workers v w c = 0" using Cons.prems(1) [unfolded serves_def served_def, rule_format, of c] by simp
      then have "w1 = w" using bus_works(1) [OF laws] w1' by simp
      then obtain cs where "delivered v parse subs as w w' (subs ++ map_of (subscribed as)) cs"
        using Cons.IH [OF Cons.prems(1) _ as] w1(2) by blast
      then show ?thesis by (intro exI [of _ cs]) (simp add: delivered_def Worked)
    next
      case (Some s)
      obtain k i cb where "s = (k, i, cb)" by (cases s)
      with Some have c: "subs c = Some (k, i, cb)" by simp
      from worked_step [OF laws Cons.prems(1) c] obtain evs where step: "serves v parse subs w1"
          "app v w1 = fold (call subs) (map (Pair c) evs) (app v w)"
          "waiting_events parse (subs c) (inbox v w c) = evs @ waiting_events parse (subs c) (inbox v w1 c)"
          "\<forall>c'. c' \<noteq> c \<longrightarrow> inbox v w1 c' = inbox v w c'"
        unfolding w1' by blast
      obtain cs where cs: "delivered v parse subs as w1 w' (subs ++ map_of (subscribed as)) cs"
        using Cons.IH [OF step(1) w1(2) as] by blast
      have "c \<notin> dom (map_of (subscribed as))" using c as(2) unfolding dom_map_of_conv_image_fst by (metis option.distinct(1))
      then have "subs c = (subs ++ map_of (subscribed as)) c" by (simp add: map_add_dom_app_simps(3))
      note same = call_same [of subs c "subs ++ map_of (subscribed as)", OF this, of evs "app v w"]
      have "waiting_events parse (subs c') (inbox v w c') =
          got c' (map (Pair c) evs) @ waiting_events parse (subs c') (inbox v w1 c')" for c'
        using step(3,4) by (cases "c' = c") simp_all
      then have "delivered v parse subs (x # as) w w' (subs ++ map_of (subscribed (x # as))) (map (Pair c) evs @ cs)"
        using cs step(2) same by (simp add: delivered_def Worked Let_def subseq_append')
      then show ?thesis by blast
    qed
  next
    case (Lost c)
    then have w1': "w1 = bus_lose bus c w" using w1(1) by simp
    have as: "distinct (map fst (subscribed as))" "\<forall>c \<in> fst ` set (subscribed as). subs c = None"
      using Cons.prems(3,4) Lost by simp_all
    note step = lost_step [OF laws Cons.prems(1), of c]
    obtain cs where cs: "delivered v parse subs as w1 w' (subs ++ map_of (subscribed as)) cs"
      using Cons.IH [OF _ w1(2) as] step w1' by blast
    have "subseq (waiting_events parse (subs c') (inbox v w1 c') @ addressed parse c' (subs c') as)
        (waiting_events parse (subs c') (inbox v w c') @ addressed parse c' (subs c') as)" for c'
      using step waiting_subseq [of "inbox v w1 c'" "inbox v w c'" parse "subs c'"] by (simp add: w1' list_emb_append_mono)
    moreover have "inbox v w1 c' = inbox v w c'" if "c' \<noteq> c" for c'
      using bus_loses(4) [OF laws that] w1' by simp
    ultimately show ?thesis
      using cs step by (intro exI [of _ cs]) (auto simp: delivered_def Lost Let_def w1' intro: subseq_order.trans)
  qed
qed

text \<open>
  C33: who receives an event. On a bus that works as documented, and as long as each event client makes one subscription,
  whatever is subscribed and published, however the workers run and whichever connections fail: the
  application is in the state that a sequence of calls of the subscribed callbacks brings it to, and in this
  sequence each client gets some of the events addressed to it (the protobuf events of its kind and target published
  after it subscribed), each at most once and in the order of publication, and nothing else. It gets all of
  them if its connection never failed and no message is left for its worker.
\<close>
theorem events_reach_subscribers:
  assumes "bus_laws bus v"
    and "\<forall>c. handlers v w c = Map.empty \<and> workers v w c = 0 \<and> inbox v w c = []"
    and "bus_acts bus parse as w = Some w'" "distinct (map fst (subscribed as))"
  shows "\<exists>cs. app v w' = fold (call (map_of (subscribed as))) cs (app v w) \<and>
    (\<forall>c. subseq (got c cs) (addressed parse c None as) \<and>
      (Lost c \<notin> set as \<and> inbox v w' c = [] \<longrightarrow> got c cs = addressed parse c None as))"
proof -
  have "serves v parse (\<lambda>_. None) w" using assms(2) by (simp add: serves_def served_def)
  from acts_delivered [OF assms(1) this assms(3,4)] obtain cs where
    "delivered v parse (\<lambda>_. None) as w w' (map_of (subscribed as)) cs" by auto
  then show ?thesis by (intro exI [of _ cs]) (simp add: delivered_def Let_def)
qed

text \<open>A server in memory, and two subscribers that log what they get.\<close>

record 'a demo_world =
  dw_handlers :: "nat \<Rightarrow> string \<Rightarrow> 'a handler option"
  dw_workers :: "nat \<Rightarrow> nat"
  dw_inbox :: "nat \<Rightarrow> bus_message list"
  dw_app :: 'a

definition demo_bus :: "('a, 'a demo_world) bus" where
  "demo_bus =
     \<lparr>bus_subscribe = (\<lambda>c hs w. (w\<lparr>dw_handlers := (dw_handlers w)(c := dw_handlers w c ++ map_of hs)\<rparr>, Inr ())),
      bus_run = (\<lambda>c w. (w\<lparr>dw_workers := (dw_workers w)(c := Suc (dw_workers w c))\<rparr>, Inr ())),
      bus_publish = (\<lambda>ch d w. w\<lparr>dw_inbox := (\<lambda>c. dw_inbox w c @
         (if dw_handlers w c ch = None then [] else [message_on ch d]))\<rparr>),
      bus_work = (\<lambda>c w. if dw_workers w c = 0 then w else (case dw_inbox w c of
           [] \<Rightarrow> w
         | m # ms \<Rightarrow> w\<lparr>dw_inbox := (dw_inbox w)(c := ms), dw_app := run_handler (dw_handlers w c) m (dw_app w)\<rparr>)),
      bus_lose = (\<lambda>c w. w\<lparr>dw_inbox := (dw_inbox w)(c := [])\<rparr>)\<rparr>"

definition demo_view :: "('a, 'a demo_world) bus_view" where
  "demo_view = \<lparr>handlers = dw_handlers, workers = dw_workers, inbox = dw_inbox, app = dw_app\<rparr>"

lemma demo_bus_laws: "bus_laws demo_bus demo_view"
  by (simp add: bus_laws_def subscribe_law_def run_law_def publish_law_def work_law_def lose_law_def
      same_but_messages_def demo_bus_def demo_view_def fun_eq_iff split: list.split)

definition demo_parse :: "event_kind \<Rightarrow> string \<Rightarrow> event res" where
  "demo_parse k d = Inr (ProtoEvent (takeWhile (\<lambda>c. c \<noteq> CHR ''='') d) d)"

definition log_as :: "string \<Rightarrow> (string \<times> event) list event_callback" where
  "log_as who ev a = (a @ [(who, ev)], Inr ())"

definition demo_actions :: "(string \<times> event) list bus_action list" where
  "demo_actions =
     [Subscribed 0 NodeStatusEvent ''a'' (log_as ''nodes''),
      Published NodeStatusEvent (ProtoEvent ''a'' ''a=RUNNING''),
      Published NodeStatusEvent (ProtoEvent ''b'' ''b=RUNNING''),
      Subscribed 1 AlertEvent ''a'' (log_as ''alerts''),
      Published AlertEvent (PydanticEvent ''a'' PNone),
      Published AlertEvent (ProtoEvent ''a'' ''a=WARN''),
      Worked 1, Worked 0]"

definition demo_start :: "(string \<times> event) list demo_world" where
  "demo_start = \<lparr>dw_handlers = (\<lambda>_. Map.empty), dw_workers = (\<lambda>_. 0), dw_inbox = (\<lambda>_. []), dw_app = []\<rparr>"

lemma demo_bus_run: "\<exists>w'. bus_acts demo_bus demo_parse demo_actions demo_start = Some w' \<and>
    dw_app w' = [(''alerts'', ProtoEvent ''a'' ''a=WARN''), (''nodes'', ProtoEvent ''a'' ''a=RUNNING'')]"
  by (simp add: demo_actions_def demo_bus_def demo_start_def subscribe_status_run subscribe_and_run_def
      publish_status_event publish_event_def serialize_event_def event_target_def run_handler_def message_on_def
      protobuf_callback_def demo_parse_def log_as_def del: subscribe_status.simps publish_status.simps)

theorem events_reach_subscribers_witness:
  "\<exists>w' cs. bus_acts demo_bus demo_parse demo_actions demo_start = Some w' \<and>
     dw_app w' = [(''alerts'', ProtoEvent ''a'' ''a=WARN''), (''nodes'', ProtoEvent ''a'' ''a=RUNNING'')] \<and>
     dw_app w' = fold (call (map_of (subscribed demo_actions))) cs [] \<and>
     subseq (got 0 cs) [ProtoEvent ''a'' ''a=RUNNING'']"
proof -
  obtain w' where w': "bus_acts demo_bus demo_parse demo_actions demo_start = Some w'"
    "dw_app w' = [(''alerts'', ProtoEvent ''a'' ''a=WARN''), (''nodes'', ProtoEvent ''a'' ''a=RUNNING'')]"
    using demo_bus_run by blast
  have start: "\<forall>c. handlers demo_view demo_start c = Map.empty \<and> workers demo_view demo_start c = 0 \<and>
      inbox demo_view demo_start c = []" by (simp add: demo_view_def demo_start_def)
  have "distinct (map fst (subscribed demo_actions))" by (simp add: demo_actions_def)
  from events_reach_subscribers [OF demo_bus_laws start w'(1) this] obtain cs where
    "dw_app w' = fold (call (map_of (subscribed demo_actions))) cs []"
    "subseq (got 0 cs) (addressed demo_parse 0 None demo_actions)"
    by (auto simp: demo_view_def demo_start_def)
  then show ?thesis using w' by (auto simp: demo_actions_def demo_parse_def)
qed

end
