(* ===== verification/GcDaemon.thy ===== *)
theory GcDaemon
  imports Neo4jServices
begin

text \<open>
  The daemon of \<open>Neo4jGCService\<close> (\<open>registry/services/gc/service.py\<close>) and the collector used in
  tests (\<open>registry/services/gc/memory_impl.py\<close>).

  \<open>start_daemon\<close> and \<open>stop_daemon\<close> may be called by several threads, and the loops they start
  run beside them, so the methods are split into the steps between which another thread can run.
  A thread is named by its position in \<open>dm_threads\<close>, where None is a thread that was created and
  not started. \<open>gc\<close> is \<open>run_gc\<close> without the assignment of \<open>_last_status\<close>; it acts on the world
  (pool, database, clock), and None is a wait for a client that does not end.
\<close>

datatype loop_pc = AtTest | AtRun | AtWait | Ended

datatype caller_pc = Idle | AtClear | AtCreate | AtLaunch | AtReadThread | AtJoin nat | Raised exn_class

record 'w gc_daemon =
  dm_last_status :: "gc_status option"
  dm_thread :: "nat option"
  dm_stop :: bool
  dm_threads :: "loop_pc option list"
  dm_callers :: "nat \<Rightarrow> caller_pc"
  dm_world :: 'w

definition new_daemon :: "'w \<Rightarrow> 'w gc_daemon" where
  "new_daemon w =
     \<lparr>dm_last_status = None, dm_thread = None, dm_stop = False, dm_threads = [],
      dm_callers = (\<lambda>_. Idle), dm_world = w\<rparr>"

definition get_status :: "'w gc_daemon \<Rightarrow> gc_status option" where
  "get_status s = dm_last_status s"

text \<open>\<open>Thread.is_alive()\<close>: started and not ended.\<close>

definition is_alive :: "'w gc_daemon \<Rightarrow> nat \<Rightarrow> bool" where
  "is_alive s t \<longleftrightarrow> t < length (dm_threads s) \<and> dm_threads s ! t \<notin> {None, Some Ended}"

definition caller_at :: "nat \<Rightarrow> caller_pc \<Rightarrow> 'w gc_daemon \<Rightarrow> 'w gc_daemon" where
  "caller_at c pc s = s\<lparr>dm_callers := (dm_callers s)(c := pc)\<rparr>"

definition loop_at :: "nat \<Rightarrow> loop_pc \<Rightarrow> 'w gc_daemon \<Rightarrow> 'w gc_daemon" where
  "loop_at t pc s = s\<lparr>dm_threads := (dm_threads s)[t := Some pc]\<rparr>"

section \<open>The steps\<close>

text \<open>The first step of each method, up to the first point where another thread matters.\<close>

definition start_daemon :: "nat \<Rightarrow> 'w gc_daemon \<Rightarrow> 'w gc_daemon" where
  "start_daemon c s =
     (if (case dm_thread s of None \<Rightarrow> False | Some t \<Rightarrow> is_alive s t) then caller_at c Idle s
      else caller_at c AtClear s)"

definition stop_daemon :: "nat \<Rightarrow> 'w gc_daemon \<Rightarrow> 'w gc_daemon" where
  "stop_daemon c s = caller_at c AtReadThread (s\<lparr>dm_stop := True\<rparr>)"

text \<open>
  The rest of the methods. \<open>self._daemon_thread.start()\<close> reads the attribute again; a thread can be
  started once, and cannot be joined before it is started. \<open>join\<close> waits for the end of the loop.
\<close>

definition caller_step :: "nat \<Rightarrow> 'w gc_daemon \<Rightarrow> 'w gc_daemon option" where
  "caller_step c s =
     (case dm_callers s c of
        AtClear \<Rightarrow> Some (caller_at c AtCreate (s\<lparr>dm_stop := False\<rparr>))
      | AtCreate \<Rightarrow>
          Some (caller_at c AtLaunch (s\<lparr>dm_thread := Some (length (dm_threads s)), dm_threads := dm_threads s @ [None]\<rparr>))
      | AtLaunch \<Rightarrow>
          (case dm_thread s of
             None \<Rightarrow> None
           | Some t \<Rightarrow>
               if dm_threads s ! t = None then Some (caller_at c Idle (loop_at t AtTest s))
               else Some (caller_at c (Raised RuntimeError) s))
      | AtReadThread \<Rightarrow> Some (caller_at c (case dm_thread s of None \<Rightarrow> Idle | Some t \<Rightarrow> AtJoin t) s)
      | AtJoin t \<Rightarrow>
          (case dm_threads s ! t of
             None \<Rightarrow> Some (caller_at c (Raised RuntimeError) s)
           | Some Ended \<Rightarrow> Some (caller_at c Idle s)
           | Some _ \<Rightarrow> None)
      | _ \<Rightarrow> None)"

text \<open>
  \<open>while not is_set(): run_gc(); wait(interval)\<close>. An exception of \<open>run_gc\<close> ends the thread; the wait
  ends with the interval or with the event.
\<close>

definition loop_step ::
    "('w \<Rightarrow> ('w, exn, gc_status) outcome option) \<Rightarrow> nat \<Rightarrow> 'w gc_daemon \<Rightarrow> 'w gc_daemon option" where
  "loop_step gc t s =
     (if \<not> is_alive s t then None
      else (case the (dm_threads s ! t) of
              AtTest \<Rightarrow> Some (loop_at t (if dm_stop s then Ended else AtRun) s)
            | AtRun \<Rightarrow>
                (case gc (dm_world s) of
                   None \<Rightarrow> None
                 | Some (w, Inl _) \<Rightarrow> Some (loop_at t Ended (s\<lparr>dm_world := w\<rparr>))
                 | Some (w, Inr st) \<Rightarrow> Some (loop_at t AtWait (s\<lparr>dm_world := w, dm_last_status := Some st\<rparr>)))
            | AtWait \<Rightarrow> Some (loop_at t AtTest s)
            | Ended \<Rightarrow> None))"

datatype gc_action = CallStart nat | CallStop nat | CallerStep nat | LoopStep nat

definition ready :: "'w gc_daemon \<Rightarrow> nat \<Rightarrow> bool" where
  "ready s c \<longleftrightarrow> (case dm_callers s c of Idle \<Rightarrow> True | Raised _ \<Rightarrow> True | _ \<Rightarrow> False)"

fun gc_act ::
    "('w \<Rightarrow> ('w, exn, gc_status) outcome option) \<Rightarrow> gc_action \<Rightarrow> 'w gc_daemon \<Rightarrow> 'w gc_daemon option" where
  "gc_act gc (CallStart c) s = (if ready s c then Some (start_daemon c s) else None)"
| "gc_act gc (CallStop c) s = (if ready s c then Some (stop_daemon c s) else None)"
| "gc_act gc (CallerStep c) s = caller_step c s"
| "gc_act gc (LoopStep t) s = loop_step gc t s"

fun gc_acts ::
    "('w \<Rightarrow> ('w, exn, gc_status) outcome option) \<Rightarrow> gc_action list \<Rightarrow> 'w gc_daemon \<Rightarrow> 'w gc_daemon option" where
  "gc_acts gc [] s = Some s"
| "gc_acts gc (a # as) s = (case gc_act gc a s of None \<Rightarrow> None | Some s' \<Rightarrow> gc_acts gc as s')"

fun by_callers :: "nat set \<Rightarrow> gc_action \<Rightarrow> bool" where
  "by_callers C (CallStart c) \<longleftrightarrow> c \<in> C"
| "by_callers C (CallStop c) \<longleftrightarrow> c \<in> C"
| "by_callers C (CallerStep c) \<longleftrightarrow> c \<in> C"
| "by_callers C (LoopStep t) \<longleftrightarrow> True"

text \<open>The states that the threads \<open>C\<close> and the loops they start can reach.\<close>

inductive gc_reachable ::
    "('w \<Rightarrow> ('w, exn, gc_status) outcome option) \<Rightarrow> nat set \<Rightarrow> 'w gc_daemon \<Rightarrow> bool"
  for gc C where
  initial: "gc_reachable gc C (new_daemon w)"
| act: "gc_reachable gc C s \<Longrightarrow> by_callers C a \<Longrightarrow> gc_act gc a s = Some s' \<Longrightarrow> gc_reachable gc C s'"

section \<open>The collector used in tests\<close>

definition memory_run_gc :: "string \<Rightarrow> gc_status option \<Rightarrow> gc_status option \<times> gc_status" where
  "memory_run_gc timestamp old =
     (let status = \<lparr>gc_timestamp = timestamp, gc_ttl_deleted = 0, gc_zero_dep_deleted = 0\<rparr>
      in (Some status, status))"

section \<open>One caller\<close>

text \<open>
  What holds while one thread uses the service: a loop that is alive is the current thread, the
  points of the two methods know what they have done, and a stop that returned left no loop.
\<close>

definition gc_inv :: "nat \<Rightarrow> 'w gc_daemon \<Rightarrow> bool" where
  "gc_inv c s \<longleftrightarrow>
     (\<forall>t. is_alive s t \<longrightarrow> dm_thread s = Some t) \<and>
     (\<forall>t. dm_thread s = Some t \<longrightarrow> t < length (dm_threads s)) \<and>
     (\<forall>e. dm_callers s c \<noteq> Raised e) \<and>
     (dm_callers s c \<in> {AtClear, AtCreate, AtLaunch} \<longrightarrow> (\<forall>t. \<not> is_alive s t)) \<and>
     (dm_callers s c = AtLaunch \<longrightarrow> (\<exists>t. dm_thread s = Some t \<and> dm_threads s ! t = None)) \<and>
     (dm_callers s c \<noteq> AtLaunch \<longrightarrow> (\<forall>t. dm_thread s = Some t \<longrightarrow> dm_threads s ! t \<noteq> None)) \<and>
     (dm_callers s c \<in> {AtCreate, AtLaunch} \<longrightarrow> \<not> dm_stop s) \<and>
     (dm_callers s c = AtReadThread \<longrightarrow> dm_stop s) \<and>
     (\<forall>t. dm_callers s c = AtJoin t \<longrightarrow> dm_stop s \<and> dm_thread s = Some t) \<and>
     (dm_callers s c = Idle \<and> dm_stop s \<longrightarrow> (\<forall>t. \<not> is_alive s t))"

lemma caller_at_simps [simp]:
  "dm_callers (caller_at c pc s) = (dm_callers s)(c := pc)"
  "dm_thread (caller_at c pc s) = dm_thread s" "dm_threads (caller_at c pc s) = dm_threads s"
  "dm_stop (caller_at c pc s) = dm_stop s" "is_alive (caller_at c pc s) t = is_alive s t"
  by (simp_all add: caller_at_def is_alive_def)

lemma loop_at_simps [simp]:
  "dm_callers (loop_at t pc s) = dm_callers s" "dm_thread (loop_at t pc s) = dm_thread s"
  "dm_threads (loop_at t pc s) = (dm_threads s)[t := Some pc]" "dm_stop (loop_at t pc s) = dm_stop s"
  by (simp_all add: loop_at_def)

lemma is_alive_loop_at:
  "is_alive (loop_at t pc s) u \<longleftrightarrow> (if u = t \<and> t < length (dm_threads s) then pc \<noteq> Ended else is_alive s u)"
  by (auto simp: is_alive_def nth_list_update)

lemma is_alive_update [simp]:
  "is_alive (s\<lparr>dm_world := w\<rparr>) = is_alive s" "is_alive (s\<lparr>dm_last_status := l\<rparr>) = is_alive s"
  "is_alive (s\<lparr>dm_stop := b\<rparr>) = is_alive s"
  by (simp_all add: is_alive_def fun_eq_iff)

lemma is_alive_create [simp]:
  "is_alive (s\<lparr>dm_thread := d, dm_threads := dm_threads s @ [None]\<rparr>) t \<longleftrightarrow> is_alive s t"
  by (auto simp: is_alive_def nth_append)

lemma gc_inv_loop_at:
  assumes inv: "gc_inv c s" and alive: "is_alive s t"
  shows "gc_inv c (loop_at t pc s)"
proof -
  have t: "t < length (dm_threads s)" "dm_threads s ! t \<noteq> None" using alive by (auto simp: is_alive_def)
  have less: "is_alive (loop_at t pc s) u \<Longrightarrow> is_alive s u" for u
    using alive by (auto simp: is_alive_loop_at split: if_splits)
  have same: "(dm_threads s)[t := Some pc] ! u = None \<longleftrightarrow> dm_threads s ! u = None" for u
    using t by (cases "u = t") simp_all
  show ?thesis
    using inv less unfolding gc_inv_def loop_at_simps same length_list_update by blast
qed

lemma gc_inv_world [simp]:
  "gc_inv c (s\<lparr>dm_world := w\<rparr>) = gc_inv c s" "gc_inv c (s\<lparr>dm_last_status := l\<rparr>) = gc_inv c s"
  by (simp_all add: gc_inv_def)

lemma gc_inv_loop_step:
  assumes inv: "gc_inv c s" and step: "loop_step gc t s = Some s'"
  shows "gc_inv c s'"
proof -
  have alive: "is_alive s t" using step by (auto simp: loop_step_def split: if_splits)
  show ?thesis
    using step alive inv
    by (auto simp: loop_step_def gc_inv_loop_at split: if_splits loop_pc.splits option.splits prod.splits sum.splits)
qed

lemma gc_inv_caller_step:
  assumes inv: "gc_inv c s" and step: "caller_step c s = Some s'"
  shows "gc_inv c s'"
proof (cases "dm_callers s c")
  case AtClear
  then have "s' = caller_at c AtCreate (s\<lparr>dm_stop := False\<rparr>)" using step by (simp add: caller_step_def)
  then show ?thesis using inv AtClear by (simp add: gc_inv_def)
next
  case AtCreate
  then have s': "s' = caller_at c AtLaunch (s\<lparr>dm_thread := Some (length (dm_threads s)), dm_threads := dm_threads s @ [None]\<rparr>)"
    using step by (simp add: caller_step_def)
  show ?thesis using inv AtCreate unfolding s' by (simp add: gc_inv_def)
next
  case AtLaunch
  then obtain t where t: "dm_thread s = Some t" "dm_threads s ! t = None" "t < length (dm_threads s)"
      "\<And>u. \<not> is_alive s u" "dm_callers s c = AtLaunch"
    using inv unfolding gc_inv_def by auto
  then have s': "s' = caller_at c Idle (loop_at t AtTest s)" using step AtLaunch by (simp add: caller_step_def)
  have "\<not> dm_stop s" using inv AtLaunch by (simp add: gc_inv_def)
  then show ?thesis using t unfolding s' by (auto simp: gc_inv_def is_alive_loop_at nth_list_update)
next
  case AtReadThread
  then show ?thesis
    using inv step by (auto simp: caller_step_def gc_inv_def split: option.splits)
next
  case (AtJoin t)
  then have t: "dm_stop s" "dm_thread s = Some t" "dm_threads s ! t \<noteq> None"
    using inv by (auto simp: gc_inv_def)
  then have ended: "dm_threads s ! t = Some Ended" and s': "s' = caller_at c Idle s"
    using step AtJoin by (auto simp: caller_step_def split: loop_pc.splits)
  have "\<not> is_alive s u" for u
  proof
    assume u: "is_alive s u"
    then have "u = t" using inv t(2) by (auto simp: gc_inv_def)
    with u ended show False by (simp add: is_alive_def)
  qed
  then show ?thesis using inv t AtJoin unfolding s' by (simp add: gc_inv_def)
qed (use step in \<open>simp_all add: caller_step_def\<close>)

lemma gc_inv_act:
  assumes inv: "gc_inv c s" and "by_callers {c} a" "gc_act gc a s = Some s'"
  shows "gc_inv c s'"
proof (cases a)
  case (CallStart d)
  with assms(2,3) have d: "d = c" "ready s c" "s' = start_daemon c s" by (auto split: if_splits)
  then have idle: "dm_callers s c = Idle" using inv by (auto simp: ready_def gc_inv_def split: caller_pc.splits)
  show ?thesis
  proof (cases "\<exists>t. dm_thread s = Some t \<and> is_alive s t")
    case True
    then have "s' = caller_at c Idle s" using d(3) by (auto simp: start_daemon_def)
    moreover have "\<not> dm_stop s" using inv idle True unfolding gc_inv_def by blast
    ultimately show ?thesis using inv unfolding gc_inv_def caller_at_simps by (simp add: idle)
  next
    case False
    then have "s' = caller_at c AtClear s" using d(3) by (auto simp: start_daemon_def split: option.splits)
    moreover have "\<forall>t. \<not> is_alive s t" using inv False unfolding gc_inv_def by blast
    ultimately show ?thesis using inv idle by (simp add: gc_inv_def)
  qed
next
  case (CallStop d)
  with assms(2,3) have d: "d = c" "ready s c" "s' = stop_daemon c s" by (auto split: if_splits)
  then have "dm_callers s c = Idle" using inv by (auto simp: ready_def gc_inv_def split: caller_pc.splits)
  then show ?thesis using inv unfolding d(3) by (simp add: stop_daemon_def gc_inv_def)
next
  case (CallerStep d)
  then show ?thesis using assms gc_inv_caller_step by simp
next
  case (LoopStep t)
  then show ?thesis using assms gc_inv_loop_step by simp
qed

lemma gc_inv_reachable: "gc_reachable gc {c} s \<Longrightarrow> gc_inv c s"
proof (induction rule: gc_reachable.induct)
  case (initial w)
  then show ?case by (simp add: gc_inv_def new_daemon_def is_alive_def)
next
  case (act s a s')
  then show ?case using gc_inv_act by blast
qed

lemma gc_reachable_acts:
  "gc_reachable gc C s \<Longrightarrow> list_all (by_callers C) as \<Longrightarrow> gc_acts gc as s = Some s' \<Longrightarrow> gc_reachable gc C s'"
proof (induction as arbitrary: s)
  case (Cons a as)
  then show ?case by (auto split: option.splits intro: gc_reachable.act)
qed simp

text \<open>A \<open>run_gc\<close> that always returns, which the examples use.\<close>

definition demo_gc :: "nat \<Rightarrow> (nat, exn, gc_status) outcome option" where
  "demo_gc n = Some (Suc n, Inr \<lparr>gc_timestamp = ''t'', gc_ttl_deleted = 0, gc_zero_dep_deleted = 0\<rparr>)"

definition started :: "gc_action list" where
  "started = [CallStart 0, CallerStep 0, CallerStep 0, CallerStep 0, LoopStep 0]"

lemmas gc_exec = start_daemon_def stop_daemon_def caller_step_def loop_step_def ready_def is_alive_def
  caller_at_def loop_at_def new_daemon_def demo_gc_def started_def

text \<open>
  C35: the collector used by one thread. Whatever calls of \<open>start_daemon\<close> and \<open>stop_daemon\<close> it makes,
  and however the loops run beside them, there is never more than one loop and it is the one the
  service knows; neither method raises; and when a stop has returned, no loop is left, so
  that nothing is collected until the next start.
\<close>
theorem one_caller_one_loop:
  assumes "gc_reachable gc {c} s"
  shows "(\<forall>t u. is_alive s t \<and> is_alive s u \<longrightarrow> t = u) \<and> (\<forall>t. is_alive s t \<longrightarrow> dm_thread s = Some t) \<and>
    (\<forall>e. dm_callers s c \<noteq> Raised e) \<and>
    (dm_callers s c = Idle \<and> dm_stop s \<longrightarrow> (\<forall>t. \<not> is_alive s t \<and> loop_step gc t s = None))"
  using gc_inv_reachable [OF assms] unfolding gc_inv_def
  by (metis loop_step_def option.inject)

theorem one_caller_one_loop_witness:
  "\<exists>s. gc_acts demo_gc (started @ [CallStop 0, CallerStep 0, LoopStep 0, LoopStep 0, LoopStep 0, CallerStep 0])
      (new_daemon 0) = Some s \<and> (\<forall>t. \<not> is_alive s t)"
proof -
  let ?as = "started @ [CallStop 0, CallerStep 0, LoopStep 0, LoopStep 0, LoopStep 0, CallerStep 0]"
  obtain s where s: "gc_acts demo_gc ?as (new_daemon 0) = Some s" "dm_callers s 0 = Idle" "dm_stop s"
    by (simp add: gc_exec)
  have "gc_reachable demo_gc {0} s"
    by (rule gc_reachable_acts [OF gc_reachable.initial _ s(1)]) (simp add: started_def)
  from one_caller_one_loop [OF this] s show ?thesis by blast
qed

text \<open>
  Stopping always ends: the caller waits for the current loop, and when each round of collection
  returns, at most three steps of that loop let it through.
\<close>

theorem stop_returns:
  assumes "gc_reachable gc {c} s" "dm_callers s c = AtJoin t" "\<forall>w. gc w \<noteq> None"
  shows "\<exists>n \<le> 3. \<exists>s'. gc_acts gc (replicate n (LoopStep t) @ [CallerStep c]) s = Some s' \<and> dm_callers s' c = Idle"
proof -
  have t: "dm_stop s" "t < length (dm_threads s)" "dm_threads s ! t \<noteq> None"
    using gc_inv_reachable [OF assms(1)] assms(2) by (auto simp: gc_inv_def)
  have go: "\<exists>s'. gc_acts gc (replicate n (LoopStep t) @ [CallerStep c]) s = Some s' \<and> dm_callers s' c = Idle"
    if "n = 0 \<and> dm_threads s ! t = Some Ended \<or> n = 1 \<and> dm_threads s ! t = Some AtTest
      \<or> n = 2 \<and> dm_threads s ! t = Some AtWait" for n
    using that t assms(2) by (elim disjE) (simp_all add: numeral_2_eq_2 gc_exec)
  obtain pc where pc: "dm_threads s ! t = Some pc" using t(3) by blast
  show ?thesis
  proof (cases pc)
    case AtRun
    obtain w r where gc: "gc (dm_world s) = Some (w, r)" using assms(3) by (metis not_None_eq surj_pair)
    show ?thesis
    proof (cases r)
      case (Inl e)
      then have "\<exists>s'. gc_acts gc (replicate 1 (LoopStep t) @ [CallerStep c]) s = Some s' \<and> dm_callers s' c = Idle"
        using gc t assms(2) pc AtRun by (simp add: gc_exec)
      then show ?thesis by (intro exI [of _ 1]) simp
    next
      case (Inr st)
      then have "\<exists>s'. gc_acts gc (replicate 3 (LoopStep t) @ [CallerStep c]) s = Some s' \<and> dm_callers s' c = Idle"
        using gc t assms(2) pc AtRun by (simp add: numeral_3_eq_3 gc_exec)
      then show ?thesis by blast
    qed
  next
    case AtTest
    then show ?thesis using go [of 1] pc by (intro exI [of _ 1]) simp
  next
    case AtWait
    then show ?thesis using go [of 2] pc by (intro exI [of _ 2]) simp
  next
    case Ended
    then show ?thesis using go [of 0] pc by (intro exI [of _ 0]) simp
  qed
qed

section \<open>Two callers\<close>

text \<open>
  The test of \<open>is_alive\<close> and the start are not one step: two threads that start the daemon together
  get two loops, a stop waits for one of them only and returns while the other is
  collecting, and a new start keeps that one running beside its own.
\<close>

definition race :: "gc_action list" where
  "race = [CallStart 0, CallStart 1, CallerStep 0, CallerStep 0, CallerStep 0,
           CallerStep 1, CallerStep 1, CallerStep 1, LoopStep 0,
           CallStop 0, CallerStep 0, LoopStep 1, CallerStep 0]"

definition restart :: "gc_action list" where
  "restart = [CallStart 0, CallerStep 0, CallerStep 0, CallerStep 0, LoopStep 0, LoopStep 0, LoopStep 0, LoopStep 2]"

theorem two_callers_lose_a_loop:
  "\<exists>s s'. gc_acts demo_gc race (new_daemon 0) = Some s \<and> dm_callers s 0 = Idle \<and> dm_stop s \<and> is_alive s 0 \<and>
     dm_world s = 0 \<and> loop_step demo_gc 0 s \<noteq> None \<and>
     gc_acts demo_gc restart s = Some s' \<and> is_alive s' 0 \<and> is_alive s' 2 \<and> \<not> dm_stop s'"
  by (simp add: gc_exec race_def restart_def)

end
