(* ===== verification/NodeSettings.thy ===== *)
theory NodeSettings
  imports SdkModels
begin

text \<open>
  The parts of \<open>sdk/node.py\<close> around the nodes themselves: the static helpers that bring
  stream settings into one form, the constructor of \<open>QueryNode\<close>, the two \<open>execute\<close> methods that do
  not run a function, file sources and the definition of a source node.
\<close>

section \<open>Settings in one form\<close>

text \<open>\<open>IntervalSettings(**d)\<close>: two required arguments and \<open>max_history=100\<close>, and no other.\<close>

definition check_kwargs :: "string list \<Rightarrow> string list \<Rightarrow> (string, pyval) dict \<Rightarrow> unit res" where
  "check_kwargs required optional d =
     (if \<not> set (map fst d) \<subseteq> set required \<union> set optional then raises TypeError ''unexpected keyword argument''
      else if \<not> set required \<subseteq> set (map fst d) then raises TypeError ''missing required argument''
      else Inr ())"

definition interval_settings_call :: "proto \<Rightarrow> (string, pyval) dict \<Rightarrow> interval_obj res" where
  "interval_settings_call lib d =
     bind_res (check_kwargs [''interval'', ''period''] [''max_history''] d) (\<lambda>_.
     bind_res (new_interval_settings lib (dict_get d ''interval'') (dict_get d ''period'')
                 (dict_get_or d ''max_history'' (PInt 100))) (\<lambda>(ob, _). Inr ob))"

definition stream_settings_call :: "proto \<Rightarrow> heap \<Rightarrow> (string, pyval) dict \<Rightarrow> intervals res" where
  "stream_settings_call lib heap d =
     bind_res (check_kwargs [''intervals''] [] d) (\<lambda>_.
     bind_res (bind_res (items_of (dict_get d ''intervals''))
                 (map_res (\<lambda>(k, x). bind_res (setting_arg heap x) (\<lambda>st. Inr (k, st))))) (\<lambda>ivs.
     bind_res (new_stream_settings lib ivs) (\<lambda>(ivs, _). Inr ivs)))"

definition parse_stream_settings :: "proto \<Rightarrow> heap \<Rightarrow> pyval \<Rightarrow> intervals res" where
  "parse_stream_settings lib heap v =
     (case v of
        PDict d \<Rightarrow> stream_settings_call lib heap d
      | PObject i \<Rightarrow>
          (case heap i of
             StreamObject ivs \<Rightarrow> Inr ivs
           | _ \<Rightarrow> raises ValueError ''stream_settings must be NodeStreamSettings or dict'')
      | _ \<Rightarrow> raises ValueError ''stream_settings must be NodeStreamSettings or dict'')"

text \<open>The loop of \<open>_parse_interval_settings\<close>: a value of any other kind is dropped.\<close>

fun parse_intervals :: "proto \<Rightarrow> heap \<Rightarrow> (string, pyval) dict \<Rightarrow> intervals \<Rightarrow> intervals res" where
  "parse_intervals lib heap [] acc = Inr acc"
| "parse_intervals lib heap ((k, v) # d) acc =
     (case v of
        PObject i \<Rightarrow>
          (case heap i of
             SettingsObject ob \<Rightarrow> parse_intervals lib heap d (AList.update k (SettingObj ob) acc)
           | _ \<Rightarrow> parse_intervals lib heap d acc)
      | PDict kw \<Rightarrow>
          bind_res (interval_settings_call lib kw) (\<lambda>ob.
            parse_intervals lib heap d (AList.update k (SettingObj ob) acc))
      | _ \<Rightarrow> parse_intervals lib heap d acc)"

definition parse_interval_settings :: "proto \<Rightarrow> heap \<Rightarrow> pyval \<Rightarrow> intervals res" where
  "parse_interval_settings lib heap v =
     (case v of
        PDict d \<Rightarrow>
          bind_res (parse_intervals lib heap d []) (\<lambda>ivs.
          bind_res (new_stream_settings lib ivs) (\<lambda>(ivs, _). Inr ivs))
      | PObject i \<Rightarrow>
          (case heap i of
             StreamObject ivs \<Rightarrow> Inr ivs
           | _ \<Rightarrow> raises ValueError ''interval_settings must be dict or NodeStreamSettings'')
      | _ \<Rightarrow> raises ValueError ''interval_settings must be dict or NodeStreamSettings'')"

definition normalize_stream_settings :: "proto \<Rightarrow> heap \<Rightarrow> pyval \<Rightarrow> pyval \<Rightarrow> intervals option res" where
  "normalize_stream_settings lib heap streams ivs =
     (if streams \<noteq> PNone then bind_res (parse_stream_settings lib heap streams) (\<lambda>s. Inr (Some s))
      else if ivs \<noteq> PNone then bind_res (parse_interval_settings lib heap ivs) (\<lambda>s. Inr (Some s))
      else Inr None)"

section \<open>Query nodes\<close>

text \<open>
  A selector object is known by its identity, which is what \<open>in\<close> compares. The list argument is
  shared with the caller: the second component is the caller's list afterwards.
\<close>

type_synonym selector_ref = "nat \<times> selector"

definition query_selectors ::
    "selector_ref option \<Rightarrow> selector_ref list option \<Rightarrow> selector_ref list \<times> selector_ref list option" where
  "query_selectors one many =
     (let own = (case many of
                   Some (s # ss) \<Rightarrow> s # ss
                 | _ \<Rightarrow> (case one of None \<Rightarrow> [] | Some s \<Rightarrow> [s]));
          all = (case one of
                   None \<Rightarrow> own
                 | Some s \<Rightarrow> if own = [] then [s] else if fst s \<in> fst ` set own then own else own @ [s])
      in (all, case many of Some (s # ss) \<Rightarrow> Some all | _ \<Rightarrow> many))"

definition new_query_node ::
    "string \<Rightarrow> string list \<Rightarrow> string option \<Rightarrow> pyval \<Rightarrow> intervals option \<Rightarrow> selector_ref option
     \<Rightarrow> selector_ref list option \<Rightarrow> query_node \<times> selector_ref list option" where
  "new_query_node name tag_list iv period settings one many =
     (let (all, caller) = query_selectors one many
      in (\<lparr>q_name = name, q_tags = tag_list, q_interval = iv, q_period = period, q_settings = settings,
           q_selectors = map snd all\<rparr>, caller))"

definition query_execute :: "query_node \<Rightarrow> pyval res" where
  "query_execute q = raises NotImplementedError ''a QueryNode is not run directly''"

section \<open>Sources\<close>

text \<open>\<open>FileSourceProcessor.fetch\<close>; \<open>read_file\<close> opens and reads a file.\<close>

definition file_fetch :: "(string \<Rightarrow> string res) \<Rightarrow> string \<Rightarrow> pyval res" where
  "file_fetch read_file path = bind_res (read_file path) (\<lambda>s. Inr (PStr s))"

definition source_to_definition :: "(intervals \<Rightarrow> pyval) \<Rightarrow> sdk_node \<Rightarrow> pyval" where
  "source_to_definition to_proto n =
     PDict [(''name'', PStr (sdk_name n)), (''node_id'', PStr (sdk_id n)),
            (''tags'', PList (map PStr (sdk_tags n))), (''upstreams'', PList (map PStr (sdk_upstreams n))),
            (''key_params'', PList (map PStr (sdk_key_params n))),
            (''stream_settings'', case sdk_settings n of None \<Rightarrow> PDict [] | Some ivs \<Rightarrow> to_proto ivs)]"

section \<open>What the helpers keep\<close>

text \<open>Which entries of \<open>interval_settings\<close> are settings, and the object each one becomes.\<close>

definition entry_setting :: "proto \<Rightarrow> heap \<Rightarrow> pyval \<Rightarrow> interval_obj option" where
  "entry_setting lib heap v =
     (case v of
        PObject i \<Rightarrow> (case heap i of SettingsObject ob \<Rightarrow> Some ob | _ \<Rightarrow> None)
      | PDict kw \<Rightarrow> (case interval_settings_call lib kw of Inr ob \<Rightarrow> Some ob | Inl _ \<Rightarrow> None)
      | _ \<Rightarrow> None)"

definition entry_fails :: "proto \<Rightarrow> pyval \<Rightarrow> bool" where
  "entry_fails lib v \<longleftrightarrow> (\<exists>kw e. v = PDict kw \<and> interval_settings_call lib kw = Inl e)"

lemma parse_intervals_ok:
  "is_ok (parse_intervals lib heap d acc) \<longleftrightarrow> (\<forall>v \<in> snd ` set d. \<not> entry_fails lib v)"
proof (induction d arbitrary: acc)
  case (Cons e d)
  obtain k v where e: "e = (k, v)" by (cases e)
  show ?case
  proof (cases v)
    case (PDict kw)
    then show ?thesis by (cases "interval_settings_call lib kw") (simp_all add: e Cons.IH entry_fails_def)
  next
    case (PObject i)
    then show ?thesis by (cases "heap i") (simp_all add: e Cons.IH entry_fails_def)
  qed (simp_all add: e Cons.IH entry_fails_def)
qed simp

lemma parse_intervals_value:
  assumes "distinct (map fst d)" "parse_intervals lib heap d acc = Inr ivs"
  shows "\<forall>k. map_of ivs k =
      (case Option.bind (map_of d k) (entry_setting lib heap) of Some ob \<Rightarrow> Some (SettingObj ob) | None \<Rightarrow> map_of acc k)"
  using assms
proof (induction d arbitrary: acc)
  case (Cons e d)
  obtain k v where e: "e = (k, v)" by (cases e)
  have fresh: "map_of d k = None" using Cons.prems(1) e by (simp add: map_of_eq_None_iff)
  have rest: "parse_intervals lib heap d (case entry_setting lib heap v of None \<Rightarrow> acc | Some ob \<Rightarrow> AList.update k (SettingObj ob) acc) = Inr ivs"
  proof (cases v)
    case (PDict kw)
    then show ?thesis
      using Cons.prems(2) by (cases "interval_settings_call lib kw") (simp_all add: e entry_setting_def)
  next
    case (PObject i)
    then show ?thesis using Cons.prems(2) by (cases "heap i") (simp_all add: e entry_setting_def)
  qed (use Cons.prems(2) in \<open>simp_all add: e entry_setting_def\<close>)
  have "distinct (map fst d)" using Cons.prems(1) by simp
  note ih = Cons.IH [OF this rest]
  show ?case
  proof
    fix j
    show "map_of ivs j = (case Option.bind (map_of (e # d) j) (entry_setting lib heap) of
        Some ob \<Rightarrow> Some (SettingObj ob) | None \<Rightarrow> map_of acc j)"
      using ih [rule_format, of j] fresh
      by (cases "j = k"; cases "entry_setting lib heap v") (auto simp: e update_conv split: option.splits)
  qed
qed simp

lemma parse_intervals_spec:
  assumes "distinct (map fst d)"
  shows "parse_intervals lib heap d acc = Inr ivs \<Longrightarrow> map_of ivs k =
      (case Option.bind (map_of d k) (entry_setting lib heap) of Some ob \<Rightarrow> Some (SettingObj ob) | None \<Rightarrow> map_of acc k)"
    and "is_ok (parse_intervals lib heap d acc) \<longleftrightarrow> (\<forall>v \<in> snd ` set d. \<not> entry_fails lib v)"
  using parse_intervals_value [OF assms] parse_intervals_ok by blast+

text \<open>
  A query node never has a selector twice when its list has not, always has the one given singly,
  and keeps the given list as a prefix; the caller's own list grows with it.
\<close>

lemma query_selectors_spec:
  assumes "query_selectors one many = (all, caller)"
  shows "(\<forall>ss. many = Some ss \<longrightarrow> (\<exists>more. all = ss @ more)) \<and>
    (\<forall>s. one = Some s \<longrightarrow> fst s \<in> fst ` set all) \<and>
    ((\<forall>ss. many = Some ss \<longrightarrow> distinct (map fst ss)) \<longrightarrow> distinct (map fst all)) \<and>
    (\<forall>ss. many = Some ss \<and> ss \<noteq> [] \<longrightarrow> caller = Some all)"
  using assms by (cases many; cases one; cases "the many") (auto simp: query_selectors_def Let_def split: if_splits)

end
