(* ===== verification/GatewayApp.thy ===== *)
theory GatewayApp
  imports Gateway RegistryApi
begin

text \<open>
  The routes of the gateway (\<open>gateway/gateway.py\<close>): which handler answers which method and path,
  and the handlers that refuse every changing method.

  Routing is FastAPI's, as in RegistryApi: the first route with the method and a matching
  template. A request without one is answered by the framework, a parameter: its own documentation
  pages, 404, or 405 for another method of a known path.
\<close>

text \<open>
  \<open>method_not_allowed(*args, **kwargs)\<close>: FastAPI reads the two as query parameters of the request and
  answers 422 without calling the handler when it cannot; \<open>binds\<close> is that decision.
\<close>

definition method_not_allowed :: "(gw_request \<Rightarrow> bool) \<Rightarrow> endpoint" where
  "method_not_allowed binds req = ([], gw_empty (if binds req then 405 else 422))"

type_synonym gw_route = "string \<times> string \<times> (string list \<Rightarrow> endpoint)"

definition refused :: "(gw_request \<Rightarrow> bool) \<Rightarrow> string \<Rightarrow> gw_route list" where
  "refused binds path = map (\<lambda>m. (m, path, \<lambda>_. method_not_allowed binds)) [''DELETE'', ''PUT'', ''POST'']"

text \<open>The routes in the order of registration; stacked decorators register from the bottom up.\<close>

definition gateway_routes :: "policies \<Rightarrow> (gw_request \<Rightarrow> bool) \<Rightarrow> gw_route list" where
  "gateway_routes pols binds =
     [(''GET'', ''/'', \<lambda>_. gw_root),
      (''GET'', ''/health'', \<lambda>_. gw_health),
      (''POST'', ''/v1/gateway/strategies'', \<lambda>_. submit_strategy),
      (''GET'', ''/v1/gateway/strategies'', \<lambda>_. gw_list_strategies pols),
      (''GET'', ''/v1/gateway/strategies/{strategy_id}/status'', \<lambda>segs. strategy_status pols (segs ! 4)),
      (''GET'', ''/v1/gateway/callbacks'', \<lambda>_. gw_list_callbacks pols),
      (''GET'', ''/v1/gateway/nodes'', \<lambda>_. gw_list_nodes pols),
      (''GET'', ''/v1/gateway/events'', \<lambda>_. gw_list_events pols)]
     @ refused binds ''/v1/gateway/events'' @ refused binds ''/v1/gateway/nodes''
     @ refused binds ''/v1/gateway/callbacks'' @ refused binds ''/v1/gateway/strategies/{strategy_id}/status''"

definition find_route :: "gw_route list \<Rightarrow> gw_request \<Rightarrow> endpoint option" where
  "find_route routes req =
     map_option (\<lambda>(_, _, h). h (split_path (req_path req)))
       (find (\<lambda>(m, t, _). m = req_method req \<and> path_matches t (split_path (req_path req))) routes)"

definition gateway_app :: "policies \<Rightarrow> (gw_request \<Rightarrow> bool) \<Rightarrow> endpoint \<Rightarrow> endpoint" where
  "gateway_app pols binds framework req =
     (case find_route (gateway_routes pols binds) req of
        Some ep \<Rightarrow> ep req
      | None \<Rightarrow> framework req)"

section \<open>Who gets an answer\<close>

text \<open>What a handler may show: nothing, to a caller the policies let read the resource, or to anybody.\<close>

definition may_read :: "policies \<Rightarrow> gw_request \<Rightarrow> resource_type \<Rightarrow> string option \<Rightarrow> bool" where
  "may_read pols req rt rid \<longleftrightarrow>
     (\<exists>u. req_user req = Some u \<and>
        evaluate_access pols (case map_of u ''roles'' of None \<Rightarrow> PList [] | Some v \<Rightarrow> v) rt READ rid = Inr True)"

definition answered :: "gw_out \<Rightarrow> bool" where
  "answered out \<longleftrightarrow> (\<exists>r. snd out = Inr r \<and> gw_status r < 400)"

lemma answered_empty [simp]: "answered (l, gw_empty code) \<longleftrightarrow> code < 400"
  by (simp add: answered_def gw_empty_def)

lemma answered_if_permitted:
  "answered (if_permitted pols req rt READ rid answer) \<Longrightarrow> may_read pols req rt rid \<and> answered ([], answer)"
  by (auto simp: if_permitted_def may_read_def answered_def gw_empty_def split: option.splits sum.splits bool.splits)

lemma paths_of_routes:
  "path_matches ''/'' segs \<longleftrightarrow> segs = [[], []]"
  "path_matches ''/health'' segs \<longleftrightarrow> segs = [[], ''health'']"
  "path_matches ''/v1/gateway/strategies'' segs \<longleftrightarrow> segs = [[], ''v1'', ''gateway'', ''strategies'']"
  "path_matches ''/v1/gateway/callbacks'' segs \<longleftrightarrow> segs = [[], ''v1'', ''gateway'', ''callbacks'']"
  "path_matches ''/v1/gateway/nodes'' segs \<longleftrightarrow> segs = [[], ''v1'', ''gateway'', ''nodes'']"
  "path_matches ''/v1/gateway/events'' segs \<longleftrightarrow> segs = [[], ''v1'', ''gateway'', ''events'']"
  by (auto simp: path_matches_def list_all2_Cons1)

lemma path_of_status:
  "path_matches ''/v1/gateway/strategies/{strategy_id}/status'' segs \<longleftrightarrow>
     (\<exists>i. i \<noteq> [] \<and> segs = [[], ''v1'', ''gateway'', ''strategies'', i, ''status''])"
  by (auto simp: path_matches_def list_all2_Cons1)

text \<open>The resource that each route of a path shows, if it is one that is guarded.\<close>

definition shown :: "string list \<Rightarrow> (resource_type \<times> string option) option" where
  "shown segs =
     (if segs = [[], ''v1'', ''gateway'', ''strategies''] then Some (STRATEGY, None)
      else if segs = [[], ''v1'', ''gateway'', ''callbacks''] then Some (CALLBACK, None)
      else if segs = [[], ''v1'', ''gateway'', ''nodes''] then Some (NODE, None)
      else if segs = [[], ''v1'', ''gateway'', ''events''] then Some (EVENT, None)
      else if length segs = 6 then Some (STRATEGY, Some (segs ! 4))
      else None)"

definition route_ok :: "policies \<Rightarrow> gw_route \<Rightarrow> bool" where
  "route_ok pols rte \<longleftrightarrow>
     (\<forall>req segs. path_matches (fst (snd rte)) segs \<longrightarrow> answered (snd (snd rte) segs req) \<longrightarrow>
        fst rte = ''GET'' \<and>
        (case shown segs of None \<Rightarrow> segs = [[], []] \<or> segs = [[], ''health''] | Some (rt, rid) \<Rightarrow> may_read pols req rt rid))"

lemma refused_ok: "list_all (route_ok pols) (refused binds path)"
  by (simp add: refused_def route_ok_def method_not_allowed_def)

lemma reading_ok:
  assumes "\<And>segs. path_matches t segs \<Longrightarrow> shown segs = Some (rt, rid segs)"
    and "\<And>segs req. answered (h segs req) \<Longrightarrow> may_read pols req rt (rid segs)"
  shows "route_ok pols (''GET'', t, h)"
  using assms by (simp add: route_ok_def)

lemma list_routes_ok:
  "route_ok pols (''GET'', ''/v1/gateway/strategies'', \<lambda>_. gw_list_strategies pols)"
  "route_ok pols (''GET'', ''/v1/gateway/callbacks'', \<lambda>_. gw_list_callbacks pols)"
  "route_ok pols (''GET'', ''/v1/gateway/nodes'', \<lambda>_. gw_list_nodes pols)"
  "route_ok pols (''GET'', ''/v1/gateway/events'', \<lambda>_. gw_list_events pols)"
  by (rule reading_ok [where rid = "\<lambda>_. None"];
      auto simp: paths_of_routes shown_def gw_list_strategies_def gw_list_callbacks_def gw_list_nodes_def
        gw_list_events_def dest: answered_if_permitted)+

lemma status_route_ok:
  "route_ok pols (''GET'', ''/v1/gateway/strategies/{strategy_id}/status'', \<lambda>segs. strategy_status pols (segs ! 4))"
  by (rule reading_ok [where rid = "\<lambda>segs. Some (segs ! 4)"];
      auto simp: path_of_status shown_def strategy_status_def dest: answered_if_permitted)

lemma public_routes_ok:
  "route_ok pols (''GET'', ''/'', \<lambda>_. gw_root)" "route_ok pols (''GET'', ''/health'', \<lambda>_. gw_health)"
  "route_ok pols (''POST'', ''/v1/gateway/strategies'', \<lambda>_. submit_strategy)"
  by (simp_all add: route_ok_def paths_of_routes shown_def submit_strategy_def)

lemma gateway_routes_ok: "list_all (route_ok pols) (gateway_routes pols binds)"
  unfolding gateway_routes_def list_all_append list.pred_inject
  by (intro conjI refused_ok public_routes_ok list_routes_ok status_route_ok list.pred_inject(1))

text \<open>
  C18: the gateway only shows what the policies let the caller read. Below the middlewares, when one
  of its routes answers a request without an error, the method is GET and either it is one of the
  two public pages or the caller is authenticated and the policies let its roles read the resource
  of the path, the single strategy included; every changing method is refused.
\<close>
theorem gateway_shows_permitted:
  assumes "find_route (gateway_routes pols binds) req \<noteq> None"
    and "answered (gateway_app pols binds framework req)"
  shows "req_method req = ''GET'' \<and>
    (split_path (req_path req) \<in> {[[], []], [[], ''health'']} \<or>
     (\<exists>rt rid. shown (split_path (req_path req)) = Some (rt, rid) \<and> may_read pols req rt rid))"
proof -
  let ?segs = "split_path (req_path req)"
  obtain m t h where f: "find (\<lambda>(m, t, _). m = req_method req \<and> path_matches t ?segs) (gateway_routes pols binds) = Some (m, t, h)"
    using assms(1) by (auto simp: find_route_def)
  then have in_routes: "(m, t, h) \<in> set (gateway_routes pols binds)" "m = req_method req" "path_matches t ?segs"
    using find_in [OF f] by auto
  have "answered (h ?segs req)" using assms(2) f by (simp add: gateway_app_def find_route_def)
  moreover have "route_ok pols (m, t, h)" using gateway_routes_ok in_routes(1) by (auto simp: list_all_iff)
  ultimately show ?thesis
    using in_routes(2,3) unfolding route_ok_def by (force split: option.splits)
qed

theorem gateway_shows_permitted_witness:
  "answered (gateway_app default_policies (\<lambda>_. False) gw_root (demo_request\<lparr>req_user := Some [(''roles'', PList [PStr ''admin''])]\<rparr>)) \<and>
   may_read default_policies (demo_request\<lparr>req_user := Some [(''roles'', PList [PStr ''admin''])]\<rparr>) NODE None"
proof -
  let ?req = "demo_request\<lparr>req_user := Some [(''roles'', PList [PStr ''admin''])]\<rparr>"
  have r: "find_route (gateway_routes default_policies (\<lambda>_. False)) ?req = Some (gw_list_nodes default_policies)"
    by (simp add: find_route_def gateway_routes_def path_matches_def demo_request_def)
  have e: "evaluate_access default_policies (PList [PStr ''admin'']) NODE READ None = Inr True"
    using default_policies_decide [of "[''admin'']" NODE READ None] by simp
  have a: "answered (gateway_app default_policies (\<lambda>_. False) gw_root ?req)"
    by (simp add: gateway_app_def r gw_list_nodes_def if_permitted_def e gw_json_def gw_json_response_def answered_def)
  from gateway_shows_permitted [OF _ a] r show ?thesis using a by (auto simp: shown_def demo_request_def)
qed

end
