(* ===== verification/Deploy.thy ===== *)
theory Deploy
  imports SdkModels
begin

text \<open>
  Deploying and drawing a pipeline: the Dockerfile and image helpers (\<open>sdk/container.py\<close>), the
  Kubernetes job (\<open>sdk/k8s.py\<close>) and the DAG drawing (\<open>sdk/visualization.py\<close>).

  The file system, the path joining of \<open>pathlib\<close>, the processes that \<open>subprocess.run\<close> starts and
  the networkx and matplotlib libraries are not part of the program: files and processes are
  parameters that act on a world, and drawing is the list of library calls it makes.
\<close>

section \<open>Dockerfiles\<close>

definition newline :: string where
  "newline = [CHR 0x0A]"

definition dockerfile :: "string \<Rightarrow> string" where
  "dockerfile dependency_install =
     newline @ ''FROM python:3.11-slim'' @ newline @ ''WORKDIR /app'' @ newline @ ''COPY . /app'' @ newline @
     dependency_install @ newline @ ''CMD [\"python\", \"main.py\"]'' @ newline"

definition dependency_command :: "string \<Rightarrow> string" where
  "dependency_command dependency_file =
     (if ends_with dependency_file ''.txt'' then ''RUN pip install --no-cache-dir -r '' @ dependency_file
      else if ends_with dependency_file ''.toml''
      then ''RUN pip install --no-cache-dir uv && uv pip install -r requirements.txt''
      else '''')"

definition generate_dockerfile_template :: "string \<Rightarrow> string" where
  "generate_dockerfile_template dependency_file = dockerfile (dependency_command dependency_file)"

record 'w host =
  join_path :: "string \<Rightarrow> string \<Rightarrow> string"
  path_exists :: "string \<Rightarrow> 'w \<Rightarrow> bool"
  write_file :: "string \<Rightarrow> string \<Rightarrow> 'w \<Rightarrow> ('w, exn, unit) outcome"
  run_command :: "string list \<Rightarrow> 'w \<Rightarrow> ('w, exn, unit) outcome"

definition write_dockerfile :: "'w host \<Rightarrow> string \<Rightarrow> string \<Rightarrow> 'w \<Rightarrow> ('w, exn, string) outcome" where
  "write_dockerfile h target_dir dependency_file w =
     (let path = join_path h target_dir ''Dockerfile''
      in and_then (write_file h path (generate_dockerfile_template dependency_file) w) (\<lambda>_ w. (w, Inr path)))"

definition dependency_files :: "string list" where
  "dependency_files = [''requirements.txt'', ''pyproject.toml'']"

definition extract_dependencies :: "'w host \<Rightarrow> string \<Rightarrow> 'w \<Rightarrow> string res" where
  "extract_dependencies h project_dir w =
     (case find (\<lambda>f. path_exists h (join_path h project_dir f) w) dependency_files of
        Some f \<Rightarrow> Inr (join_path h project_dir f)
      | None \<Rightarrow> raises OtherError ''No dependency file found (requirements.txt or pyproject.toml)'')"

section \<open>Images\<close>

text \<open>\<open>subprocess.run(cmd, check=True)\<close> raises when the command fails.\<close>

definition build_docker_image :: "'w host \<Rightarrow> string \<Rightarrow> string \<Rightarrow> 'w \<Rightarrow> ('w, exn, unit) outcome" where
  "build_docker_image h context_dir image_tag = run_command h [''docker'', ''build'', ''-t'', image_tag, context_dir]"

definition push_docker_image :: "'w host \<Rightarrow> string \<Rightarrow> string option \<Rightarrow> 'w \<Rightarrow> ('w, exn, unit) outcome" where
  "push_docker_image h image_tag registry w =
     (case registry of
        Some (c # cs) \<Rightarrow>
          (let img = (c # cs) @ ''/'' @ image_tag
           in and_then (run_command h [''docker'', ''tag'', image_tag, img] w)
                (\<lambda>_. run_command h [''docker'', ''push'', img]))
      | _ \<Rightarrow> run_command h [''docker'', ''push'', image_tag] w)"

section \<open>Kubernetes jobs\<close>

definition opt_list :: "string list option \<Rightarrow> pyval" where
  "opt_list xs = (case xs of None \<Rightarrow> PNone | Some ss \<Rightarrow> PList (map PStr ss))"

definition generate_job ::
    "pipeline_wrapper \<Rightarrow> string \<Rightarrow> (string, string) dict option \<Rightarrow> pyval \<Rightarrow> string list option
     \<Rightarrow> string list option \<Rightarrow> pyval \<Rightarrow> pyval" where
  "generate_job p img env_vars job_name command args resources =
     (let env = map (\<lambda>(k, v). PDict [(''name'', PStr k), (''value'', PStr v)])
                  (case env_vars of None \<Rightarrow> [] | Some d \<Rightarrow> d);
          container = PDict [(''name'', PStr ''pipeline-executor''), (''image'', PStr img),
            (''command'', opt_list command), (''args'', opt_list args), (''env'', PList env),
            (''resources'', resources)];
          job_spec = PDict [(''template'', PDict
              [(''metadata'', PDict [(''labels'', PDict [(''app'', or_default job_name (pw_name p))])]),
               (''spec'', PDict [(''restartPolicy'', PStr ''Never''), (''containers'', PList [container])])]),
            (''backoffLimit'', PInt 2)]
      in PDict [(''apiVersion'', PStr ''batch/v1''), (''kind'', PStr ''Job''),
                (''metadata'', PDict [(''name'', or_default job_name (pw_name p))]), (''spec'', job_spec)])"

section \<open>Drawing\<close>

datatype draw_call =
    AddNode string | AddEdge string string | SpringLayout | NewFigure | DrawGraph | SetTitle string | ShowPlot
  | PrintText string

definition visualize_pipeline :: "bool \<Rightarrow> (string, sdk_node) dict \<Rightarrow> string option \<Rightarrow> bool \<Rightarrow> draw_call list" where
  "visualize_pipeline available nodes pipeline_name show_it =
     (if \<not> available
      then [PrintText ''networkx and matplotlib are needed'', PrintText ''pip install networkx matplotlib'']
      else map (AddNode \<circ> fst) nodes @
           concat (map (\<lambda>(name, n). map (\<lambda>u. AddEdge u name) (sdk_upstreams n)) nodes) @
           [SpringLayout, NewFigure, DrawGraph] @
           (case pipeline_name of Some (c # cs) \<Rightarrow> [SetTitle (''Pipeline: '' @ c # cs)] | _ \<Rightarrow> []) @
           (if show_it then [ShowPlot] else []))"

definition visualize :: "bool \<Rightarrow> pipeline \<Rightarrow> draw_call list" where
  "visualize available p = visualize_pipeline available (pl_nodes p) (Some (pl_name p)) True"

section \<open>Which projects get a working Dockerfile\<close>

text \<open>
  What the generated Dockerfile installs. For the file that \<open>extract_dependencies\<close> found in a
  project, the Dockerfile installs from a file that exists there only when the project has a
  \<open>requirements.txt\<close>: for a project with \<open>pyproject.toml\<close> alone it installs from a
  \<open>requirements.txt\<close> that the project does not have.
\<close>
theorem dockerfile_needs_requirements:
  assumes join: "\<And>f. join_path h dir f = dir @ ''/'' @ f"
    and found: "extract_dependencies h dir w = Inr path"
  shows "path = dir @ ''/requirements.txt'' \<and> path_exists h path w \<and>
      generate_dockerfile_template path = dockerfile (''RUN pip install --no-cache-dir -r '' @ path) \<or>
    path = dir @ ''/pyproject.toml'' \<and> \<not> path_exists h (dir @ ''/requirements.txt'') w \<and>
      generate_dockerfile_template path =
        dockerfile (''RUN pip install --no-cache-dir uv && uv pip install -r requirements.txt'')"
proof -
  have "ends_with (dir @ ''/requirements.txt'') ''.txt''"
    unfolding ends_with_iff by (rule exI [of _ "dir @ ''/requirements''"]) simp
  moreover have "ends_with (dir @ ''/pyproject.toml'') ''.toml''"
    unfolding ends_with_iff by (rule exI [of _ "dir @ ''/pyproject''"]) simp
  moreover have "\<not> ends_with (dir @ ''/pyproject.toml'') ''.txt''"
  proof
    assume "ends_with (dir @ ''/pyproject.toml'') ''.txt''"
    then obtain t where "rev (dir @ ''/pyproject.toml'') = rev (t @ ''.txt'')" unfolding ends_with_iff by auto
    then show False by simp
  qed
  ultimately show ?thesis
    using found by (auto simp: extract_dependencies_def dependency_files_def join
        generate_dockerfile_template_def dependency_command_def split: if_splits)
qed

definition toml_host :: "unit host" where
  "toml_host = \<lparr>join_path = (\<lambda>d f. d @ ''/'' @ f), path_exists = (\<lambda>p _. p = ''app/pyproject.toml''),
     write_file = (\<lambda>_ _ w. (w, Inr ())), run_command = (\<lambda>_ w. (w, Inr ()))\<rparr>"

theorem dockerfile_needs_requirements_witness:
  "\<exists>path. extract_dependencies toml_host ''app'' () = Inr path \<and>
     generate_dockerfile_template path =
       dockerfile (''RUN pip install --no-cache-dir uv && uv pip install -r requirements.txt'') \<and>
     \<not> path_exists toml_host ''app/requirements.txt'' ()"
proof -
  have e: "extract_dependencies toml_host ''app'' () = Inr ''app/pyproject.toml''"
    by (simp add: extract_dependencies_def toml_host_def dependency_files_def)
  have j: "join_path toml_host ''app'' f = ''app'' @ ''/'' @ f" for f by (simp add: toml_host_def)
  from dockerfile_needs_requirements [OF j e] e show ?thesis by simp
qed

section \<open>Jobs and drawings\<close>

text \<open>The job and the pods it starts carry the same name, and every environment variable its value.\<close>

lemma generate_job_spec:
  "\<exists>meta spec. generate_job p img env jn cmd as res =
       PDict [(''apiVersion'', PStr ''batch/v1''), (''kind'', PStr ''Job''), (''metadata'', PDict meta), (''spec'', PDict spec)] \<and>
     map_of meta ''name'' = Some (if py_truthy jn then jn else pw_name p) \<and>
     (\<exists>t. map_of spec ''template'' = Some (PDict t) \<and>
        map_of t ''metadata'' = Some (PDict [(''labels'', PDict [(''app'', if py_truthy jn then jn else pw_name p)])]))"
  by (simp add: generate_job_def Let_def or_default_def)

text \<open>The edges drawn are the pairs of a node and its upstreams, and the nodes those of the pipeline.\<close>

lemma visualize_spec:
  "AddEdge u n \<in> set (visualize True p) \<longleftrightarrow> (\<exists>nd. (n, nd) \<in> set (pl_nodes p) \<and> u \<in> set (sdk_upstreams nd))"
  "AddNode n \<in> set (visualize True p) \<longleftrightarrow> n \<in> fst ` set (pl_nodes p)"
  by (force simp: visualize_def visualize_pipeline_def split: list.splits)+

text \<open>A push to a registry tags the image first and pushes nothing when that fails.\<close>

lemma push_tags_first:
  assumes "run_command h [''docker'', ''tag'', t, r @ ''/'' @ t] w = (w', Inl e)" "r \<noteq> []"
  shows "push_docker_image h t (Some r) w = (w', Inl e)"
  using assms by (cases r) (simp_all add: push_docker_image_def)

end
