(* ===== verification/LazyClients.thy ===== *)
theory LazyClients
  imports Errors
begin

text \<open>
  How the SDK opens its clients: the Kafka producer and consumer of \<open>StreamProcessor\<close>
  (\<open>sdk/execution/stream_processor.py\<close>) and the Redis client of \<open>StateManager\<close>
  (\<open>sdk/execution/state_manager.py\<close>), each made when it is first used and kept.

  The client libraries are parameters that act on a world: \<open>'p\<close>, \<open>'c\<close> and \<open>'r\<close> are the types of a
  producer, a consumer and a Redis client.
\<close>

section \<open>StreamProcessor\<close>

record ('p, 'c) stream_processor =
  sp_brokers :: string
  sp_group :: string
  sp_client :: string
  sp_producer :: "'p option"
  sp_consumer :: "'c option"

record ('p, 'c, 'w) kafka_lib =
  make_producer :: "(string, string) dict \<Rightarrow> 'w \<Rightarrow> ('w, exn, 'p) outcome"
  make_consumer :: "(string, string) dict \<Rightarrow> 'w \<Rightarrow> ('w, exn, 'c) outcome"
  flush_producer :: "'p \<Rightarrow> 'w \<Rightarrow> ('w, exn, unit) outcome"
  close_consumer :: "'c \<Rightarrow> 'w \<Rightarrow> ('w, exn, unit) outcome"

text \<open>\<open>now\<close> is \<open>int(time.time())\<close> as text; an empty id counts as missing.\<close>

definition new_stream_processor ::
    "bool \<Rightarrow> string \<Rightarrow> string \<Rightarrow> string option \<Rightarrow> string option \<Rightarrow> ('p, 'c) stream_processor res" where
  "new_stream_processor available now brokers group_id client_id =
     (if \<not> available then raises OtherError ''ImportError: confluent-kafka is needed''
      else Inr \<lparr>sp_brokers = brokers, sp_group = or_str group_id (''qmtl-group-'' @ now),
                sp_client = or_str client_id (''qmtl-client-'' @ now), sp_producer = None, sp_consumer = None\<rparr>)"

definition get_producer ::
    "('p, 'c, 'w) kafka_lib \<Rightarrow> ('p, 'c) stream_processor \<times> 'w \<Rightarrow> (('p, 'c) stream_processor \<times> 'w, exn, 'p) outcome" where
  "get_producer k = (\<lambda>(sp, w).
     case sp_producer sp of
       Some p \<Rightarrow> ((sp, w), Inr p)
     | None \<Rightarrow>
         (case make_producer k [(''bootstrap.servers'', sp_brokers sp), (''client.id'', sp_client sp @ ''-producer'')] w of
            (w', Inl e) \<Rightarrow> ((sp, w'), Inl e)
          | (w', Inr p) \<Rightarrow> ((sp\<lparr>sp_producer := Some p\<rparr>, w'), Inr p)))"

definition get_consumer ::
    "('p, 'c, 'w) kafka_lib \<Rightarrow> ('p, 'c) stream_processor \<times> 'w \<Rightarrow> (('p, 'c) stream_processor \<times> 'w, exn, 'c) outcome" where
  "get_consumer k = (\<lambda>(sp, w).
     case sp_consumer sp of
       Some c \<Rightarrow> ((sp, w), Inr c)
     | None \<Rightarrow>
         (case make_consumer k [(''bootstrap.servers'', sp_brokers sp), (''group.id'', sp_group sp),
                  (''client.id'', sp_client sp @ ''-consumer''), (''auto.offset.reset'', ''latest'')] w of
            (w', Inl e) \<Rightarrow> ((sp, w'), Inl e)
          | (w', Inr c) \<Rightarrow> ((sp\<lparr>sp_consumer := Some c\<rparr>, w'), Inr c)))"

text \<open>\<open>close\<close> closes what was opened and keeps it.\<close>

definition close_streams ::
    "('p, 'c, 'w) kafka_lib \<Rightarrow> ('p, 'c) stream_processor \<times> 'w \<Rightarrow> (('p, 'c) stream_processor \<times> 'w, exn, unit) outcome" where
  "close_streams k = (\<lambda>(sp, w).
     case and_then (case sp_producer sp of None \<Rightarrow> (w, Inr ()) | Some p \<Rightarrow> flush_producer k p w)
            (\<lambda>_ w. case sp_consumer sp of None \<Rightarrow> (w, Inr ()) | Some c \<Rightarrow> close_consumer k c w) of
       (w', r) \<Rightarrow> ((sp, w'), r))"

section \<open>StateManager\<close>

record 'r state_manager =
  sm_uri :: string
  sm_redis :: "'r option"
  sm_params :: "(string, pyval) dict"

definition new_state_manager ::
    "bool \<Rightarrow> string \<Rightarrow> int \<Rightarrow> real \<Rightarrow> bool \<Rightarrow> int \<Rightarrow> 'r state_manager res" where
  "new_state_manager available uri pool_size timeout retry_on_timeout interval =
     (if \<not> available then raises OtherError ''ImportError: redis is needed''
      else Inr \<lparr>sm_uri = uri, sm_redis = None,
                sm_params = [(''max_connections'', PInt pool_size), (''socket_timeout'', PFloat timeout),
                  (''socket_connect_timeout'', PFloat timeout), (''retry_on_timeout'', PBool retry_on_timeout),
                  (''health_check_interval'', PInt interval)]\<rparr>)"

record ('r, 'w) redis_lib =
  from_url :: "string \<Rightarrow> (string, pyval) dict \<Rightarrow> 'w \<Rightarrow> ('w, exn, 'r) outcome"
  ping :: "'r \<Rightarrow> 'w \<Rightarrow> ('w, exn, unit) outcome"

text \<open>
  The property \<open>redis\<close>. The two handlers do the same: after any \<open>Exception\<close> of making the client or
  of its ping, a client is made again and not tried. The attribute is set before the ping, so an
  exception that no handler catches leaves the first client in it.
\<close>

definition get_redis ::
    "('r, 'w) redis_lib \<Rightarrow> 'r state_manager \<times> 'w \<Rightarrow> ('r state_manager \<times> 'w, exn, 'r) outcome" where
  "get_redis lib = (\<lambda>(sm, w).
     case sm_redis sm of
       Some r \<Rightarrow> ((sm, w), Inr r)
     | None \<Rightarrow>
         (let again = (\<lambda>sm w. case from_url lib (sm_uri sm) (sm_params sm) w of
                         (w', Inl e) \<Rightarrow> ((sm, w'), Inl e)
                       | (w', Inr r) \<Rightarrow> ((sm\<lparr>sm_redis := Some r\<rparr>, w'), Inr r))
          in (case from_url lib (sm_uri sm) (sm_params sm) w of
                (w1, Inl e) \<Rightarrow> if caught e then again sm w1 else ((sm, w1), Inl e)
              | (w1, Inr r) \<Rightarrow>
                  (case ping lib r w1 of
                     (w2, Inr _) \<Rightarrow> ((sm\<lparr>sm_redis := Some r\<rparr>, w2), Inr r)
                   | (w2, Inl e) \<Rightarrow>
                       if caught e then again (sm\<lparr>sm_redis := Some r\<rparr>) w2
                       else ((sm\<lparr>sm_redis := Some r\<rparr>, w2), Inl e)))))"

section \<open>One client each\<close>

text \<open>A property that returned a client returns the same one ever after, and does nothing else.\<close>

lemma producer_kept: "get_producer k s = (s', Inr p) \<Longrightarrow> get_producer k s' = (s', Inr p)"
  by (cases s) (auto simp: get_producer_def split: option.splits prod.splits sum.splits)

lemma consumer_kept: "get_consumer k s = (s', Inr c) \<Longrightarrow> get_consumer k s' = (s', Inr c)"
  by (cases s) (auto simp: get_consumer_def split: option.splits prod.splits sum.splits)

lemma redis_kept: "get_redis lib s = (s', Inr r) \<Longrightarrow> get_redis lib s' = (s', Inr r)"
  by (cases s) (auto simp: get_redis_def Let_def split: option.splits prod.splits sum.splits if_splits)

text \<open>Closing does not forget: a processor used after \<open>close\<close> gets the consumer it closed.\<close>

lemma closed_consumer_is_used:
  assumes "sp_consumer sp = Some c" "close_streams k (sp, w) = (s', Inr ())"
  shows "get_consumer k s' = (s', Inr c)"
  using assms by (auto simp: close_streams_def get_consumer_def split: prod.splits option.splits)

text \<open>
  A Redis server that does not answer: making a client does not connect, so when every
  ping fails with an \<open>Exception\<close>, the property still gives a client, the second one it made, which was never
  tried, and every later use gets that one: the failure is seen only by the first operation.
\<close>
theorem unreachable_redis_is_handed_out:
  assumes "sm_redis sm = None" "from_url lib (sm_uri sm) (sm_params sm) w = (w1, Inr r1)"
    and "ping lib r1 w1 = (w2, Inl e)" "caught e"
    and "from_url lib (sm_uri sm) (sm_params sm) w2 = (w3, Inr r2)"
  shows "get_redis lib (sm, w) = ((sm\<lparr>sm_redis := Some r2\<rparr>, w3), Inr r2) \<and>
    get_redis lib (sm\<lparr>sm_redis := Some r2\<rparr>, w4) = ((sm\<lparr>sm_redis := Some r2\<rparr>, w4), Inr r2)"
  using assms by (simp add: get_redis_def)

definition dead_redis :: "(nat, nat) redis_lib" where
  "dead_redis = \<lparr>from_url = (\<lambda>_ _ n. (Suc n, Inr n)), ping = (\<lambda>_ n. (n, raises TimeoutError ''timed out''))\<rparr>"

theorem unreachable_redis_is_handed_out_witness:
  "snd (get_redis dead_redis (\<lparr>sm_uri = ''redis://'', sm_redis = None, sm_params = []\<rparr>, 0)) = Inr 1"
  using unreachable_redis_is_handed_out [of "\<lparr>sm_uri = ''redis://'', sm_redis = None, sm_params = []\<rparr>"
      dead_redis 0 1 0 1 "exn_of TimeoutError ''timed out''" 2 1]
  by (simp add: dead_redis_def caught_iff)

end
