(* ===== verification/ApiServer.thy ===== *)
theory ApiServer
  imports RegistryApi Callbacks
begin

text \<open>
  The registry API as one server (\<open>dag_manager/registry/api.py\<close>, \<open>registry/api_callback.py\<close>): every
  route with its handler, over the state the handlers share. It runs with the in-memory services, as in the
  test mode.

  FastAPI finds the route, checks the declared parameters (\<open>accepts\<close>, a parameter of the model;
  422 when it fails) and calls the handler with the values of the path. The events go to the
  bus \<open>'w\<close> through \<open>publish_cmd\<close>, the Redis command.
\<close>

record api_request =
  rq_method :: string
  rq_segs :: "string list"
  rq_node_data :: "(raw \<times> raw) list"
  rq_has_node :: bool
  rq_body :: pyval
  rq_dict :: "(string, pyval) dict"
  rq_event_target :: string
  rq_tags :: "string list"
  rq_interval :: "string option"
  rq_period :: "string option"
  rq_match_mode :: string
  rq_snapshot_id :: string
  rq_callback_type :: string
  rq_url :: string

record 'w server =
  srv_registry :: registry
  srv_callbacks :: callbacks
  srv_bus :: 'w

record 'w api_lib =
  lib_env :: env
  accepts :: "string \<Rightarrow> api_request \<Rightarrow> bool"
  publish_cmd :: "string \<Rightarrow> string \<Rightarrow> 'w \<Rightarrow> 'w"
  parse_request :: "(string, pyval) dict \<Rightarrow> callback_request res"
  parse_event :: "(string, pyval) dict \<Rightarrow> callback_event res"

datatype reply =
    Reply response | JsonReply int pyval | CallbackReply callback_response
  | CallbackReplies "callback_response list" | CallbackTable "(string, callback_info list) dict"

type_synonym 'w api_handler = "api_request \<Rightarrow> string list \<Rightarrow> 'w server \<Rightarrow> ('w server, exn, reply) outcome"

section \<open>Handlers over their part of the state\<close>

definition on_registry :: "(registry \<Rightarrow> (registry, exn, response) outcome) \<Rightarrow> 'w server \<Rightarrow> ('w server, exn, reply) outcome" where
  "on_registry h s = (case h (srv_registry s) of (r, x) \<Rightarrow> (s\<lparr>srv_registry := r\<rparr>, map_sum id Reply x))"

definition on_callbacks ::
    "('a \<Rightarrow> reply) \<Rightarrow> (callbacks \<Rightarrow> (callbacks, exn, 'a) outcome) \<Rightarrow> 'w server \<Rightarrow> ('w server, exn, reply) outcome" where
  "on_callbacks c h s = (case h (srv_callbacks s) of (cbs, x) \<Rightarrow> (s\<lparr>srv_callbacks := cbs\<rparr>, map_sum id c x))"

definition on_bus :: "('w \<Rightarrow> ('w, exn, response) outcome) \<Rightarrow> 'w server \<Rightarrow> ('w server, exn, reply) outcome" where
  "on_bus h s = (case h (srv_bus s) of (w, x) \<Rightarrow> (s\<lparr>srv_bus := w\<rparr>, map_sum id Reply x))"

definition json_reply :: "int \<Rightarrow> (string, pyval) dict \<Rightarrow> 'w server \<Rightarrow> ('w server, exn, reply) outcome" where
  "json_reply code d s = (s, Inr (JsonReply code (PDict d)))"

text \<open>\<open>template.get("template_id")\<close>\<close>

definition template_reply :: "api_request \<Rightarrow> 'w server \<Rightarrow> ('w server, exn, reply) outcome" where
  "template_reply rq = json_reply 201
     [(''template_id'', case map_of (rq_dict rq) ''template_id'' of None \<Rightarrow> PNone | Some v \<Rightarrow> v)]"

definition the_event :: "api_request \<Rightarrow> event" where
  "the_event rq = PydanticEvent (rq_event_target rq) (rq_body rq)"

text \<open>The handlers that only read.\<close>

definition reading_handlers :: "'w api_lib \<Rightarrow> (string \<times> 'w api_handler) list" where
  "reading_handlers lib =
     (let env = lib_env lib in
      [(''get_pipeline_dag'', \<lambda>rq ps. on_registry (get_pipeline_dag env (ps ! 0))),
       (''get_ready_nodes'', \<lambda>rq ps. on_registry (get_pipeline_ready_nodes env (ps ! 0))),
       (''get_node'', \<lambda>rq ps. on_registry (get_node_by_id (ps ! 0))),
       (''get_leaf_nodes'', \<lambda>rq ps. on_registry get_leaf_nodes_api),
       (''get_nodes_by_tags'', \<lambda>rq ps. on_registry
          (get_nodes_by_tags (rq_tags rq) (rq_interval rq) (rq_period rq) (rq_match_mode rq))),
       (''get_strategy'', \<lambda>rq ps. on_registry (get_strategy env (ps ! 0))),
       (''list_strategies'', \<lambda>rq ps. on_registry (list_strategies env)),
       (''get_node_reference_count'', \<lambda>rq ps. on_registry (get_node_reference_count (ps ! 0))),
       (''get_node_reference_strategies'', \<lambda>rq ps. on_registry (get_node_reference_strategies (ps ! 0))),
       (''get_strategy_nodes'', \<lambda>rq ps. on_registry (get_nodes_of_strategy env (ps ! 0))),
       (''get_node_status'', \<lambda>rq ps. on_registry (get_status_of_node (ps ! 0))),
       (''list_strategy_snapshots'', \<lambda>rq ps. on_registry (list_strategy_snapshots env (ps ! 0))),
       (''get_node_dependencies'', \<lambda>rq ps. on_registry (dependencies_of_node (ps ! 0)))])"

text \<open>The skeletons, which answer without looking at any state.\<close>

definition plain_handlers :: "(string \<times> 'w api_handler) list" where
  "plain_handlers =
     [(''health_check'', \<lambda>rq ps. json_reply 200 [(''status'', PStr ''healthy''), (''version'', PStr ''0.1.0'')]),
      (''health'', \<lambda>rq ps. json_reply 200 [(''status'', PStr ''ok''), (''service'', PStr ''registry'')]),
      (''update_node_partial'', \<lambda>rq ps. json_reply 200
         [(''node_id'', PStr (ps ! 0)), (''updated_fields'', PDict (rq_dict rq))]),
      (''update_strategy_partial'', \<lambda>rq ps. json_reply 200
         [(''strategy_version_id'', PStr (ps ! 0)), (''updated_fields'', PDict (rq_dict rq))])]"

definition template_handlers :: "(string \<times> 'w api_handler) list" where
  "template_handlers =
     [(''create_node_template'', \<lambda>rq ps. template_reply rq),
      (''create_strategy_template'', \<lambda>rq ps. template_reply rq),
      (''create_dag_template'', \<lambda>rq ps. template_reply rq),
      (''get_template'', \<lambda>rq ps. json_reply 200 [(''template_id'', PStr (ps ! 0)), (''template'', PNone)]),
      (''list_templates'', \<lambda>rq ps. json_reply 200 [(''templates'', PList [])]),
      (''grant_template_permission'', \<lambda>rq ps. json_reply 200 [(''success'', PBool True)]),
      (''list_template_permissions'', \<lambda>rq ps. json_reply 200 [(''permissions'', PList [])]),
      (''revoke_template_permission'', \<lambda>rq ps. json_reply 200 [(''success'', PBool True)])]"

definition skeleton_handlers :: "(string \<times> 'w api_handler) list" where
  "skeleton_handlers = plain_handlers @ template_handlers"

definition changing_handlers :: "'w api_lib \<Rightarrow> (string \<times> 'w api_handler) list" where
  "changing_handlers lib =
     (let env = lib_env lib in
      [(''create_node'', \<lambda>rq ps. on_registry (post_node env (rq_node_data rq))),
       (''delete_node'', \<lambda>rq ps. on_registry (delete_node_by_id (ps ! 0))),
       (''add_node_to_strategy'', \<lambda>rq ps. on_registry (add_node_to_strategy env (ps ! 0) (ps ! 1))),
       (''remove_node_from_strategy'', \<lambda>rq ps. on_registry (remove_node_from_strategy (ps ! 0) (ps ! 1))),
       (''update_node_status'', \<lambda>rq ps. on_registry (post_node_status (ps ! 0) (rq_body rq))),
       (''create_strategy_snapshot'', \<lambda>rq ps. on_registry (create_strategy_snapshot env (rq_body rq))),
       (''rollback_strategy_to_snapshot'', \<lambda>rq ps. on_registry (rollback_strategy env (ps ! 0) (rq_snapshot_id rq))),
       (''add_node_dependency'', \<lambda>rq ps. on_registry (add_node_dependency (ps ! 0) (ps ! 1))),
       (''remove_node_dependency'', \<lambda>rq ps. on_registry (remove_node_dependency (ps ! 0) (ps ! 1))),
       (''publish_node_status_event'', \<lambda>rq ps. on_bus (post_event (publish_node_status (publish_cmd lib) (the_event rq)))),
       (''publish_pipeline_status_event'', \<lambda>rq ps. on_bus
          (post_event (publish_pipeline_status (publish_cmd lib) (the_event rq)))),
       (''publish_alert_event'', \<lambda>rq ps. on_bus (post_event (publish_alert (publish_cmd lib) (the_event rq)))),
       (''register_callback'', \<lambda>rq ps. on_callbacks CallbackReply
          (register_callback_route (parse_request lib) (ps ! 0) (rq_dict rq))),
       (''unregister_callback'', \<lambda>rq ps. on_callbacks CallbackReply
          (unregister_callback_route (ps ! 0) (rq_callback_type rq) (rq_url rq))),
       (''list_callbacks'', \<lambda>rq ps. on_callbacks CallbackTable (list_callbacks_route (ps ! 0))),
       (''trigger_callbacks'', \<lambda>rq ps. on_callbacks CallbackReplies
          (trigger_callbacks_route (parse_event lib) (ps ! 0) (rq_dict rq)))])"

text \<open>
  The handlers of the two routers call the handler they are named after; only the internal
  registration passes something else on, the mapping of models it declares as its body.
\<close>

definition public_handlers :: "'w api_lib \<Rightarrow> (string \<times> 'w api_handler) list" where
  "public_handlers lib = map (\<lambda>(n, h). (n @ ''_public'', h)) (reading_handlers lib)"

definition internal_handlers :: "'w api_lib \<Rightarrow> (string \<times> 'w api_handler) list" where
  "internal_handlers lib =
     (''create_node_internal'', \<lambda>rq ps. on_registry (post_node_internal (lib_env lib) (rq_has_node rq)))
     # map (\<lambda>(n, h). (n @ ''_internal'', h)) (skeleton_handlers @ changing_handlers lib)"

definition api_handlers :: "'w api_lib \<Rightarrow> (string \<times> 'w api_handler) list" where
  "api_handlers lib =
     reading_handlers lib @ skeleton_handlers @ changing_handlers lib @ public_handlers lib @ internal_handlers lib"

section \<open>The server\<close>

definition find_api_route :: "api_request \<Rightarrow> route option" where
  "find_api_route rq = find (\<lambda>(m, t, _). m = rq_method rq \<and> path_matches t (rq_segs rq)) all_routes"

definition path_values :: "string \<Rightarrow> string list \<Rightarrow> string list" where
  "path_values template segs =
     map snd (filter (\<lambda>(t, _). t \<noteq> [] \<and> hd t = CHR ''{'') (zip (split_path template) segs))"

definition serve :: "'w api_lib \<Rightarrow> api_request \<Rightarrow> 'w server \<Rightarrow> ('w server, exn, reply) outcome" where
  "serve lib rq s =
     (case find_api_route rq of
        None \<Rightarrow>
          (s, abort (if list_ex (\<lambda>(_, t, _). path_matches t (rq_segs rq)) all_routes then 405 else 404) ''no route'')
      | Some (_, t, h) \<Rightarrow>
          if \<not> accepts lib h rq then (s, abort 422 ''validation error'')
          else (case map_of (api_handlers lib) h of
                  None \<Rightarrow> (s, raises KeyError h)
                | Some f \<Rightarrow> f rq (path_values t (rq_segs rq)) s))"

definition new_server :: "'w \<Rightarrow> 'w server" where
  "new_server w = \<lparr>srv_registry = empty_registry, srv_callbacks = [], srv_bus = w\<rparr>"

definition serve_all :: "'w api_lib \<Rightarrow> api_request list \<Rightarrow> 'w server \<Rightarrow> 'w server" where
  "serve_all lib = fold (\<lambda>rq s. fst (serve lib rq s))"

section \<open>Every route has a handler\<close>

lemma handler_names:
  "set (map (\<lambda>(_, _, h). h) all_routes) \<subseteq> set (map fst (api_handlers lib))"
  by (simp add: all_routes_def callback_routes_def public_routes_def internal_routes_def app_routes_def
      with_prefix_def api_handlers_def reading_handlers_def skeleton_handlers_def plain_handlers_def template_handlers_def changing_handlers_def
      public_handlers_def internal_handlers_def Let_def)

section \<open>What a request does to the registry\<close>

definition registry_step :: "registry \<Rightarrow> registry \<Rightarrow> bool" where
  "registry_step r r' \<longleftrightarrow> r' = r \<or> (\<exists>op. r' = run_op op r)"

lemma registry_step_same [simp]: "registry_step r r"
  by (simp add: registry_step_def)

lemma registry_step_op:
  "registry_step r (fst (create_node n r))" "registry_step r (fst (delete_node i r))"
  "registry_step r (add_contains_relationship v i r)" "registry_step r (remove_contains_relationship v i r)"
  "registry_step r (update_node_status i st r)" "registry_step r (add_dependency i d r)"
  "registry_step r (remove_dependency i d r)"
  unfolding registry_step_def by (metis run_op.simps)+

definition steps :: "('w server \<Rightarrow> ('w server, exn, reply) outcome) \<Rightarrow> bool" where
  "steps h \<longleftrightarrow> (\<forall>s. registry_step (srv_registry s) (srv_registry (fst (h s))))"

definition reads :: "('w server \<Rightarrow> ('w server, exn, reply) outcome) \<Rightarrow> bool" where
  "reads h \<longleftrightarrow> (\<forall>s. fst (h s) = s)"

lemma reads_steps: "reads h \<Longrightarrow> steps h"
  by (simp add: reads_def steps_def)

lemma steps_on_registry: "(\<And>r. registry_step r (fst (h r))) \<Longrightarrow> steps (on_registry h)"
  by (simp add: steps_def on_registry_def case_prod_beta)

lemma reads_on_registry: "(\<And>r. fst (h r) = r) \<Longrightarrow> reads (on_registry h)"
  by (simp add: reads_def on_registry_def case_prod_beta)

lemma steps_elsewhere: "steps (on_callbacks c f)" "steps (on_bus g)"
  by (simp_all add: steps_def on_callbacks_def on_bus_def split: prod.split)

lemma reads_json: "reads (json_reply code d)" "reads (template_reply rq)"
  by (simp_all add: reads_def json_reply_def template_reply_def)

lemma reading_handlers_read:
  "fst (get_pipeline_dag env p r) = r" "fst (get_pipeline_ready_nodes env p r) = r" "fst (get_node_by_id i r) = r"
  "fst (get_leaf_nodes_api r) = r" "fst (get_nodes_by_tags ts iv per mode r) = r" "fst (get_strategy env v r) = r"
  "fst (list_strategies env r) = r" "fst (get_node_reference_count i r) = r"
  "fst (get_node_reference_strategies i r) = r" "fst (get_nodes_of_strategy env v r) = r"
  "fst (get_status_of_node i r) = r" "fst (list_strategy_snapshots env v r) = r" "fst (dependencies_of_node i r) = r"
  by (simp_all add: get_pipeline_dag_def get_pipeline_ready_nodes_def get_node_by_id_def get_leaf_nodes_api_def
      get_nodes_by_tags_def get_strategy_def list_strategies_def get_node_reference_count_def
      get_node_reference_strategies_def get_nodes_of_strategy_def get_status_of_node_def
      list_strategy_snapshots_def dependencies_of_node_def)

lemma reading_handlers_reads: "list_all (\<lambda>(_, h). \<forall>rq ps. reads (h rq ps)) (reading_handlers lib)"
  by (simp add: reading_handlers_def Let_def reads_on_registry reading_handlers_read)

lemma skeleton_handlers_reads: "list_all (\<lambda>(_, h). \<forall>rq ps. reads (h rq ps)) skeleton_handlers"
  by (simp add: skeleton_handlers_def plain_handlers_def template_handlers_def reads_json)

lemma changing_steps:
  "registry_step r (fst (post_node env d r))" "registry_step r (fst (delete_node_by_id i r))"
  "registry_step r (fst (add_node_to_strategy env v i r))" "registry_step r (fst (remove_node_from_strategy v i r))"
  "registry_step r (fst (post_node_status i st r))" "registry_step r (fst (create_strategy_snapshot env x r))"
  "registry_step r (fst (rollback_strategy env v sid r))" "registry_step r (fst (add_node_dependency i dep r))"
  "registry_step r (fst (remove_node_dependency i dep r))"
proof -
  show "registry_step r (fst (post_node env d r))"
    using registry_step_op(1) by (simp add: post_node_def case_prod_beta split: sum.split)
  show "registry_step r (fst (delete_node_by_id i r))"
    using registry_step_op(2) by (simp add: delete_node_by_id_def case_prod_beta)
  show "registry_step r (fst (add_node_to_strategy env v i r))"
    by (simp add: add_node_to_strategy_def registry_step_op split: sum.split)
  show "registry_step r (fst (remove_node_from_strategy v i r))"
    by (simp add: remove_node_from_strategy_def registry_step_op)
  show "registry_step r (fst (post_node_status i st r))" by (simp add: post_node_status_def registry_step_op)
  show "registry_step r (fst (create_strategy_snapshot env x r))" by (simp add: create_strategy_snapshot_def)
  show "registry_step r (fst (rollback_strategy env v sid r))" by (simp add: rollback_strategy_def)
  show "registry_step r (fst (add_node_dependency i dep r))"
    by (simp add: add_node_dependency_def registry_step_op split: sum.split)
  show "registry_step r (fst (remove_node_dependency i dep r))"
    by (simp add: remove_node_dependency_def registry_step_op split: sum.split)
qed

lemma changing_handlers_steps: "list_all (\<lambda>(_, h). \<forall>rq ps. steps (h rq ps)) (changing_handlers lib)"
  by (simp add: changing_handlers_def Let_def steps_on_registry steps_elsewhere changing_steps)

lemma list_all_renamed: "list_all (\<lambda>(_, h). P h) (map (\<lambda>(n, h). (g n, h)) hs) \<longleftrightarrow> list_all (\<lambda>(_, h). P h) hs"
  by (induction hs) auto

lemma list_all_mono_snd: "list_all (\<lambda>(_, h). P h) hs \<Longrightarrow> (\<And>h. P h \<Longrightarrow> Q h) \<Longrightarrow> list_all (\<lambda>(_, h). Q h) hs"
  by (induction hs) auto

lemma api_handlers_steps: "list_all (\<lambda>(_, h). \<forall>rq ps. steps (h rq ps)) (api_handlers lib)"
proof -
  have r: "list_all (\<lambda>(_, h). \<forall>rq ps. steps (h rq ps)) (reading_handlers lib)"
    by (rule list_all_mono_snd [OF reading_handlers_reads]) (blast intro: reads_steps)
  have k: "list_all (\<lambda>(_, h). \<forall>rq ps. steps (h rq ps)) skeleton_handlers"
    by (rule list_all_mono_snd [OF skeleton_handlers_reads]) (blast intro: reads_steps)
  show ?thesis
    unfolding api_handlers_def public_handlers_def internal_handlers_def map_append
    by (simp add: r k changing_handlers_steps list_all_renamed steps_on_registry post_node_internal_def changing_steps)
qed

lemma serve_step: "registry_step (srv_registry s) (srv_registry (fst (serve lib rq s)))"
proof (cases "find_api_route rq")
  case None
  then show ?thesis by (simp add: serve_def)
next
  case (Some rte)
  obtain m t h where rte: "rte = (m, t, h)" by (cases rte)
  show ?thesis
  proof (cases "accepts lib h rq \<and> map_of (api_handlers lib) h \<noteq> None")
    case False
    then show ?thesis by (auto simp: serve_def Some rte split: option.split)
  next
    case True
    then obtain f where f: "map_of (api_handlers lib) h = Some f" by blast
    then have "(h, f) \<in> set (api_handlers lib)" by (rule map_of_SomeD)
    then have "steps (f rq (path_values t (rq_segs rq)))"
      using api_handlers_steps [of lib] by (auto simp: list_all_iff)
    then show ?thesis using True f by (simp add: serve_def Some rte steps_def)
  qed
qed

text \<open>
  C19: what any client can do to the registry. Whatever requests the server gets, valid or not, its
  registry is one that some sequence of registry operations, at most one for each request, produces from the empty
  one: so it keeps the invariant of the registry and what follows from it.
\<close>
theorem requests_are_operations:
  "\<exists>ops. length ops \<le> length rqs \<and>
     srv_registry (serve_all lib rqs (new_server w)) = fold run_op ops empty_registry \<and>
     registry_inv (srv_registry (serve_all lib rqs (new_server w)))"
proof -
  have "\<exists>ops. length ops \<le> length rqs \<and> srv_registry (serve_all lib rqs s) = fold run_op ops (srv_registry s)"
    for s :: "'a server"
  proof (induction rqs arbitrary: s)
    case Nil
    then show ?case by (simp add: serve_all_def)
  next
    case (Cons rq rqs)
    let ?s = "fst (serve lib rq s)"
    obtain ops where ops: "length ops \<le> length rqs"
        "srv_registry (serve_all lib rqs ?s) = fold run_op ops (srv_registry ?s)"
      using Cons.IH by blast
    consider "srv_registry ?s = srv_registry s" | op where "srv_registry ?s = run_op op (srv_registry s)"
      using serve_step [of s lib rq] by (auto simp: registry_step_def)
    then show ?case
    proof cases
      case 1
      with ops show ?thesis by (intro exI [of _ ops]) (simp add: serve_all_def)
    next
      case (2 op)
      with ops show ?thesis by (intro exI [of _ "op # ops"]) (simp add: serve_all_def)
    qed
  qed
  from this [of "new_server w"] show ?thesis using reachable by (auto simp: new_server_def)
qed

section \<open>The public routes only read\<close>

definition public_prefix :: "string list" where
  "public_prefix = [[], ''v1'', ''registry'', ''public'']"

lemma public_templates:
  "list_all (\<lambda>(m, t, h). m = ''GET'' \<and> ends_with h ''_public'' \<or>
     length (split_path t) \<le> 3 \<or> (hd (split_path t ! 3 @ ''{'') \<noteq> CHR ''{'' \<and> split_path t ! 3 \<noteq> ''public'')) all_routes"
  by (simp add: all_routes_def callback_routes_def public_routes_def internal_routes_def app_routes_def
      with_prefix_def ends_with_def)

lemma segment_literal: "segment_matches t x \<Longrightarrow> hd (t @ ''{'') \<noteq> CHR ''{'' \<Longrightarrow> x = t"
  by (cases t) auto

lemma no_public_names:
  "list_all (\<lambda>(n, _). \<not> ends_with n ''_public'') (changing_handlers lib)"
  "list_all (\<lambda>(n, _). \<not> ends_with n ''_public'') (internal_handlers lib)"
  by (simp_all add: changing_handlers_def skeleton_handlers_def plain_handlers_def template_handlers_def internal_handlers_def Let_def ends_with_def)

lemma public_named_read:
  "list_all (\<lambda>(n, h). ends_with n ''_public'' \<longrightarrow> (\<forall>rq ps. reads (h rq ps))) (api_handlers lib)"
  (is "list_all ?P _")
proof -
  have "list_all (\<lambda>(_, h). \<forall>rq ps. reads (h rq ps)) (public_handlers lib)"
    by (simp add: public_handlers_def list_all_renamed reading_handlers_reads)
  then have "list_all ?P (public_handlers lib)" by (rule list.pred_mono_strong) auto
  moreover have "list_all ?P (reading_handlers lib)"
    by (rule list.pred_mono_strong [OF reading_handlers_reads]) auto
  moreover have "list_all ?P skeleton_handlers"
    by (rule list.pred_mono_strong [OF skeleton_handlers_reads]) auto
  moreover have "list_all ?P (changing_handlers lib)" "list_all ?P (internal_handlers lib)"
    by (rule list.pred_mono_strong [OF no_public_names(1)], auto)
      (rule list.pred_mono_strong [OF no_public_names(2)], auto)
  ultimately show ?thesis by (simp add: api_handlers_def)
qed

text \<open>
  C20: the public part of the API is read-only. A request whose path lies under
  \<open>/v1/registry/public\<close> leaves the server as it is, whatever its method, its body and the services
  behind it.
\<close>
theorem public_requests_read:
  assumes "take 4 (rq_segs rq) = public_prefix"
  shows "fst (serve lib rq s) = s"
proof (cases "find_api_route rq")
  case None
  then show ?thesis by (simp add: serve_def)
next
  case (Some rte)
  obtain m t h where rte: "rte = (m, t, h)" by (cases rte)
  have found: "(m, t, h) \<in> set all_routes" "path_matches t (rq_segs rq)"
    using find_in [OF Some [unfolded find_api_route_def]] rte by auto
  obtain rest where rest: "rq_segs rq = public_prefix @ rest"
    using assms append_take_drop_id [of 4 "rq_segs rq"] by metis
  have len: "length (split_path t) = length (rq_segs rq)" "3 < length (rq_segs rq)" "rq_segs rq ! 3 = ''public''"
    using found(2) rest by (auto simp: path_matches_def list_all2_lengthD public_prefix_def)
  have "segment_matches (split_path t ! 3) ''public''"
    using found(2) len by (auto simp: path_matches_def dest: list_all2_nthD2)
  then have "ends_with h ''_public''"
    using public_templates found(1) len segment_literal by (fastforce simp: list_all_iff)
  then have "reads (f rq ps)" if "map_of (api_handlers lib) h = Some f" for f ps
    using public_named_read [of lib] map_of_SomeD [OF that] by (auto simp: list_all_iff)
  then show ?thesis by (auto simp: serve_def Some rte reads_def split: option.split)
qed

text \<open>A request to a public route, and a server to ask.\<close>

definition request_to :: "string \<Rightarrow> string \<Rightarrow> api_request" where
  "request_to verb path =
     \<lparr>rq_method = verb, rq_segs = split_path path, rq_node_data = [], rq_has_node = False, rq_body = PNone,
      rq_dict = [], rq_event_target = [], rq_tags = [], rq_interval = None, rq_period = None,
      rq_match_mode = ''AND'', rq_snapshot_id = [], rq_callback_type = [], rq_url = []\<rparr>"

definition demo_lib :: "unit api_lib" where
  "demo_lib = \<lparr>lib_env = demo_env, accepts = (\<lambda>_ _. True), publish_cmd = (\<lambda>_ _ w. w),
     parse_request = (\<lambda>_. raises ParseError ''request''), parse_event = (\<lambda>_. raises ParseError ''event'')\<rparr>"

theorem public_requests_read_witness:
  "fst (serve demo_lib (request_to ''DELETE'' ''/v1/registry/public/nodes/a'') (new_server ())) = new_server () \<and>
   fst (serve demo_lib (request_to ''GET'' ''/v1/registry/public/strategies/v/nodes'') (new_server ())) = new_server ()"
  by (intro conjI public_requests_read) (simp_all add: request_to_def public_prefix_def)

text \<open>
  The changing routes are registered a second time without the internal prefix, so they are reached past
  the dependency that guards the internal router.
\<close>

lemma unguarded_routes:
  "map_option (\<lambda>(_, _, h). h) (find_api_route (request_to ''DELETE'' ''/v1/registry/nodes/a'')) = Some ''delete_node''"
  "map_option (\<lambda>(_, _, h). h) (find_api_route (request_to ''POST'' ''/v1/registry/nodes'')) = Some ''create_node''"
  by (simp_all add: find_api_route_def request_to_def path_matches_def all_routes_def callback_routes_def
      public_routes_def internal_routes_def app_routes_def with_prefix_def)

end
