(* ===== verification/Wrappers.thy ===== *)
theory Wrappers
  imports SdkModels Neo4j StateManager
begin

text \<open>
  What the wrapper classes and clients do around their main operations: attribute lookup of the settings wrappers
  (\<open>sdk/models.py\<close>), the parts of a node id that depend on the kind of upstream and on the source of the function
  (\<open>sdk/node.py\<close>), the singleton and the closing of the Neo4j clients (\<open>common/db\<close>), \<open>ping\<close> of the Redis
  client and the texts of \<open>__repr__\<close>. Reading a source and dumping its syntax tree are parameters.
\<close>

section \<open>Attributes of wrappers\<close>

text \<open>
  Python looks at the attributes of the object first and calls \<open>__getattr__\<close> for any other name; \<open>msg\<close> is
  \<open>getattr(self._proto, name)\<close>. A name with a leading underscore is never looked up in the message, which keeps
  the method from calling itself while \<open>_proto\<close> is not yet set.
\<close>

definition wrapper_getattr :: "(string, 'v) dict \<Rightarrow> (string \<Rightarrow> 'v res) \<Rightarrow> string \<Rightarrow> 'v res" where
  "wrapper_getattr own msg a =
     (case map_of own a of
        Some v \<Rightarrow> Inr v
      | None \<Rightarrow>
          if starts_with a ''_'' then raises AttributeError (''No attribute '' @ a)
          else (case msg a of
                  Inl e \<Rightarrow> if isinstance_of (ex_class e) AttributeError then raises AttributeError (''No attribute '' @ a) else Inl e
                | Inr v \<Rightarrow> Inr v))"

definition interval_settings_attr :: "(string \<Rightarrow> pyval res) \<Rightarrow> interval_obj \<Rightarrow> string \<Rightarrow> pyval res" where
  "interval_settings_attr msg s =
     wrapper_getattr [(''interval'', obj_interval s), (''period'', obj_period s), (''max_history'', obj_max_history s)] msg"

definition stream_settings_attr :: "(string \<Rightarrow> pyval res) \<Rightarrow> intervals \<Rightarrow> string \<Rightarrow> pyval res" where
  "stream_settings_attr msg ivs = wrapper_getattr [(''intervals'', intervals_to_dict ivs)] msg"

text \<open>The lookup of node definitions is the same.\<close>

lemma node_wrapper_getattr:
  "node_wrapper_attr w a =
   wrapper_getattr [(''name'', nw_name w), (''tags'', nw_tags w), (''params'', nw_params w), (''upstreams'', nw_upstreams w),
     (''key_params'', nw_key_params w), (''stream_settings'', nw_streams w)] (node_msg_attr (nw_proto w)) a"
  by (auto simp: node_wrapper_attr_def wrapper_getattr_def node_msg_attr_def split: option.split sum.split)

text \<open>Where the runtime raises nothing but attribute errors, so does the lookup, and private names stay private.\<close>

lemma wrapper_getattr_errors:
  assumes "\<forall>a e. msg a = Inl e \<longrightarrow> isinstance_of (ex_class e) AttributeError" "wrapper_getattr own msg a = Inl e"
  shows "ex_class e = AttributeError"
  using assms by (auto simp: wrapper_getattr_def exn_of_def split: option.splits sum.splits if_splits)

lemma wrapper_getattr_private:
  "map_of own a = None \<Longrightarrow> starts_with a ''_'' \<Longrightarrow> wrapper_getattr own msg a = wrapper_getattr own msg' a"
  by (simp add: wrapper_getattr_def)

text \<open>
  The property \<open>analyzer_type\<close>: the setter writes to the message once there is one; the getter reads the message,
  which no analyzer definition ever has.
\<close>

definition set_analyzer_type :: "'p option \<Rightarrow> ('v \<Rightarrow> 'p \<Rightarrow> 'p res) \<Rightarrow> 'v \<Rightarrow> ('p option \<times> 'v option) res" where
  "set_analyzer_type proto assign v =
     (case proto of
        Some p \<Rightarrow> bind_res (assign v p) (\<lambda>p. Inr (Some p, None))
      | None \<Rightarrow> Inr (None, Some v))"

definition get_analyzer_type :: "'p option \<Rightarrow> ('p \<Rightarrow> 'v res) \<Rightarrow> 'v res" where
  "get_analyzer_type proto read_type =
     (case proto of None \<Rightarrow> raises AttributeError ''AnalyzerDefinition object has no attribute _proto'' | Some p \<Rightarrow> read_type p)"

section \<open>What goes into a node id\<close>

text \<open>An upstream is a name or an object, which may have a \<open>fn\<close> with a qualified name or one of its own.\<close>

datatype upstream = NamedUpstream string | ObjectUpstream "string option" "string option"

fun upstream_qualname :: "upstream \<Rightarrow> string list" where
  "upstream_qualname (NamedUpstream s) = [s]"
| "upstream_qualname (ObjectUpstream (Some q) own) = [q]"
| "upstream_qualname (ObjectUpstream None (Some q)) = [q]"
| "upstream_qualname (ObjectUpstream None None) = []"

definition upstream_qualnames :: "upstream list \<Rightarrow> string list" where
  "upstream_qualnames us = concat (map upstream_qualname us)"

lemma named_upstreams: "upstream_qualnames (map NamedUpstream xs) = xs"
  by (induction xs) (simp_all add: upstream_qualnames_def)

text \<open>An object without a qualified name leaves no trace in the id, and a function counts as its name does.\<close>

lemma silent_upstream: "upstream_qualnames (us @ ObjectUpstream None None # vs) = upstream_qualnames (us @ vs)"
  by (simp add: upstream_qualnames_def)

lemma function_counts_as_name:
  "upstream_qualnames (us @ ObjectUpstream None (Some q) # vs) = upstream_qualnames (us @ NamedUpstream q # vs)"
  by (simp add: upstream_qualnames_def)

text \<open>The syntax tree of the function, or \<open>str(fn)\<close> where anything goes wrong.\<close>

definition function_ast_source ::
    "('f \<Rightarrow> string res) \<Rightarrow> (string \<Rightarrow> string) \<Rightarrow> (string \<Rightarrow> string res) \<Rightarrow> ('f \<Rightarrow> string) \<Rightarrow> 'f option \<Rightarrow> string res" where
  "function_ast_source getsource cleandoc dump_ast str fn =
     (case fn of
        None \<Rightarrow> Inr ''''
      | Some f \<Rightarrow>
          (case bind_res (getsource f) (\<lambda>t. dump_ast (cleandoc t)) of
             Inl e \<Rightarrow> if caught e then Inr (str f) else Inl e
           | Inr t \<Rightarrow> Inr t))"

lemma function_ast_total:
  assumes "\<forall>f e. getsource f = Inl e \<longrightarrow> caught e" "\<forall>t e. dump_ast t = Inl e \<longrightarrow> caught e"
  shows "is_ok (function_ast_source getsource cleandoc dump_ast str fn)"
  using assms by (auto simp: function_ast_source_def bind_res_def split: option.split sum.split)

text \<open>Without a source the id depends on \<open>str(fn)\<close>, which for a function holds its address.\<close>

lemma ast_without_source:
  "getsource f = Inl e \<Longrightarrow> caught e \<Longrightarrow> function_ast_source getsource cleandoc dump_ast str (Some f) = Inr (str f)"
  by (simp add: function_ast_source_def)

section \<open>Clients\<close>

text \<open>\<open>Neo4jConnectionPool.__new__\<close>: one object per process, not initialised when it is made.\<close>

definition pool_instance :: "'p \<Rightarrow> ('p \<times> bool) option \<Rightarrow> 'p \<times> bool" where
  "pool_instance fresh inst = (case inst of None \<Rightarrow> (fresh, False) | Some p \<Rightarrow> p)"

lemma pool_instance_unique: "pool_instance q (Some (pool_instance p inst)) = pool_instance p inst"
  by (simp add: pool_instance_def)

text \<open>A client closes the driver it has; one whose constructor raised has none.\<close>

definition close_neo4j_client :: "('d \<Rightarrow> 's \<Rightarrow> 's) \<Rightarrow> 'd option \<Rightarrow> 's \<Rightarrow> 's" where
  "close_neo4j_client close drv s = (case drv of None \<Rightarrow> s | Some d \<Rightarrow> close d s)"

definition with_neo4j_client ::
    "('d \<Rightarrow> 's \<Rightarrow> 's) \<Rightarrow> 'd \<Rightarrow> ('s \<Rightarrow> ('s, exn, 'a) outcome) \<Rightarrow> 's \<Rightarrow> ('s, exn, 'a) outcome" where
  "with_neo4j_client close d body s = (case body s of (s, r) \<Rightarrow> (close_neo4j_client close (Some d) s, r))"

lemma with_neo4j_client_closes:
  "with_neo4j_client close d body s = (close d (fst (body s)), snd (body s))"
  by (simp add: with_neo4j_client_def close_neo4j_client_def split: prod.split)

text \<open>\<open>RedisClient.ping\<close>; \<open>conn\<close> itself raises when there is no connection.\<close>

definition client_ping :: "(exn \<Rightarrow> bool) \<Rightarrow> 'c res \<Rightarrow> ('c \<Rightarrow> bool res) \<Rightarrow> bool res" where
  "client_ping is_redis_error conn ping =
     (case bind_res conn ping of
        Inl e \<Rightarrow> if is_redis_error e then raises (OtherError) (''ConnectionError: Redis connection failed: '' @ ex_msg e) else Inl e
      | Inr b \<Rightarrow> Inr b)"

section \<open>Texts\<close>

definition processing_repr :: "(string list \<Rightarrow> string) \<Rightarrow> sdk_node \<Rightarrow> string" where
  "processing_repr show_list n =
     ''ProcessingNode(name='' @ CHR 0x27 # sdk_name n @ CHR 0x27 # '', node_id='' @ CHR 0x27 # sdk_id n @ CHR 0x27 #
     '', tags='' @ show_list (sdk_tags n) @ '', upstreams='' @ show_list (sdk_upstreams n) @ '')''"

definition query_repr :: "(string list \<Rightarrow> string) \<Rightarrow> string \<Rightarrow> string list \<Rightarrow> string \<Rightarrow> string \<Rightarrow> string" where
  "query_repr show_list name tag_list interval period =
     ''QueryNode(name='' @ CHR 0x27 # name @ CHR 0x27 # '', tags='' @ show_list tag_list @
     '', interval='' @ CHR 0x27 # interval @ CHR 0x27 # '', period='' @ CHR 0x27 # period @ CHR 0x27 # '')''"

definition pipeline_repr :: "string \<Rightarrow> nat \<Rightarrow> nat \<Rightarrow> string" where
  "pipeline_repr name node_count query_node_count =
     ''Pipeline(name='' @ CHR 0x27 # name @ CHR 0x27 # '', nodes='' @ show_nat node_count @
     '', query_nodes='' @ show_nat query_node_count @ '')''"

definition analyzer_repr :: "(string list \<Rightarrow> string) \<Rightarrow> string \<Rightarrow> string list \<Rightarrow> string list \<Rightarrow> string" where
  "analyzer_repr show_list name tag_list node_names =
     ''Analyzer(name='' @ CHR 0x27 # name @ CHR 0x27 # '', tags='' @ show_list tag_list @ '', nodes='' @ show_list node_names @ '')''"

section \<open>Patterns of the access rules\<close>

text \<open>\<open>compile\<close> is \<open>re.compile\<close>. The validator lets only patterns through that compile, so building the middleware cannot fail.\<close>

definition validate_path_pattern :: "(string \<Rightarrow> 'p res) \<Rightarrow> (exn \<Rightarrow> bool) \<Rightarrow> string \<Rightarrow> string res" where
  "validate_path_pattern compile is_re_error v =
     (case compile v of
        Inl e \<Rightarrow> if is_re_error e then raises ValueError (''Invalid regex pattern: '' @ v) else Inl e
      | Inr _ \<Rightarrow> Inr v)"

fun compiled_rules :: "(string \<Rightarrow> 'p res) \<Rightarrow> (string \<times> 'r) list \<Rightarrow> ('p \<times> string \<times> 'r) list res" where
  "compiled_rules compile [] = Inr []"
| "compiled_rules compile ((v, r) # rules) =
     bind_res (compile v) (\<lambda>p. bind_res (compiled_rules compile rules) (\<lambda>ps. Inr ((p, v, r) # ps)))"

lemma validated_rules_compile:
  "\<forall>(v, r) \<in> set rules. is_ok (validate_path_pattern compile is_re_error v) \<Longrightarrow>
    \<exists>ps. compiled_rules compile rules = Inr ps \<and> map snd ps = rules"
proof (induction rules)
  case (Cons vr rules)
  obtain v r where vr: "vr = (v, r)" by (cases vr)
  then obtain p where "compile v = Inr p"
    using Cons.prems by (cases "compile v") (auto simp: validate_path_pattern_def split: if_splits)
  with Cons vr show ?case by auto
qed simp

end
