(* ===== verification/HttpAuth.thy ===== *)
theory HttpAuth
  imports Common
begin

text \<open>
  Authentication objects (\<open>common/http/auth.py\<close>) and the life of the pair of httpx clients in
  \<open>HTTPClient\<close> (\<open>common/http/client.py\<close>). The httpx library is a parameter; what is used of it is that a client
  calls \<open>auth_flow\<close> of an authentication object, and that the one of the base class sends the request as it is.
  The event loop is the flag that tells whether it runs in the calling thread.
\<close>

section \<open>Authentication\<close>

text \<open>An instance of a subclass of \<open>httpx.Auth\<close>: its attributes and the methods the subclass defines.\<close>

record auth_object =
  ao_attrs :: "(string, string) dict"
  ao_methods :: "(string, (string, string) dict \<Rightarrow> (string, string) dict \<Rightarrow> (string, string) dict res) dict"

text \<open>\<open>self\<close> in the method is the instance of the inner class, not the model that has the token.\<close>

definition bearer_method :: "(string, string) dict \<Rightarrow> (string, string) dict \<Rightarrow> (string, string) dict res" where
  "bearer_method self_attrs headers =
     (case map_of self_attrs ''token'' of
        None \<Rightarrow> raises AttributeError ''_BearerAuth object has no attribute token''
      | Some t \<Rightarrow> Inr (AList.update ''Authorization'' (''Bearer '' @ t) headers))"

definition bearer_as_httpx :: "string \<Rightarrow> auth_object" where
  "bearer_as_httpx token = \<lparr>ao_attrs = [], ao_methods = [(''auth'', bearer_method)]\<rparr>"

definition basic_as_httpx :: "(string \<Rightarrow> string \<Rightarrow> 'a) \<Rightarrow> string \<Rightarrow> string \<Rightarrow> 'a" where
  "basic_as_httpx basic_auth username password = basic_auth username password"

text \<open>How a client applies an object to the headers of a request it sends.\<close>

definition flow_laws :: "(auth_object \<Rightarrow> (string, string) dict \<Rightarrow> (string, string) dict res) \<Rightarrow> bool" where
  "flow_laws flow \<longleftrightarrow>
     (\<forall>a hs. \<not> has_key (ao_methods a) ''auth_flow'' \<longrightarrow> \<not> has_key (ao_methods a) ''sync_auth_flow'' \<longrightarrow>
        \<not> has_key (ao_methods a) ''async_auth_flow'' \<longrightarrow> flow a hs = Inr hs)"

lemma bearer_token_not_sent: "flow_laws flow \<Longrightarrow> flow (bearer_as_httpx token) headers = Inr headers"
  by (simp add: flow_laws_def bearer_as_httpx_def has_key_def)

lemma bearer_method_fails:
  "map_of (ao_methods (bearer_as_httpx token)) ''auth'' = Some f \<Longrightarrow> \<not> is_ok (f (ao_attrs (bearer_as_httpx token)) headers)"
  by (auto simp: bearer_as_httpx_def bearer_method_def)

section \<open>Opening and closing the clients\<close>

datatype client_kwarg = HeadersArg "(string, string) dict" | BaseUrlArg string

record client_pair =
  cl_kwargs :: "client_kwarg list"
  cl_closed :: bool
  cl_async_closed :: bool

definition open_clients :: "string option \<Rightarrow> (string, string) dict option \<Rightarrow> client_pair" where
  "open_clients base_url default_headers =
     \<lparr>cl_kwargs = HeadersArg (case default_headers of None \<Rightarrow> [] | Some hs \<Rightarrow> hs) #
        (case base_url of None \<Rightarrow> [] | Some u \<Rightarrow> [BaseUrlArg u]),
      cl_closed = False, cl_async_closed = False\<rparr>"

definition close_clients :: "bool \<Rightarrow> client_pair \<Rightarrow> (client_pair, exn, unit) outcome" where
  "close_clients loop_running c =
     (let c = c\<lparr>cl_closed := True\<rparr> in
      if cl_async_closed c then (c, Inr ())
      else if loop_running then (c, raises RuntimeError ''This event loop is already running'')
      else (c\<lparr>cl_async_closed := True\<rparr>, Inr ()))"

text \<open>\<open>with client: body\<close>: \<open>__exit__\<close> closes and lets an exception of the body pass.\<close>

definition with_clients :: "bool \<Rightarrow> (client_pair \<Rightarrow> (client_pair, exn, 'a) outcome) \<Rightarrow> client_pair \<Rightarrow> (client_pair, exn, 'a) outcome" where
  "with_clients loop_running body c =
     (case body c of (c, r) \<Rightarrow>
        (case close_clients loop_running c of
           (c, Inl e) \<Rightarrow> (c, Inl e)
         | (c, Inr _) \<Rightarrow> (c, r)))"

definition all_closed :: "client_pair \<Rightarrow> bool" where
  "all_closed c \<longleftrightarrow> cl_closed c \<and> cl_async_closed c"

lemma close_twice: "snd (close_clients False c) = Inr () \<and> close_clients b (fst (close_clients False c)) = close_clients False c"
  by (simp add: close_clients_def Let_def)

text \<open>Outside an event loop both clients are closed whatever the body does, and its outcome is the outcome.\<close>

lemma with_clients_closes:
  "all_closed (fst (with_clients False body c)) \<and> snd (with_clients False body c) = snd (body c)"
  by (simp add: with_clients_def close_clients_def all_closed_def Let_def split: prod.split)

text \<open>Inside one, closing raises and leaves the asynchronous client open.\<close>

lemma close_in_loop_leaks:
  assumes "\<not> cl_async_closed c"
  shows "\<not> cl_async_closed (fst (close_clients True c)) \<and> \<not> is_ok (snd (close_clients True c))"
  using assms by (simp add: close_clients_def Let_def)

end
