(* ===== verification/Scripts.thy ===== *)
theory Scripts
  imports Neo4jServices RegistryClient
begin

text \<open>
  The scripts beside the packages: \<open>src/scripts/generate_api_docs.py\<close>, which writes the documentation of the two
  services from their OpenAPI descriptions, and \<open>src/scripts/neo4j_migration.py\<close>, which applies the schema. An
  OpenAPI description is a record of the parts the script reads; fetching one and writing the file are parameters.
\<close>

section \<open>The documentation of the API\<close>

text \<open>The keys of an operation that the script looks at; \<open>None\<close> stands for a key that is not there.\<close>

record api_operation =
  op_summary :: string
  op_parameters :: "string list option"
  op_has_body :: bool
  op_responses :: "string list option"

record openapi =
  oa_version :: "string option"
  oa_paths :: "(string \<times> (string \<times> api_operation) list) list"

text \<open>\<open>show_list\<close> is \<open>str\<close> of a list of texts.\<close>

definition heading :: "string \<Rightarrow> string \<Rightarrow> string" where
  "heading path verb = ''## `'' @ map to_upper verb @ '' '' @ path @ [CHR ''`'', CHR 0x0A]"

definition operation_lines :: "(string list \<Rightarrow> string) \<Rightarrow> string \<Rightarrow> string \<times> api_operation \<Rightarrow> string list" where
  "operation_lines show_list path = (\<lambda>(verb, d).
     [heading path verb] @
     (if op_summary d \<noteq> [] then [''- summary: '' @ op_summary d] else []) @
     (case op_parameters d of None \<Rightarrow> [] | Some ps \<Rightarrow> [''- parameters: '' @ show_list ps]) @
     (if op_has_body d then [''- RequestBody: yes''] else []) @
     (case op_responses d of None \<Rightarrow> [] | Some rs \<Rightarrow> [''- responses: '' @ join '', '' rs]) @
     [''''])"

definition markdown_lines :: "(string list \<Rightarrow> string) \<Rightarrow> openapi \<Rightarrow> string \<Rightarrow> string list" where
  "markdown_lines show_list api title =
     [''# '' @ title @ '' API'' @ [CHR 0x0A],
      ''**version:** '' @ (case oa_version api of None \<Rightarrow> ''-'' | Some v \<Rightarrow> v),
      ''''] @
     concat (map (\<lambda>(path, ops). concat (map (operation_lines show_list path) ops)) (oa_paths api))"

definition openapi_to_markdown :: "(string list \<Rightarrow> string) \<Rightarrow> openapi \<Rightarrow> string \<Rightarrow> string" where
  "openapi_to_markdown show_list api title = join [CHR 0x0A] (markdown_lines show_list api title)"

definition openapi_url :: "string \<Rightarrow> string" where
  "openapi_url url = rstrip_slash url @ ''/openapi.json''"

text \<open>
  \<open>main\<close>: the file is written only when both descriptions were fetched; otherwise the process exits with 1.
  \<open>get_json\<close> is \<open>httpx.get\<close> with the check of its status; \<open>write\<close> replaces the content of the file.
\<close>

definition generate_docs ::
    "(string list \<Rightarrow> string) \<Rightarrow> (string \<Rightarrow> 's \<Rightarrow> ('s, exn, openapi) outcome) \<Rightarrow> (string \<Rightarrow> 's \<Rightarrow> 's) \<Rightarrow> string \<Rightarrow> string
      \<Rightarrow> 's \<Rightarrow> 's \<times> nat" where
  "generate_docs show_list get_json write registry_url orch_url s =
     (case and_then (get_json (openapi_url registry_url) s) (\<lambda>reg s.
             and_then (get_json (openapi_url orch_url) s) (\<lambda>orch s. (s, Inr (reg, orch)))) of
        (s, Inl e) \<Rightarrow> (s, 1)
      | (s, Inr (reg, orch)) \<Rightarrow>
          (write (''# QMTL API'' @ [CHR 0x0A, CHR 0x0A] @ openapi_to_markdown show_list reg ''Registry'' @
             [CHR 0x0A] @ ''---'' @ [CHR 0x0A, CHR 0x0A] @ openapi_to_markdown show_list orch ''Orchestrator'') s, 0))"

text \<open>Every operation has its heading, in the order of the description, and there are no others.\<close>

definition is_heading :: "string \<Rightarrow> bool" where
  "is_heading l \<longleftrightarrow> take 3 l = ''## ''"

lemma operation_headings: "filter is_heading (operation_lines show_list path op) = [heading path (fst op)]"
  by (auto simp: operation_lines_def is_heading_def heading_def split: prod.split option.split)

theorem markdown_headings:
  "filter is_heading (markdown_lines show_list api title) =
   concat (map (\<lambda>(path, ops). map (\<lambda>(verb, d). heading path verb) ops) (oa_paths api))"
proof -
  have ops: "filter is_heading (concat (map (operation_lines show_list path) ops)) = map (\<lambda>(verb, d). heading path verb) ops"
    for path ops
    by (induction ops) (auto simp: operation_headings)
  have "filter is_heading (concat (map (\<lambda>(path, ops). concat (map (operation_lines show_list path) ops)) ps)) =
      concat (map (\<lambda>(path, ops). map (\<lambda>(verb, d). heading path verb) ops) ps)" for ps
    by (induction ps) (auto simp: ops)
  then show ?thesis by (simp add: markdown_lines_def is_heading_def)
qed

lemma docs_only_when_fetched:
  assumes "generate_docs show_list get_json write r t s = (s', n)" "n \<noteq> 0"
  shows "generate_docs show_list get_json write' r t s = (s', n)"
  using assms by (auto simp: generate_docs_def split: prod.splits sum.splits)

section \<open>The migration\<close>

text \<open>
  A call with keyword arguments: a keyword that is no parameter and a parameter without default that is missing
  are type errors.
\<close>

definition keyword_call :: "(string \<times> bool) list \<Rightarrow> string list \<Rightarrow> unit res" where
  "keyword_call params keywords =
     (case find (\<lambda>k. k \<notin> fst ` set params) keywords of
        Some k \<Rightarrow> raises TypeError (''got an unexpected keyword argument '' @ k)
      | None \<Rightarrow>
          (case find (\<lambda>(p, required). required \<and> p \<notin> set keywords) params of
             Some (p, _) \<Rightarrow> raises TypeError (''missing 1 required positional argument: '' @ p)
           | None \<Rightarrow> Inr ()))"

text \<open>The parameters of \<open>Neo4jClient\<close>, marked where they have no default.\<close>

definition neo4j_client_params :: "(string \<times> bool) list" where
  "neo4j_client_params =
     [(''uri'', True), (''username'', True), (''password'', True), (''connection_timeout'', False),
      (''max_transaction_retry_time'', False), (''connection_acquisition_timeout'', False)]"

definition argument :: "string list \<Rightarrow> nat \<Rightarrow> string \<Rightarrow> string" where
  "argument argv i d = (if i < length argv then argv ! i else d)"

text \<open>\<open>open_driver\<close> connects with the uri, the user and the password.\<close>

definition migrate ::
    "(string \<Rightarrow> string \<Rightarrow> string \<Rightarrow> 's driver res) \<Rightarrow> string list \<Rightarrow> 's \<Rightarrow> ('s, exn, unit) outcome" where
  "migrate open_driver argv s =
     (let uri = argument argv 1 ''bolt://localhost:7687''; user = argument argv 2 ''neo4j''; password = argument argv 3 ''test''
      in case bind_res (keyword_call neo4j_client_params [''uri'', ''user'', ''password'', ''database''])
            (\<lambda>_. open_driver uri user password) of
           Inl e \<Rightarrow> (s, Inl e)
         | Inr drv \<Rightarrow> each (\<lambda>q s. and_then (execute_query drv q None None s) (\<lambda>_ s. (s, Inr ()))) schema_cypher s)"

text \<open>The keywords are not those of the constructor, so no statement is ever executed.\<close>

lemma migration_never_runs:
  "migrate open_driver argv s = (s, raises TypeError ''got an unexpected keyword argument user'')"
  by (simp add: migrate_def keyword_call_def neo4j_client_params_def Let_def)

end
