(* ===== verification/PydanticModels.thy ===== *)
theory PydanticModels
  imports DataNodes
begin

text \<open>
  The pydantic models that only declare fields: the events (\<open>models/event.py\<close>), the nodes and edges of a graph
  (\<open>models/datanode.py\<close>), the Redis settings (\<open>models/config.py\<close>) and the tokens and passwords of
  \<open>common/http/auth.py\<close>. A model is the list of its fields, required or with a default, and its policy for
  other keys; the conversion of one field is a parameter, as everywhere for pydantic.
\<close>

datatype 'v field_default = Required | Default 'v

record 'v model_class =
  mc_fields :: "(string \<times> 'v field_default) list"
  mc_forbid_extra :: bool

text \<open>
  \<open>model_validate\<close>: unknown keys are rejected or dropped, missing ones take their default, and the others are converted.
  All errors are reported in one exception; the model keeps the first.
\<close>

fun validated_fields ::
    "(string \<Rightarrow> 'v \<Rightarrow> 'v res) \<Rightarrow> (string \<times> 'v field_default) list \<Rightarrow> (string, 'v) dict \<Rightarrow> (string, 'v) dict res" where
  "validated_fields convert [] d = Inr []"
| "validated_fields convert ((k, f) # fs) d =
     bind_res
       (case map_of d k of
          Some v \<Rightarrow> convert k v
        | None \<Rightarrow> (case f of Required \<Rightarrow> raises PydanticValidationError (''Field required: '' @ k) | Default v \<Rightarrow> Inr v))
       (\<lambda>v. bind_res (validated_fields convert fs d) (\<lambda>vs. Inr ((k, v) # vs)))"

definition model_validate ::
    "(string \<Rightarrow> 'v \<Rightarrow> 'v res) \<Rightarrow> 'v model_class \<Rightarrow> (string, 'v) dict \<Rightarrow> (string, 'v) dict res" where
  "model_validate convert c d =
     bind_res (validated_fields convert (mc_fields c) d) (\<lambda>vs.
       case find (\<lambda>(k, _). k \<notin> fst ` set (mc_fields c)) d of
         Some (k, _) \<Rightarrow> if mc_forbid_extra c then raises PydanticValidationError (''Extra inputs are not permitted: '' @ k) else Inr vs
       | None \<Rightarrow> Inr vs)"

section \<open>The classes\<close>

definition dag_node_dependency :: "pyval model_class" where
  "dag_node_dependency = \<lparr>mc_fields = [(''id'', Required), (''type'', Required)], mc_forbid_extra = True\<rparr>"

definition dag_node :: "pyval model_class" where
  "dag_node =
     \<lparr>mc_fields = [(''id'', Required), (''type'', Required), (''dependencies'', Default (PList [])),
        (''params'', Default PNone), (''metadata'', Default PNone)], mc_forbid_extra = True\<rparr>"

definition dag_edge :: "pyval model_class" where
  "dag_edge = \<lparr>mc_fields = [(''source'', Required), (''target'', Required)], mc_forbid_extra = True\<rparr>"

definition redis_settings :: "pyval model_class" where
  "redis_settings =
     \<lparr>mc_fields = [(''host'', Default (PStr ''localhost'')), (''port'', Default (PInt 6379)), (''db'', Default (PInt 0)),
        (''password'', Default PNone), (''socket_timeout'', Default (PInt 5))], mc_forbid_extra = False\<rparr>"

datatype event_type = NODE_STATUS | PIPELINE_STATUS | ALERT

definition event_type_value :: "event_type \<Rightarrow> string" where
  "event_type_value e = (case e of NODE_STATUS \<Rightarrow> ''NODE_STATUS'' | PIPELINE_STATUS \<Rightarrow> ''PIPELINE_STATUS'' | ALERT \<Rightarrow> ''ALERT'')"

text \<open>\<open>now\<close> is \<open>datetime.utcnow()\<close> at the time of the call.\<close>

definition node_status_event :: "pyval \<Rightarrow> pyval model_class" where
  "node_status_event now =
     \<lparr>mc_fields = [(''event_type'', Default (PStr (event_type_value NODE_STATUS))), (''node_id'', Required), (''status'', Required),
        (''timestamp'', Default now), (''meta'', Default PNone)], mc_forbid_extra = False\<rparr>"

definition pipeline_status_event :: "pyval \<Rightarrow> pyval model_class" where
  "pipeline_status_event now =
     \<lparr>mc_fields = [(''event_type'', Default (PStr (event_type_value PIPELINE_STATUS))), (''pipeline_id'', Required), (''status'', Required),
        (''timestamp'', Default now), (''meta'', Default PNone)], mc_forbid_extra = False\<rparr>"

definition alert_event :: "pyval \<Rightarrow> pyval model_class" where
  "alert_event now =
     \<lparr>mc_fields = [(''event_type'', Default (PStr (event_type_value ALERT))), (''target_id'', Required), (''level'', Default (PStr ''INFO'')),
        (''message'', Required), (''timestamp'', Default now), (''meta'', Default PNone)], mc_forbid_extra = False\<rparr>"

definition bearer_auth_model :: "pyval model_class" where
  "bearer_auth_model = \<lparr>mc_fields = [(''token'', Required)], mc_forbid_extra = False\<rparr>"

definition basic_auth_model :: "pyval model_class" where
  "basic_auth_model = \<lparr>mc_fields = [(''username'', Required), (''password'', Required)], mc_forbid_extra = False\<rparr>"

section \<open>What validation promises\<close>

lemma validated_fields_keys: "validated_fields convert fs d = Inr vs \<Longrightarrow> map fst vs = map fst fs"
  by (induction fs arbitrary: vs) (auto simp: bind_res_Inr)

text \<open>A validated model has exactly the declared fields, in their order, whatever the input held.\<close>

lemma model_validate_fields: "model_validate convert c d = Inr vs \<Longrightarrow> map fst vs = map fst (mc_fields c)"
  by (auto simp: model_validate_def bind_res_Inr validated_fields_keys split: option.splits if_splits)

lemma validated_fields_ok:
  assumes "\<forall>k v. is_ok (convert k v)"
  shows "is_ok (validated_fields convert fs d) \<longleftrightarrow> (\<forall>(k, f) \<in> set fs. f = Required \<longrightarrow> has_key d k)"
proof (induction fs)
  case (Cons kf fs)
  obtain k f where kf: "kf = (k, f)" by (cases kf)
  show ?case
  proof (cases "map_of d k")
    case None
    with Cons kf show ?thesis by (cases f; cases "validated_fields convert fs d") (auto simp: has_key_def)
  next
    case (Some v)
    obtain x where "convert k v = Inr x" using assms by (metis is_ok_iff)
    with Some Cons kf show ?thesis by (cases "validated_fields convert fs d") (auto simp: has_key_def)
  qed
qed simp

lemma no_extra: "find (\<lambda>(k, _). k \<notin> K) d = None \<longleftrightarrow> fst ` set d \<subseteq> K"
  by (induction d) auto

text \<open>Where every conversion succeeds, validation fails exactly for a missing field or a forbidden key.\<close>

lemma model_validate_ok:
  assumes "\<forall>k v. is_ok (convert k v)"
  shows "is_ok (model_validate convert c d) \<longleftrightarrow>
    (\<forall>(k, f) \<in> set (mc_fields c). f = Required \<longrightarrow> has_key d k) \<and>
    (mc_forbid_extra c \<longrightarrow> fst ` set d \<subseteq> fst ` set (mc_fields c))"
proof -
  show ?thesis
    using validated_fields_ok [OF assms, of "mc_fields c" d] no_extra [of "fst ` set (mc_fields c)" d]
    by (cases "validated_fields convert (mc_fields c) d"; cases "find (\<lambda>(k, _). k \<notin> fst ` set (mc_fields c)) d")
      (auto simp: model_validate_def)
qed

text \<open>Validating again what was validated changes nothing, where conversion keeps converted values.\<close>

lemma validated_fields_again:
  assumes "\<forall>(k, v) \<in> set vs. convert k v = Inr v" "map fst vs = map fst fs" "distinct (map fst ws)" "set vs \<subseteq> set ws"
  shows "validated_fields convert fs ws = Inr vs"
  using assms
proof (induction fs arbitrary: vs)
  case (Cons kf fs)
  obtain k f where kf: "kf = (k, f)" by (cases kf)
  obtain v vs' where vs: "vs = (k, v) # vs'" "map fst vs' = map fst fs" using Cons.prems(2) kf by (cases vs) auto
  have "map_of ws k = Some v" using Cons.prems(3,4) vs(1) by (simp add: map_of_eq_Some_iff)
  moreover have "validated_fields convert fs ws = Inr vs'" using Cons.IH [of vs'] Cons.prems vs by auto
  ultimately show ?case using Cons.prems(1) vs(1) kf by simp
qed simp

lemma model_validate_again:
  assumes "model_validate convert c d = Inr vs" "\<forall>(k, v) \<in> set vs. convert k v = Inr v" "distinct (map fst (mc_fields c))"
  shows "model_validate convert c vs = Inr vs"
proof -
  have keys: "map fst vs = map fst (mc_fields c)" using assms(1) by (rule model_validate_fields)
  then have "fst ` set vs = fst ` set (mc_fields c)" by (metis list.set_map)
  then have "find (\<lambda>(k, _). k \<notin> fst ` set (mc_fields c)) vs = None" by (simp add: no_extra)
  moreover have "validated_fields convert (mc_fields c) vs = Inr vs"
    by (rule validated_fields_again [OF assms(2) keys]) (simp_all add: keys assms(3))
  ultimately show ?thesis by (simp add: model_validate_def)
qed

end
