(* ===== verification/Spec2Isabelle.thy ===== *)
theory Spec2Isabelle
  imports Prelude Errors Graphs DataNodes DagService Scheduling WorkQueue Workflow NodeRegistry RegistryApi Gateway
    SdkNode LocalEngine Pipeline Callbacks RegistryClient StateManager Streams ParallelEngine StatusService Neo4j Neo4jServices SdkModels Analyzers Common ApiDeps
    NodeServices Events GcDaemon NodeSettings GatewayApp Deploy LazyClients ApiServer
    Wrappers HttpAuth Scripts PydanticModels
begin

text \<open>
  QMTL: a verification development for the Python packages under \<open>src/src/qmtl\<close>. File names below are
  relative to that directory.

  \<^bold>\<open>The program.\<close> A trading strategy is a directed acyclic graph of nodes. With the SDK (\<open>sdk/\<close>) a
  user builds a pipeline of source, processing and query nodes and runs it, in the process or over Kafka
  topics. The DAG manager (\<open>dag_manager/\<close>) keeps the nodes of all strategies in a registry with an HTTP
  API, builds and sorts their graphs, queues the nodes that can run, tracks their status, collects
  unused nodes and publishes events. The gateway (\<open>gateway/\<close>) is a read-only HTTP front with authentication and
  access control. \<open>common/\<close> and \<open>models/\<close> hold what they share: exceptions, retries, HTTP, Redis and Neo4j
  clients, settings and the data models.

  \<^bold>\<open>Conventions\<close> (theory Prelude). A fallible function returns a sum whose left part is an exception
  value; code with state takes and returns the state, since Python keeps what was mutated before an exception; a
  loop over a list is \<open>each\<close>, which stops at the first exception; a dict is an association list with
  distinct keys in insertion order. JSON texts are represented by the value they
  denote. Error texts that are Korean in the source are given as an English gist. What is not
  under \<open>src/\<close> is a parameter: a field of a record, with its documented behaviour, where a proof needs any, as a
  named hypothesis (\<open>gc_laws\<close>, \<open>bus_laws\<close>, \<open>proto_ok\<close>, \<open>starlette_laws\<close> and their like), which the witness
  theorems discharge on a concrete instance.

  \<^bold>\<open>Theories and source.\<close>
  \<^item> Errors: \<open>common/errors\<close>, \<open>common/http/retry.py\<close>. The class hierarchy with its walk over the bases,
    a partial order (an instance of \<open>order_top\<close>), the exception handler, \<open>with_retry\<close> and the number of calls it makes.
  \<^item> Graphs: no code of its own. The locale \<open>dfs_search\<close> states what a depth-first search with two marks
    must do at each node, and \<open>dfs_topo\<close> extends it with the order it leaves behind; topological
    orders, closed node sets and cycles are proved there once.
  \<^item> DataNodes: \<open>models/datanode.py\<close>. Every validator; what validation lets through.
  \<^item> DagService: \<open>dag_manager/strategy/dag_service.py\<close>. Building with cycle detection and the cycle in the message,
    Kahn's sort, roots, dependents. Interprets \<open>dfs_search\<close>.
  \<^item> Scheduling: \<open>dag_manager/core/graph_builder.py\<close>, \<open>ready_node_selector.py\<close>. The recursive sort, the
    ready nodes and their progress. Interprets \<open>dfs_topo\<close>.
  \<^item> WorkQueue: \<open>dag_manager/core/queue_repository.py\<close>, \<open>queue_worker.py\<close>. Items are neither lost nor
    duplicated, first in first out; what is popped is \<open>bytes\<close> or \<open>str\<close> as the client decides: the locale \<open>work_queue\<close>, interpreted on the repository.
  \<^item> Workflow: selector, worker and queue composed. Threads that interleave at every callback never complete a
    node before its dependencies. The repository has no consumer of its own, so what drives the threads is left open.
  \<^item> NodeRegistry: \<open>registry/services/node/memory_impl.py\<close>, \<open>validation.py\<close>. The two maps of a strategy's nodes
    refine one relation (locale \<open>contains_store\<close>).
  \<^item> NodeServices: the interface \<open>NodeManagementService\<close> (locale \<open>node_service\<close>) with its implementations in memory
    and on Neo4j, which give the same answers but for what a stored node is read back as, which may fail.
  \<^item> RegistryApi, Callbacks, ApiDeps, ApiServer: \<open>registry/api.py\<close>, \<open>api_callback.py\<close>,
    \<open>metadata_service.py\<close>, \<open>services/node/callback.py\<close>. The handlers, the callback service, the
    dependencies with the connections they take, and the whole server: every route with its handler over the
    shared state, so that the invariant of the registry holds after any sequence of requests.
  \<^item> RegistryClient: \<open>registry/registry_client.py\<close>. What callers see of each answer.
  \<^item> Events: \<open>registry/services/event.py\<close>, \<open>event_client.py\<close>, \<open>models/status.py\<close>. Publisher and subscribers
    composed over a bus that delivers late, at most once, and through one worker thread per client.
  \<^item> StatusService: \<open>dag_manager/execution/status_service.py\<close>. Updates of nodes and the progress.
  \<^item> Neo4j, Neo4jServices, GcDaemon: \<open>common/db\<close>, the services of \<open>registry/services\<close> on Neo4j, the garbage
    collector. The pool and the daemon are step relations over several threads with invariants of the
    reachable states.
  \<^item> Gateway, GatewayApp: \<open>gateway/\<close>. Policies, the four middlewares and their order, the route table.
  \<^item> SdkNode, NodeSettings, SdkModels, Pipeline: \<open>sdk/node.py\<close>, \<open>sdk/models.py\<close>, \<open>sdk/pipeline.py\<close>. Node ids, the
    arguments a function is called with, the execution order, queries, runs, definitions. Pipeline interprets \<open>dfs_topo\<close>.
  \<^item> LocalEngine, StateManager, LazyClients: \<open>sdk/execution/local.py\<close>, \<open>state_manager.py\<close>,
    \<open>common/redis/redis_client.py\<close>. Histories refine a bounded log; StateManager states that once, with the expiry of
    keys, in the locale \<open>bounded_history\<close>, and interprets it on both Redis clients.
  \<^item> Streams, ParallelEngine: \<open>sdk/topic.py\<close>, \<open>stream_processor.py\<close>, \<open>parallel_engine.py\<close>. Topics, messages
    and the coroutines of a run as a sequence of turns.
  \<^item> Analyzers: \<open>sdk/analyzer.py\<close>, \<open>dag_manager/analyzer.py\<close>, \<open>models/decorators.py\<close>.
  \<^item> Common, HttpAuth: \<open>common/http/client.py\<close>, \<open>common/http/auth.py\<close>, \<open>common/config\<close>, \<open>common/utils\<close>,
    \<open>common/db/transaction.py\<close>.
  \<^item> Wrappers: attribute lookup, closing, singletons and texts of the classes above. PydanticModels: the models that
    only declare fields. Scripts: \<open>src/scripts\<close>.
  \<^item> Deploy: \<open>sdk/container.py\<close>, \<open>sdk/k8s.py\<close>, \<open>sdk/visualization.py\<close>.

  \<^bold>\<open>What is shown.\<close> For each component: the invariant of its state and that every operation keeps it; its
  behaviour on every branch, errors included; a refinement of a simpler specification where it has one (the registry, the
  histories, the event bus, the server); and across components that the graphs sorted, queued and run are
  the ones built. Some theorems state what the code does where that is not what its comments promise: the
  gateway rejects every request because its middlewares are added in the wrong order, pooled connections of the API are never
  returned, joins never run in the parallel engine, an exported pipeline cannot be read back (against the README of
  the SDK and a test), a node with an empty data format is lost on Neo4j. They describe the code as it is.

  \<^bold>\<open>Bounds.\<close> Recursive searches take the depth of the Python stack as an argument and give
  \<open>RecursionError\<close> at 0; the theorems that a search returns assume a depth above the number of
  nodes, which suffices because a path of distinct nodes is no longer. The string conversion of
  Common takes the same argument; it returns for some depth exactly on values that nest
  finitely deep, and then the result does not depend on the depth. The loops of the
  queue, the pool, the parallel engine and the collector's daemon, which do not end, are sequences of steps of any length.
  Integers are unbounded as in Python; the 32 and 64 bit fields of protobuf messages are range-checked by the
  runtime, as the code relies on.

  \<^bold>\<open>Parameters.\<close> Redis, Kafka, the Neo4j driver and the meaning of Cypher, FastAPI's validation of parameters and
  Starlette's stacking of middlewares, JWT, httpx, pydantic's field conversion, the protobuf runtime, MD5 and
  SHA-256, the clock, uuids, \<open>random.sample\<close>, the iteration order of sets, \<open>str\<close> of arbitrary objects. Float
  arithmetic is exact. The functions of nodes and the \<open>fetch\<close> of sources give a result that depends on their arguments
  only; the hypotheses of the theorem about runs (no timeout, no query nodes, a new pipeline) are in its text. Redis
  drops keys whose time to live has run out, its Pub/Sub delivers at most once, and its clients answer bytes unless told
  to decode.

  \<^bold>\<open>Not modelled.\<close> Generated protobuf modules; logging and its configuration; abstract method declarations; thin
  wrappers that only call a library (hashing, datetime formatting, pydantic dumping, YAML); the thread pools and locks that
  make one operation atomic, beyond the steps of the pool, the daemon and the workflow; one settings object shared
  by several nodes; entry points that start a web server; tests.
\<close>

end
